(* ===== verification/Prelude.thy ===== *)
theory Prelude
  imports Main "HOL-Library.List_Lexorder" "HOL-Library.Product_Lexorder"
begin

text \<open>
  Shared vocabulary of the development: Python text as lists of code points, instants and
  durations as integers, actions that pass a state and may raise, and the small facts about lists
  and actions that every component uses.
\<close>

section \<open>Collections\<close>

named_theorems act_simps \<open>how actions compute\<close>
named_theorems keeps_intros \<open>actions that keep a predicate of the state\<close>
named_theorems text_simps \<open>evaluation of text\<close>

section \<open>Text, instants\<close>

text \<open>
  A Python string is a list of code points. Lexicographic order on code points is Python's order
  on strings. An aware datetime is its number of microseconds since the epoch, a timedelta a
  number of microseconds.
\<close>

type_synonym pystr = "nat list"
type_synonym time = int
type_synonym duration = int

definition lit :: "string \<Rightarrow> pystr" where
  "lit s = map of_char s"

lemma lit_Nil [simp, text_simps]: "lit [] = []"
  by (simp add: lit_def)

lemma lit_Cons [text_simps]: "lit (c # s) = of_char c # lit s"
  by (simp add: lit_def)

lemma length_lit [simp]: "length (lit s) = length s"
  by (simp add: lit_def)

lemma lit_append: "lit (s @ t) = lit s @ lit t"
  by (simp add: lit_def)

lemma lit_inject [simp]: "lit s = lit t \<longleftrightarrow> s = t"
  by (simp add: lit_def inj_map_eq_map inj_def)

definition seconds :: "int \<Rightarrow> duration" where
  "seconds n = n * 1000000"

definition minutes :: "int \<Rightarrow> duration" where
  "minutes n = 60 * seconds n"

definition hours :: "int \<Rightarrow> duration" where
  "hours n = 60 * minutes n"

section \<open>Decimal numerals\<close>

fun decimal :: "nat \<Rightarrow> pystr" where
  "decimal n = (if n < 10 then [48 + n] else decimal (n div 10) @ [48 + n mod 10])"

declare decimal.simps [simp del]

fun decimal_value :: "pystr \<Rightarrow> nat" where
  "decimal_value [] = 0"
| "decimal_value (c # cs) = (c - 48) * 10 ^ length cs + decimal_value cs"

lemma decimal_value_zeros [simp]: "decimal_value (replicate k 48 @ cs) = decimal_value cs"
  by (induction k) simp_all

lemma decimal_value_snoc: "decimal_value (cs @ [c]) = 10 * decimal_value cs + (c - 48)"
  by (induction cs) (simp_all add: algebra_simps)

lemma decimal_value_decimal [simp]: "decimal_value (decimal n) = n"
proof (induction n rule: decimal.induct)
  case (1 n)
  show ?case
    by (cases "n < 10") (simp_all add: decimal.simps [of n] decimal_value_snoc "1")
qed

lemma decimal_inject [simp]: "decimal m = decimal n \<longleftrightarrow> m = n"
  by (metis decimal_value_decimal)

lemma decimal_nonempty [simp]: "decimal n \<noteq> []"
  by (subst decimal.simps) simp

lemma decimal_digits: "c \<in> set (decimal n) \<Longrightarrow> 48 \<le> c \<and> c \<le> 57"
proof (induction n rule: decimal.induct)
  case (1 n)
  then show ?case
    by (cases "n < 10") (auto simp: decimal.simps [of n])
qed

section \<open>Actions: state passing with exceptions\<close>

text \<open>
  An action takes the state and gives an exception (\<open>Inl\<close>) or a value (\<open>Inr\<close>), and the state
  it leaves: what was written before a raise stays written.
\<close>

type_synonym ('w, 'e, 'a) act = "'w \<Rightarrow> ('e + 'a) \<times> 'w"

definition ret :: "'a \<Rightarrow> ('w, 'e, 'a) act" where
  "ret x = (\<lambda>w. (Inr x, w))"

definition raise :: "'e \<Rightarrow> ('w, 'e, 'a) act" where
  "raise e = (\<lambda>w. (Inl e, w))"

definition modify :: "('w \<Rightarrow> 'w) \<Rightarrow> ('w, 'e, unit) act" where
  "modify f = (\<lambda>w. (Inr (), f w))"

definition gets :: "('w \<Rightarrow> 'a) \<Rightarrow> ('w, 'e, 'a) act" where
  "gets f = (\<lambda>w. (Inr (f w), w))"

definition andthen :: "('w, 'e, 'a) act \<Rightarrow> ('a \<Rightarrow> ('w, 'e, 'b) act) \<Rightarrow> ('w, 'e, 'b) act" where
  "andthen m f = (\<lambda>w. case m w of (Inl e, w') \<Rightarrow> (Inl e, w') | (Inr x, w') \<Rightarrow> f x w')"

text \<open>\<open>try: m except e: h e\<close>.\<close>

definition handle_exc :: "('w, 'e, 'a) act \<Rightarrow> ('e \<Rightarrow> ('w, 'e, 'a) act) \<Rightarrow> ('w, 'e, 'a) act" where
  "handle_exc m h = (\<lambda>w. case m w of (Inl e, w') \<Rightarrow> h e w' | (Inr x, w') \<Rightarrow> (Inr x, w'))"

lemma ret_run [act_simps]: "ret x w = (Inr x, w)"
  by (simp add: ret_def)

lemma raise_run [act_simps]: "raise e w = (Inl e, w)"
  by (simp add: raise_def)

lemma modify_run [act_simps]: "modify f w = (Inr (), f w)"
  by (simp add: modify_def)

lemma gets_run [act_simps]: "gets f w = (Inr (f w), w)"
  by (simp add: gets_def)

lemma andthen_run:
  "andthen m f w = (case m w of (Inl e, w') \<Rightarrow> (Inl e, w') | (Inr x, w') \<Rightarrow> f x w')"
  by (simp add: andthen_def)

lemma andthen_Inl [act_simps]: "m w = (Inl e, w') \<Longrightarrow> andthen m f w = (Inl e, w')"
  by (simp add: andthen_def)

lemma andthen_Inr [act_simps]: "m w = (Inr x, w') \<Longrightarrow> andthen m f w = f x w'"
  by (simp add: andthen_def)

lemma modify_andthen: "andthen (modify f) g w = g () (f w)"
  by (simp add: andthen_def modify_def)

lemma gets_andthen: "andthen (gets f) g w = g (f w) w"
  by (simp add: andthen_def gets_def)

lemma andthen_eq_Inr_iff:
  "andthen m f w = (Inr y, w'') \<longleftrightarrow> (\<exists>x w'. m w = (Inr x, w') \<and> f x w' = (Inr y, w''))"
  by (auto simp: andthen_def split: prod.splits sum.splits)

lemma andthen_eq_Inl_iff:
  "andthen m f w = (Inl e, w'') \<longleftrightarrow>
     m w = (Inl e, w'') \<or> (\<exists>x w'. m w = (Inr x, w') \<and> f x w' = (Inl e, w''))"
  by (auto simp: andthen_def split: prod.splits sum.splits)

lemma andthen_assoc: "andthen (andthen m f) g = andthen m (\<lambda>x. andthen (f x) g)"
  by (auto simp: andthen_def fun_eq_iff split: prod.splits sum.splits)

lemma andthen_ret [simp]: "andthen m ret = m"
  by (auto simp: andthen_def ret_def fun_eq_iff split: prod.splits sum.splits)

lemma ret_andthen [simp]: "andthen (ret x) f = f x"
  by (simp add: andthen_def ret_def)

subsection \<open>Keeping a predicate\<close>

text \<open>
  \<open>keeps P m\<close>: whether the action returns or raises, the state it leaves satisfies \<open>P\<close> when the
  state it found did.
\<close>

definition keeps :: "('w \<Rightarrow> bool) \<Rightarrow> ('w, 'e, 'a) act \<Rightarrow> bool" where
  "keeps P m \<longleftrightarrow> (\<forall>w. P w \<longrightarrow> P (snd (m w)))"

lemma keepsI: "(\<And>w. P w \<Longrightarrow> P (snd (m w))) \<Longrightarrow> keeps P m"
  by (simp add: keeps_def)

lemma keepsD: "keeps P m \<Longrightarrow> P w \<Longrightarrow> P (snd (m w))"
  by (simp add: keeps_def)

lemma keepsD2: "keeps P m \<Longrightarrow> P w \<Longrightarrow> m w = (r, w') \<Longrightarrow> P w'"
  by (metis keepsD snd_conv)

lemma keeps_ret [keeps_intros]: "keeps P (ret x)"
  by (simp add: keeps_def ret_def)

lemma keeps_raise [keeps_intros]: "keeps P (raise e)"
  by (simp add: keeps_def raise_def)

lemma keeps_gets [keeps_intros]: "keeps P (gets f)"
  by (simp add: keeps_def gets_def)

lemma keeps_modify [keeps_intros]: "(\<And>w. P w \<Longrightarrow> P (f w)) \<Longrightarrow> keeps P (modify f)"
  by (simp add: keeps_def modify_def)

lemma keeps_andthen [keeps_intros]:
  "keeps P m \<Longrightarrow> (\<And>x. keeps P (f x)) \<Longrightarrow> keeps P (andthen m f)"
  unfolding keeps_def andthen_def by (fastforce split: prod.splits sum.splits)

lemma keeps_handle_exc [keeps_intros]:
  "keeps P m \<Longrightarrow> (\<And>e. keeps P (h e)) \<Longrightarrow> keeps P (handle_exc m h)"
  unfolding keeps_def handle_exc_def by (fastforce split: prod.splits sum.splits)

lemma keeps_if [keeps_intros]:
  "(b \<Longrightarrow> keeps P m) \<Longrightarrow> (\<not> b \<Longrightarrow> keeps P m') \<Longrightarrow> keeps P (if b then m else m')"
  by simp

lemma keeps_case_option [keeps_intros]:
  "(v = None \<Longrightarrow> keeps P m) \<Longrightarrow> (\<And>x. v = Some x \<Longrightarrow> keeps P (f x)) \<Longrightarrow>
     keeps P (case v of None \<Rightarrow> m | Some x \<Rightarrow> f x)"
  by (cases v) simp_all

subsection \<open>What an action gives when it returns\<close>

text \<open>\<open>yields P m Q\<close>: from a state with \<open>P\<close>, a value that \<open>m\<close> returns satisfies \<open>Q\<close> in the state it leaves.\<close>

definition yields :: "('w \<Rightarrow> bool) \<Rightarrow> ('w, 'e, 'a) act \<Rightarrow> ('a \<Rightarrow> 'w \<Rightarrow> bool) \<Rightarrow> bool" where
  "yields P m Q \<longleftrightarrow> (\<forall>w x w'. P w \<longrightarrow> m w = (Inr x, w') \<longrightarrow> Q x w')"

lemma yieldsI: "(\<And>w x w'. P w \<Longrightarrow> m w = (Inr x, w') \<Longrightarrow> Q x w') \<Longrightarrow> yields P m Q"
  by (simp add: yields_def)

lemma yieldsD: "yields P m Q \<Longrightarrow> P w \<Longrightarrow> m w = (Inr x, w') \<Longrightarrow> Q x w'"
  by (simp add: yields_def)

lemma yields_ret: "(\<And>w. P w \<Longrightarrow> Q x w) \<Longrightarrow> yields P (ret x) Q"
  by (simp add: yields_def ret_def)

lemma yields_raise: "yields P (raise e) Q"
  by (simp add: yields_def raise_def)

lemma yields_andthen: "yields P m R \<Longrightarrow> (\<And>x. yields (R x) (f x) Q) \<Longrightarrow> yields P (andthen m f) Q"
  unfolding yields_def andthen_eq_Inr_iff by blast

lemma yields_gets: "(\<And>w. P w \<Longrightarrow> yields (\<lambda>v. P v \<and> v = w) (f (g w)) Q) \<Longrightarrow> yields P (andthen (gets g) f) Q"
  unfolding yields_def andthen_eq_Inr_iff by (auto simp: gets_def)

lemma yields_modify: "(\<And>w. P w \<Longrightarrow> Q () (f w)) \<Longrightarrow> yields P (modify f) Q"
  by (simp add: yields_def modify_def)

lemma yields_if: "(b \<Longrightarrow> yields P m Q) \<Longrightarrow> (\<not> b \<Longrightarrow> yields P m' Q) \<Longrightarrow> yields P (if b then m else m') Q"
  by simp

lemma yields_pre: "yields P m Q \<Longrightarrow> (\<And>w. P' w \<Longrightarrow> P w) \<Longrightarrow> yields P' m Q"
  by (auto simp: yields_def)

lemma yields_post: "yields P m Q \<Longrightarrow> (\<And>x w. Q x w \<Longrightarrow> Q' x w) \<Longrightarrow> yields P m Q'"
  by (auto simp: yields_def)

text \<open>\<open>returns P m\<close>: from a state with \<open>P\<close> the action returns.\<close>

definition returns :: "('w \<Rightarrow> bool) \<Rightarrow> ('w, 'e, 'a) act \<Rightarrow> bool" where
  "returns P m \<longleftrightarrow> (\<forall>w. P w \<longrightarrow> (\<exists>x w'. m w = (Inr x, w')))"

lemma returnsI: "(\<And>w. P w \<Longrightarrow> \<exists>x w'. m w = (Inr x, w')) \<Longrightarrow> returns P m"
  by (simp add: returns_def)

lemma returnsD: "returns P m \<Longrightarrow> P w \<Longrightarrow> \<exists>x w'. m w = (Inr x, w')"
  by (simp add: returns_def)

lemma returns_andthen: "returns P m \<Longrightarrow> yields P m R \<Longrightarrow> (\<And>x. returns (R x) (f x)) \<Longrightarrow> returns P (andthen m f)"
  unfolding returns_def yields_def andthen_eq_Inr_iff by blast

lemma returns_basic: "returns P (ret x)" "returns P (modify f)" "returns P (gets g)"
  by (simp_all add: returns_def ret_def modify_def gets_def)

lemma returns_if: "(b \<Longrightarrow> returns P m) \<Longrightarrow> (\<not> b \<Longrightarrow> returns P m') \<Longrightarrow> returns P (if b then m else m')"
  by simp

lemma returns_pre: "returns P m \<Longrightarrow> (\<And>w. P' w \<Longrightarrow> P w) \<Longrightarrow> returns P' m"
  by (auto simp: returns_def)

section \<open>Lists\<close>

lemma sorted_key_last_greatest:
  "sorted (map f xs) \<Longrightarrow> x \<in> set xs \<Longrightarrow> f x \<le> f (last xs)"
  by (induction xs) (auto split: if_splits)

lemma in_tlD: "x \<in> set (tl xs) \<Longrightarrow> x \<in> set xs"
  by (cases xs) simp_all

lemma find_SomeD: "find P xs = Some x \<Longrightarrow> x \<in> set xs \<and> P x"
  by (induction xs) (auto split: if_splits)

end
