(* ===== verification/Machines.thy ===== *)
theory Machines
  imports Prelude
begin

text \<open>
  The contracts that several components share, as locales: a table-driven status machine, and a
  cache that remembers which events were already taken.
\<close>

section \<open>Status machines\<close>

text \<open>
  A table of allowed transitions and a set of terminal states the table never leaves. The thread
  lifecycle and the session state machine are both of this kind.
\<close>

locale status_machine =
  fixes allowed :: "'s \<Rightarrow> 's set"
    and terminal :: "'s set"
  assumes terminal_closed: "s \<in> terminal \<Longrightarrow> allowed s \<subseteq> terminal"
    and no_self_loop: "s \<notin> allowed s"
begin

definition moves :: "'s \<Rightarrow> 's \<Rightarrow> bool" where
  "moves s t \<longleftrightarrow> t \<in> allowed s"

lemma path_from_terminal: "moves\<^sup>*\<^sup>* s t \<Longrightarrow> s \<in> terminal \<Longrightarrow> t \<in> terminal"
  by (induction rule: rtranclp_induct) (use terminal_closed in \<open>auto simp: moves_def\<close>)

lemma no_way_back: "s \<in> terminal \<Longrightarrow> t \<notin> terminal \<Longrightarrow> \<not> moves\<^sup>*\<^sup>* s t"
  using path_from_terminal by blast

end

text \<open>A machine whose terminal states have no way out at all.\<close>

locale final_machine =
  fixes allowed :: "'s \<Rightarrow> 's set"
    and terminal :: "'s set"
  assumes final: "s \<in> terminal \<Longrightarrow> allowed s = {}"
    and live_no_self_loop: "s \<notin> allowed s"

sublocale final_machine \<subseteq> status_machine
  by unfold_locales (use final live_no_self_loop in auto)

context final_machine
begin

lemma final_path: "moves\<^sup>*\<^sup>* s t \<Longrightarrow> s \<in> terminal \<Longrightarrow> t = s"
proof (induction rule: converse_rtranclp_induct)
  case base
  then show ?case by simp
next
  case (step y z)
  then show ?case by (auto simp: moves_def final)
qed

end

section \<open>Caches of taken events\<close>

text \<open>
  What a handler needs of its duplicate filter. \<open>check\<close> answers whether a key was taken and may
  clean up as it does; \<open>fresh t u\<close> says that a key marked at \<open>t\<close> is still remembered at \<open>u\<close>. A key
  just marked is seen while fresh, and neither marking one key nor checking makes another key seen.
\<close>

locale taken_events =
  fixes nothing :: "'c"
    and check :: "'c \<Rightarrow> 'k \<Rightarrow> 't \<Rightarrow> bool \<times> 'c"
    and mark :: "'c \<Rightarrow> 'k \<Rightarrow> 't \<Rightarrow> 'c"
    and fresh :: "'t \<Rightarrow> 't \<Rightarrow> bool"
    and inv :: "'c \<Rightarrow> bool"
  assumes inv_nothing: "inv nothing"
    and inv_mark: "inv c \<Longrightarrow> inv (mark c k t)"
    and inv_check: "inv c \<Longrightarrow> inv (snd (check c k t))"
    and nothing_seen: "\<not> fst (check nothing k t)"
    and marked_seen: "inv c \<Longrightarrow> fresh t u \<Longrightarrow> fst (check (mark c k t) k u)"
    and mark_other: "inv c \<Longrightarrow> k' \<noteq> k \<Longrightarrow> fst (check (mark c k t) k' u) \<Longrightarrow> fst (check c k' u)"
    and check_other: "inv c \<Longrightarrow> fst (check (snd (check c k t)) k' u) \<Longrightarrow> fst (check c k' u)"
begin

text \<open>The handler's loop: an event is taken unless its key was seen, and taking it marks it.\<close>

fun take_events :: "'c \<Rightarrow> ('k \<times> 't) list \<Rightarrow> ('k \<times> 't) list" where
  "take_events c [] = []"
| "take_events c ((k, t) # es) =
     (if fst (check c k t) then take_events (snd (check c k t)) es
      else (k, t) # take_events (mark (snd (check c k t)) k t) es)"

lemma take_events_sub: "set (take_events c es) \<subseteq> set es"
  by (induction c es rule: take_events.induct) (auto split: if_splits)

lemma immediate_repeat_dropped:
  assumes "inv c" and "fresh t u"
  shows "fst (check (mark (snd (check c k t)) k t) k u)"
  using assms by (simp add: inv_check marked_seen)

text \<open>No event is lost: a key not seen at the start is taken once, whatever came before.\<close>

lemma unseen_key_taken:
  "inv c \<Longrightarrow> (k, t) \<in> set es \<Longrightarrow> \<forall>u. \<not> fst (check c k u) \<Longrightarrow>
     \<exists>u. (k, u) \<in> set (take_events c es)"
proof (induction c es rule: take_events.induct)
  case (1 c)
  then show ?case by simp
next
  case (2 c k' t' es)
  let ?c = "snd (check c k' t')"
  have inv: "inv ?c" and unseen: "\<forall>u. \<not> fst (check ?c k u)"
    using "2.prems" inv_check check_other by blast+
  show ?case
  proof (cases "k' = k")
    case True
    then show ?thesis using "2.prems" by auto
  next
    case False
    then have mem: "(k, t) \<in> set es" using "2.prems"(2) by auto
    have marked: "\<not> fst (check (mark ?c k' t') k u)" for u
      using mark_other [OF inv, of k k' t' u] unseen False by auto
    show ?thesis
      using "2.IH" mem inv unseen marked inv_mark
      by (cases "fst (check c k' t')") auto
  qed
qed

end

end
