(* ===== verification/Lifecycle.thy ===== *)
theory Lifecycle
  imports Machines
begin

text \<open>
  The thread state machine of \<open>lifecycle/transitions.py\<close> on the data of \<open>schema/meta.py\<close>,
  \<open>schema/_common.py\<close> and \<open>schema/event.py\<close>, and the turn toggle of
  \<open>awaiting_from_toggle.py\<close>. The state is what one thread has on disk: its \<open>meta.yaml\<close>, its
  message files and its event log, with the clock the code reads. YAML and the ULID package are
  third-party: a meta file is its parsed record, and \<open>event_id\<close> (minted, never read back here) is
  not kept.
\<close>

section \<open>Data\<close>

datatype participant = Claude_ai | Claude_code

datatype thread_status = Active | Retrying | Terminated | Resolved | Archived

datatype terminated_reason = Retry_exhausted | Validation_failed

fun opposite_of :: "participant \<Rightarrow> participant" where
  "opposite_of Claude_ai = Claude_code"
| "opposite_of Claude_code = Claude_ai"

record thread_meta =
  schema_version :: int
  meta_thread_id :: pystr
  meta_title :: pystr
  status :: thread_status
  awaiting_from :: "participant option"
  participants :: "participant list"
  created_at :: time
  updated_at :: time
  tags :: "pystr list"
  retry_count :: int
  terminated_reason :: "terminated_reason option"
  terminated_at :: "time option"

text \<open>What \<open>ThreadMeta.model_validate\<close> demands of the parsed file beyond its types.\<close>

definition meta_valid :: "thread_meta \<Rightarrow> bool" where
  "meta_valid m \<longleftrightarrow> schema_version m = 2 \<and> participants m \<noteq> [] \<and> 0 \<le> retry_count m"

datatype thread_event =
    ThreadCreated time pystr
  | ThreadStatusChanged time thread_status thread_status int
  | ThreadResolved time
  | ThreadArchived time
  | MessageReceived time nat participant nat
  | MessageSent time nat participant nat
  | ClaudeCodeInvokeStart time nat
  | ClaudeCodeInvokeEnd time nat nat int
  | AwaitingFromChanged time participant participant
  | RetryBackoffStarted time nat duration

text \<open>
  A message file, named by its path, holds the front matter and the body text as written.
\<close>

record message =
  msg_schema :: int
  msg_id :: pystr
  seq :: nat
  msg_from :: participant
  msg_to :: participant
  msg_created_at :: time
  reply_to :: "nat option"
  body :: pystr

datatype dir_entry = Message_file message | Other_file

record thread_fs =
  thread_id :: pystr
  meta_file :: "thread_meta option"
  msg_files :: "(pystr \<times> dir_entry) list"
  event_log :: "thread_event list"
  clock :: "nat \<Rightarrow> time"
  ticks :: nat

datatype lifecycle_error =
    MetaMissing
  | MetaInvalid
  | AwaitingMustBeNone thread_status
  | AwaitingRequired thread_status
  | InvalidTransition thread_status thread_status
  | ReasonRequired
  | RetryBumpTerminal thread_status
  | AwaitingTerminal thread_status
  | SeqTooSmall
  | MessageUnreadable
  | PreTurnFailed
  | BackoffIndex
  | ToolTerminal thread_status
  | ToolNotYourTurn "participant option"
  | ToolCannotResolve lifecycle_error
  | Cancelled

type_synonym 'a thread_act = "(thread_fs, lifecycle_error, 'a) act"

section \<open>The transition table\<close>

fun allowed_transitions :: "thread_status \<Rightarrow> thread_status set" where
  "allowed_transitions Active = {Retrying, Terminated, Resolved}"
| "allowed_transitions Retrying = {Active, Terminated}"
| "allowed_transitions Terminated = {Resolved, Archived}"
| "allowed_transitions Resolved = {Archived}"
| "allowed_transitions Archived = {}"

definition TERMINAL_STATES :: "thread_status set" where
  "TERMINAL_STATES = {Terminated, Resolved, Archived}"

definition REQUEUE_STATES :: "thread_status set" where
  "REQUEUE_STATES = {Active, Retrying}"

lemma terminal_iff [simp]:
  "Active \<notin> TERMINAL_STATES" "Retrying \<notin> TERMINAL_STATES"
  "Terminated \<in> TERMINAL_STATES" "Resolved \<in> TERMINAL_STATES" "Archived \<in> TERMINAL_STATES"
  by (simp_all add: TERMINAL_STATES_def)

lemma requeue_complement: "REQUEUE_STATES = - TERMINAL_STATES"
  unfolding REQUEUE_STATES_def TERMINAL_STATES_def by (auto intro: thread_status.exhaust)

section \<open>Primitive effects\<close>

definition now_utc :: "time thread_act" where
  "now_utc = (\<lambda>w. (Inr (clock w (ticks w)), w\<lparr>ticks := Suc (ticks w)\<rparr>))"

definition append_event :: "thread_event \<Rightarrow> unit thread_act" where
  "append_event e = modify (\<lambda>w. w\<lparr>event_log := event_log w @ [e]\<rparr>)"

definition load_thread_meta :: "thread_meta thread_act" where
  "load_thread_meta = (\<lambda>w. case meta_file w of
       None \<Rightarrow> (Inl MetaMissing, w)
     | Some m \<Rightarrow> if meta_valid m then (Inr m, w) else (Inl MetaInvalid, w))"

definition write_meta :: "thread_meta \<Rightarrow> unit thread_act" where
  "write_meta m = modify (\<lambda>w. w\<lparr>meta_file := Some m\<rparr>)"

section \<open>The operations\<close>

definition validate_transition :: "thread_status \<Rightarrow> thread_status \<Rightarrow> unit thread_act" where
  "validate_transition old new =
     (if new \<notin> allowed_transitions old then raise (InvalidTransition old new) else ret ())"

definition transition_state ::
    "thread_status \<Rightarrow> participant option \<Rightarrow> terminated_reason option \<Rightarrow> time option \<Rightarrow> int option \<Rightarrow>
     thread_meta thread_act" where
  "transition_state new_status new_awaiting reason at rc =
     (if new_status \<in> TERMINAL_STATES \<and> new_awaiting \<noteq> None
      then raise (AwaitingMustBeNone new_status)
      else if new_status \<notin> TERMINAL_STATES \<and> new_awaiting = None
      then raise (AwaitingRequired new_status)
      else andthen load_thread_meta (\<lambda>old.
        andthen (validate_transition (status old) new_status) (\<lambda>_.
        andthen now_utc (\<lambda>now.
        let base = old\<lparr>status := new_status, awaiting_from := new_awaiting, updated_at := now,
                       retry_count := (case rc of None \<Rightarrow> retry_count old | Some n \<Rightarrow> n)\<rparr>
        in if new_status = Terminated
           then (case reason of
                   None \<Rightarrow> raise ReasonRequired
                 | Some r \<Rightarrow>
                     let new = base\<lparr>terminated_reason := Some r,
                                    terminated_at := Some (case at of None \<Rightarrow> now | Some t \<Rightarrow> t)\<rparr>
                     in andthen (write_meta new) (\<lambda>_. ret new))
           else andthen (write_meta base) (\<lambda>_. ret base)))))"

definition bump_retry_count :: "thread_meta thread_act" where
  "bump_retry_count =
     andthen load_thread_meta (\<lambda>old.
       if status old \<in> TERMINAL_STATES then raise (RetryBumpTerminal (status old))
       else andthen now_utc (\<lambda>now.
         let new = old\<lparr>retry_count := retry_count old + 1, updated_at := now\<rparr>
         in andthen (write_meta new) (\<lambda>_. ret new)))"

definition set_awaiting_from :: "participant \<Rightarrow> thread_meta thread_act" where
  "set_awaiting_from p =
     andthen load_thread_meta (\<lambda>old.
       if status old \<in> TERMINAL_STATES then raise (AwaitingTerminal (status old))
       else andthen now_utc (\<lambda>now.
         let new = old\<lparr>awaiting_from := Some p, updated_at := now\<rparr>
         in andthen (write_meta new) (\<lambda>_. ret new)))"

definition toggle_awaiting_from :: "participant \<Rightarrow> unit thread_act" where
  "toggle_awaiting_from from_participant =
     andthen load_thread_meta (\<lambda>pre.
       case awaiting_from pre of
         None \<Rightarrow> ret ()
       | Some current \<Rightarrow>
           let to_participant = opposite_of from_participant
           in if current = to_participant then ret ()
              else andthen (set_awaiting_from to_participant) (\<lambda>_.
                   andthen now_utc (\<lambda>ts.
                   append_event (AwaitingFromChanged ts current to_participant))))"

section \<open>Consistency of what is on disk\<close>

interpretation thread_machine: status_machine allowed_transitions TERMINAL_STATES
proof
  show "s \<in> TERMINAL_STATES \<Longrightarrow> allowed_transitions s \<subseteq> TERMINAL_STATES" for s
    by (cases s) auto
  show "s \<notin> allowed_transitions s" for s
    by (cases s) auto
qed

text \<open>
  A consistent meta file: the turn is owed by nobody exactly in terminal states, a terminated thread
  has its reason and its instant, and only a thread that was terminated carries them.
\<close>

definition meta_ok :: "thread_meta \<Rightarrow> bool" where
  "meta_ok m \<longleftrightarrow> meta_valid m \<and>
     (awaiting_from m = None \<longleftrightarrow> status m \<in> TERMINAL_STATES) \<and>
     (terminated_reason m = None \<longleftrightarrow> terminated_at m = None) \<and>
     (status m = Terminated \<longrightarrow> terminated_reason m \<noteq> None) \<and>
     (terminated_reason m \<noteq> None \<longrightarrow> status m \<in> TERMINAL_STATES)"

definition disk_ok :: "thread_fs \<Rightarrow> bool" where
  "disk_ok w \<longleftrightarrow> (\<forall>m. meta_file w = Some m \<longrightarrow> meta_ok m)"

lemma load_thread_meta_cases:
  obtains (missing) "meta_file w = None" "load_thread_meta w = (Inl MetaMissing, w)"
    | (invalid) m where "meta_file w = Some m" "\<not> meta_valid m"
        "load_thread_meta w = (Inl MetaInvalid, w)"
    | (valid) m where "meta_file w = Some m" "meta_valid m" "load_thread_meta w = (Inr m, w)"
  by (cases "meta_file w") (auto simp: load_thread_meta_def)

lemma load_valid [act_simps]:
  "meta_file w = Some m \<Longrightarrow> meta_valid m \<Longrightarrow> load_thread_meta w = (Inr m, w)"
  by (simp add: load_thread_meta_def)

lemma load_state [simp]: "snd (load_thread_meta w) = w"
  by (rule load_thread_meta_cases [of w]) simp_all

lemma now_run [act_simps]: "now_utc w = (Inr (clock w (ticks w)), w\<lparr>ticks := Suc (ticks w)\<rparr>)"
  by (simp add: now_utc_def)

lemma write_meta_run [act_simps]: "write_meta m w = (Inr (), w\<lparr>meta_file := Some m\<rparr>)"
  by (simp add: write_meta_def act_simps)

lemma append_event_run [act_simps]:
  "append_event e w = (Inr (), w\<lparr>event_log := event_log w @ [e]\<rparr>)"
  by (simp add: append_event_def act_simps)

text \<open>The relation between the meta file found and the one a raising or returning operation leaves.\<close>

definition rc_ok :: "int option \<Rightarrow> bool" where
  "rc_ok rc \<longleftrightarrow> (\<forall>n. rc = Some n \<longrightarrow> 0 \<le> n)"

definition transition_meta ::
    "thread_status \<Rightarrow> participant option \<Rightarrow> terminated_reason option \<Rightarrow> time option \<Rightarrow> int option \<Rightarrow>
     time \<Rightarrow> thread_meta \<Rightarrow> thread_meta" where
  "transition_meta s a r at rc now m =
     m\<lparr>status := s, awaiting_from := a, updated_at := now,
       retry_count := (case rc of None \<Rightarrow> retry_count m | Some n \<Rightarrow> n),
       terminated_reason := (if s = Terminated then r else terminated_reason m),
       terminated_at := (if s = Terminated then Some (case at of None \<Rightarrow> now | Some t \<Rightarrow> t)
                         else terminated_at m)\<rparr>"

definition transition_admissible ::
    "thread_status \<Rightarrow> participant option \<Rightarrow> terminated_reason option \<Rightarrow> thread_meta \<Rightarrow> bool" where
  "transition_admissible s a r m \<longleftrightarrow>
     meta_valid m \<and> s \<in> allowed_transitions (status m) \<and> (a = None \<longleftrightarrow> s \<in> TERMINAL_STATES) \<and>
     (s = Terminated \<longrightarrow> r \<noteq> None)"

lemma transition_state_returns:
  assumes "meta_file w = Some m" and "transition_admissible s a r m"
  shows "transition_state s a r at rc w =
    (let m' = transition_meta s a r at rc (clock w (ticks w)) m
     in (Inr m', w\<lparr>ticks := Suc (ticks w), meta_file := Some m'\<rparr>))"
  using assms
  by (auto simp: transition_state_def transition_admissible_def transition_meta_def
      validate_transition_def Let_def act_simps split: option.splits)

lemma unchanged_ticks: "\<exists>k. w = w\<lparr>ticks := k\<rparr>"
  by (rule exI [of _ "ticks w"]) simp

lemma transition_state_raises:
  assumes "\<not> (\<exists>m. meta_file w = Some m \<and> transition_admissible s a r m)"
  shows "\<exists>e k. transition_state s a r at rc w = (Inl e, w\<lparr>ticks := k\<rparr>)"
proof (cases rule: load_thread_meta_cases [of w])
  case (valid m)
  then show ?thesis using assms
    by (auto simp: transition_state_def transition_admissible_def validate_transition_def Let_def
        act_simps unchanged_ticks split: option.splits)
qed (auto simp: transition_state_def act_simps unchanged_ticks)

lemma transition_meta_ok:
  assumes "meta_ok m" and "transition_admissible s a r m" and "rc_ok rc"
  shows "meta_ok (transition_meta s a r at rc now m)"
proof -
  have "0 \<le> (case rc of None \<Rightarrow> retry_count m | Some n \<Rightarrow> n)"
    using assms(1,3) by (auto simp: meta_ok_def meta_valid_def rc_ok_def split: option.splits)
  moreover have "status m \<in> TERMINAL_STATES \<longrightarrow> s \<in> TERMINAL_STATES"
    using assms(2) thread_machine.terminal_closed by (auto simp: transition_admissible_def)
  ultimately show ?thesis
    using assms(1,2)
    by (auto simp: meta_ok_def meta_valid_def transition_meta_def transition_admissible_def)
qed

lemma bump_retry_count_returns:
  assumes "meta_file w = Some m" and "meta_valid m" and "status m \<notin> TERMINAL_STATES"
  shows "bump_retry_count w =
    (let m' = m\<lparr>retry_count := retry_count m + 1, updated_at := clock w (ticks w)\<rparr>
     in (Inr m', w\<lparr>ticks := Suc (ticks w), meta_file := Some m'\<rparr>))"
  using assms by (simp add: bump_retry_count_def act_simps Let_def)

lemma bump_retry_count_raises:
  assumes "\<not> (\<exists>m. meta_file w = Some m \<and> meta_valid m \<and> status m \<notin> TERMINAL_STATES)"
  shows "\<exists>e. bump_retry_count w = (Inl e, w)"
  by (rule load_thread_meta_cases [of w]) (use assms in \<open>auto simp: bump_retry_count_def act_simps\<close>)

lemma set_awaiting_from_returns:
  assumes "meta_file w = Some m" and "meta_valid m" and "status m \<notin> TERMINAL_STATES"
  shows "set_awaiting_from p w =
    (let m' = m\<lparr>awaiting_from := Some p, updated_at := clock w (ticks w)\<rparr>
     in (Inr m', w\<lparr>ticks := Suc (ticks w), meta_file := Some m'\<rparr>))"
  using assms by (simp add: set_awaiting_from_def act_simps Let_def)

lemma set_awaiting_from_raises:
  assumes "\<not> (\<exists>m. meta_file w = Some m \<and> meta_valid m \<and> status m \<notin> TERMINAL_STATES)"
  shows "\<exists>e. set_awaiting_from p w = (Inl e, w)"
  by (rule load_thread_meta_cases [of w]) (use assms in \<open>auto simp: set_awaiting_from_def act_simps\<close>)

text \<open>What a toggle does to a consistent thread: nothing, or the new turn with its event.\<close>

definition toggled :: "participant \<Rightarrow> thread_meta \<Rightarrow> thread_fs \<Rightarrow> thread_fs" where
  "toggled p m w =
     (case awaiting_from m of
        None \<Rightarrow> w
      | Some current \<Rightarrow>
          if current = opposite_of p then w
          else w\<lparr>ticks := Suc (Suc (ticks w)),
                 meta_file := Some (m\<lparr>awaiting_from := Some (opposite_of p),
                                      updated_at := clock w (ticks w)\<rparr>),
                 event_log := event_log w @
                   [AwaitingFromChanged (clock w (Suc (ticks w))) current (opposite_of p)]\<rparr>)"

lemma toggle_on_ok:
  assumes m: "meta_file w = Some m" and ok: "meta_ok m"
  shows "toggle_awaiting_from p w = (Inr (), toggled p m w)"
proof -
  have valid: "meta_valid m" using ok by (simp add: meta_ok_def)
  show ?thesis
  proof (cases "awaiting_from m")
    case None
    then show ?thesis using m valid by (simp add: toggle_awaiting_from_def toggled_def act_simps)
  next
    case (Some current)
    then have live: "status m \<notin> TERMINAL_STATES" using ok by (auto simp: meta_ok_def)
    show ?thesis
      by (cases "current = opposite_of p")
        (simp_all add: toggle_awaiting_from_def toggled_def Some m valid act_simps
          set_awaiting_from_returns [OF m valid live] Let_def)
  qed
qed

lemma disk_okD: "disk_ok w \<Longrightarrow> meta_file w = Some m \<Longrightarrow> meta_ok m"
  by (simp add: disk_ok_def)

lemma meta_ok_valid: "meta_ok m \<Longrightarrow> meta_valid m"
  by (simp add: meta_ok_def)

lemma meta_ok_live: "meta_ok m \<Longrightarrow> status m \<notin> TERMINAL_STATES \<longleftrightarrow> awaiting_from m \<noteq> None"
  by (auto simp: meta_ok_def)

lemma keeps_transition_state [keeps_intros]:
  assumes "rc_ok rc"
  shows "keeps disk_ok (transition_state s a r at rc)"
proof (rule keepsI)
  fix w assume ok: "disk_ok w"
  show "disk_ok (snd (transition_state s a r at rc w))"
  proof (cases "\<exists>m. meta_file w = Some m \<and> transition_admissible s a r m")
    case True
    then obtain m where "meta_file w = Some m" "transition_admissible s a r m" by blast
    with ok assms show ?thesis
      by (simp add: transition_state_returns Let_def disk_ok_def transition_meta_ok)
  next
    case False
    then obtain e k where "transition_state s a r at rc w = (Inl e, w\<lparr>ticks := k\<rparr>)"
      using transition_state_raises by blast
    with ok show ?thesis by (simp add: disk_ok_def)
  qed
qed

lemma keeps_bump_retry_count [keeps_intros]: "keeps disk_ok bump_retry_count"
proof (rule keepsI)
  fix w assume ok: "disk_ok w"
  show "disk_ok (snd (bump_retry_count w))"
  proof (cases "\<exists>m. meta_file w = Some m \<and> meta_valid m \<and> status m \<notin> TERMINAL_STATES")
    case True
    with ok show ?thesis
      by (auto simp: bump_retry_count_returns Let_def disk_ok_def meta_ok_def meta_valid_def)
  next
    case False
    with ok show ?thesis using bump_retry_count_raises [of w] by auto
  qed
qed

lemma keeps_set_awaiting_from [keeps_intros]: "keeps disk_ok (set_awaiting_from p)"
proof (rule keepsI)
  fix w assume ok: "disk_ok w"
  show "disk_ok (snd (set_awaiting_from p w))"
  proof (cases "\<exists>m. meta_file w = Some m \<and> meta_valid m \<and> status m \<notin> TERMINAL_STATES")
    case True
    with ok show ?thesis
      by (auto simp: set_awaiting_from_returns Let_def disk_ok_def meta_ok_def meta_valid_def)
  next
    case False
    with ok show ?thesis using set_awaiting_from_raises [of w p] by auto
  qed
qed

lemma keeps_load [keeps_intros]: "keeps P load_thread_meta"
  by (rule keepsI) simp

lemma keeps_now [keeps_intros]: "keeps disk_ok now_utc"
  by (simp add: keeps_def now_utc_def disk_ok_def)

lemma keeps_append_event [keeps_intros]: "keeps disk_ok (append_event e)"
  by (simp add: keeps_def append_event_def disk_ok_def act_simps)

lemma keeps_toggle_awaiting_from [keeps_intros]: "keeps disk_ok (toggle_awaiting_from p)"
  unfolding toggle_awaiting_from_def Let_def by (intro keeps_intros)

section \<open>Steps and reachable states\<close>

inductive lifecycle_step :: "thread_fs \<Rightarrow> thread_fs \<Rightarrow> bool" where
  step_transition: "rc_ok rc \<Longrightarrow> lifecycle_step w (snd (transition_state s a r at rc w))"
| step_bump: "lifecycle_step w (snd (bump_retry_count w))"
| step_await: "lifecycle_step w (snd (set_awaiting_from p w))"
| step_toggle: "lifecycle_step w (snd (toggle_awaiting_from p w))"

lemma lifecycle_step_ok: "lifecycle_step w w' \<Longrightarrow> disk_ok w \<Longrightarrow> disk_ok w'"
  by (induction rule: lifecycle_step.induct) (blast intro: keepsD keeps_intros)+

lemma lifecycle_path_ok: "lifecycle_step\<^sup>*\<^sup>* w w' \<Longrightarrow> disk_ok w \<Longrightarrow> disk_ok w'"
  by (induction rule: rtranclp_induct) (auto intro: lifecycle_step_ok)

text \<open>A finished thread: terminal, with the audit trail of how it was terminated.\<close>

definition finished_with :: "terminated_reason option \<Rightarrow> time option \<Rightarrow> thread_fs \<Rightarrow> bool" where
  "finished_with r t w \<longleftrightarrow>
     (\<exists>m. meta_file w = Some m \<and> meta_ok m \<and> status m \<in> TERMINAL_STATES \<and>
          terminated_reason m = r \<and> terminated_at m = t)"

lemma finished_transition:
  assumes fin: "finished_with r t w" and rc: "rc_ok rc"
  shows "finished_with r t (snd (transition_state s a r' at rc w))"
proof (cases "\<exists>m. meta_file w = Some m \<and> transition_admissible s a r' m")
  case True
  then obtain m where m: "meta_file w = Some m" "transition_admissible s a r' m" by blast
  with fin have ok: "meta_ok m" "status m \<in> TERMINAL_STATES"
    "terminated_reason m = r" "terminated_at m = t"
    by (auto simp: finished_with_def)
  from m(2) ok(2) have "s \<in> TERMINAL_STATES" "s \<noteq> Terminated"
    by (cases "status m"; auto simp: transition_admissible_def)+
  with m ok rc show ?thesis
    using transition_meta_ok [OF ok(1) m(2) rc]
    by (auto simp: transition_state_returns Let_def finished_with_def transition_meta_def)
next
  case False
  then obtain e k where "transition_state s a r' at rc w = (Inl e, w\<lparr>ticks := k\<rparr>)"
    using transition_state_raises by blast
  with fin show ?thesis by (simp add: finished_with_def)
qed

lemma finished_step:
  "lifecycle_step w w' \<Longrightarrow> finished_with r t w \<Longrightarrow> finished_with r t w'"
proof (induction rule: lifecycle_step.induct)
  case (step_transition rc w s a r' at)
  then show ?case by (simp add: finished_transition)
next
  case (step_bump w)
  then obtain e where "bump_retry_count w = (Inl e, w)"
    using bump_retry_count_raises [of w] by (auto simp: finished_with_def)
  with step_bump show ?case by simp
next
  case (step_await w p)
  then obtain e where "set_awaiting_from p w = (Inl e, w)"
    using set_awaiting_from_raises [of w p] by (auto simp: finished_with_def)
  with step_await show ?case by simp
next
  case (step_toggle w p)
  then show ?case
    by (auto simp: finished_with_def toggle_on_ok toggled_def meta_ok_def)
qed

lemma finished_path:
  "lifecycle_step\<^sup>*\<^sup>* w w' \<Longrightarrow> finished_with r t w \<Longrightarrow> finished_with r t w'"
  by (induction rule: rtranclp_induct) (auto intro: finished_step)

section \<open>Properties of the lifecycle\<close>

definition sample_meta :: thread_meta where
  "sample_meta = \<lparr>schema_version = 2, meta_thread_id = lit ''T1'', meta_title = lit ''t'',
     status = Active, awaiting_from = Some Claude_code, participants = [Claude_ai, Claude_code],
     created_at = 0, updated_at = 0, tags = [], retry_count = 0, terminated_reason = None,
     terminated_at = None\<rparr>"

definition sample_disk :: thread_fs where
  "sample_disk = \<lparr>thread_id = lit ''T1'', meta_file = Some sample_meta, msg_files = [],
     event_log = [], clock = int, ticks = 7\<rparr>"

lemma sample_disk_ok: "disk_ok sample_disk"
  by (simp add: disk_ok_def sample_disk_def sample_meta_def meta_ok_def meta_valid_def)

text \<open>C18. A transition is all or nothing: it returns the meta file of its specification and has
  written exactly that file when the transition is admissible, and otherwise it raises and what is
  on disk is untouched.\<close>

theorem transition_all_or_nothing:
  "\<exists>k. case meta_file w of
     Some m \<Rightarrow>
       if transition_admissible s a r m
       then transition_state s a r at rc w =
              (Inr (transition_meta s a r at rc (clock w (ticks w)) m),
               w\<lparr>ticks := k, meta_file := Some (transition_meta s a r at rc (clock w (ticks w)) m)\<rparr>)
       else \<exists>e. transition_state s a r at rc w = (Inl e, w\<lparr>ticks := k\<rparr>)
   | None \<Rightarrow> \<exists>e. transition_state s a r at rc w = (Inl e, w\<lparr>ticks := k\<rparr>)"
proof (cases "\<exists>m. meta_file w = Some m \<and> transition_admissible s a r m")
  case True
  then obtain m where "meta_file w = Some m" "transition_admissible s a r m" by blast
  then show ?thesis by (simp add: transition_state_returns Let_def) (intro exI, rule refl)
next
  case False
  with transition_state_raises [OF this, of at rc] show ?thesis by (auto split: option.splits)
qed

text \<open>C17. Every sequence of lifecycle operations, whether each returns or raises, keeps the meta
  file consistent: a turn is owed exactly in the live states, and a terminated thread has its reason
  and its instant.\<close>

theorem lifecycle_consistent:
  assumes "disk_ok w" and "lifecycle_step\<^sup>*\<^sup>* w w'"
  shows "disk_ok w'"
  by (rule lifecycle_path_ok [OF assms(2,1)])

lemma lifecycle_consistent_witness:
  "disk_ok (snd (bump_retry_count (snd (transition_state Retrying (Some Claude_code) None None (Some 1) sample_disk))))"
proof -
  let ?w = "snd (transition_state Retrying (Some Claude_code) None None (Some 1) sample_disk)"
  have "lifecycle_step sample_disk ?w" by (rule step_transition) (simp add: rc_ok_def)
  moreover have "lifecycle_step ?w (snd (bump_retry_count ?w))" by (rule step_bump)
  ultimately show ?thesis
    by (intro lifecycle_consistent [OF sample_disk_ok]) (meson r_into_rtranclp rtranclp.rtrancl_into_rtrancl)
qed

text \<open>A thread once finished never becomes live again, and the reason and instant of its
  termination never change, whatever lifecycle operations are tried on it.\<close>

theorem finished_for_good:
  assumes "meta_file w = Some m" and "meta_ok m" and "status m \<in> TERMINAL_STATES"
    and "lifecycle_step\<^sup>*\<^sup>* w w'"
  obtains m' where "meta_file w' = Some m'" "status m' \<in> TERMINAL_STATES"
    "terminated_reason m' = terminated_reason m" "terminated_at m' = terminated_at m"
proof -
  have "finished_with (terminated_reason m) (terminated_at m) w"
    using assms by (simp add: finished_with_def)
  from finished_path [OF assms(4) this] show thesis using that by (auto simp: finished_with_def)
qed

definition sample_terminated :: thread_fs where
  "sample_terminated = sample_disk\<lparr>meta_file := Some (sample_meta\<lparr>status := Terminated,
     awaiting_from := None, terminated_reason := Some Retry_exhausted, terminated_at := Some 5\<rparr>)\<rparr>"

lemma finished_for_good_witness:
  "\<exists>m'. meta_file (snd (transition_state Resolved None None None None sample_terminated)) = Some m' \<and>
     status m' \<in> TERMINAL_STATES \<and> terminated_at m' = Some 5"
proof -
  let ?m = "sample_meta\<lparr>status := Terminated, awaiting_from := None,
     terminated_reason := Some Retry_exhausted, terminated_at := Some 5\<rparr>"
  have ok: "meta_ok ?m" by (simp add: meta_ok_def meta_valid_def sample_meta_def)
  have path: "lifecycle_step\<^sup>*\<^sup>* sample_terminated
      (snd (transition_state Resolved None None None None sample_terminated))"
    by (intro r_into_rtranclp step_transition) (simp add: rc_ok_def)
  show ?thesis
    by (rule finished_for_good [OF _ ok _ path]) (simp_all add: sample_terminated_def)
qed

end
