(* ===== verification/PyText.thy ===== *)
theory PyText
  imports Prelude UnicodeTables
begin

text \<open>
  The methods of Python's \<open>str\<close> that the program uses, on lists of code points: character classes,
  \<open>strip\<close>, \<open>splitlines\<close>, \<open>partition\<close>, \<open>rpartition\<close>, \<open>startswith\<close>, \<open>find\<close>, \<open>join\<close>.
\<close>

section \<open>Character classes\<close>

definition is_space :: "nat \<Rightarrow> bool" where
  "is_space c \<longleftrightarrow> (9 \<le> c \<and> c \<le> 13) \<or> (28 \<le> c \<and> c \<le> 32) \<or> c = 133 \<or> c = 160 \<or> c = 5760 \<or>
     (8192 \<le> c \<and> c \<le> 8202) \<or> c = 8232 \<or> c = 8233 \<or> c = 8239 \<or> c = 8287 \<or> c = 12288"

definition is_line_break :: "nat \<Rightarrow> bool" where
  "is_line_break c \<longleftrightarrow> (10 \<le> c \<and> c \<le> 13) \<or> (28 \<le> c \<and> c \<le> 30) \<or> c = 133 \<or> c = 8232 \<or> c = 8233"

definition is_decimal :: "nat \<Rightarrow> bool" where
  "is_decimal c \<longleftrightarrow> (if c < 128 then 48 \<le> c \<and> c \<le> 57 else in_ranges unicode_decimal c)"

definition ascii_letter :: "nat \<Rightarrow> bool" where
  "ascii_letter c \<longleftrightarrow> (65 \<le> c \<and> c \<le> 90) \<or> (97 \<le> c \<and> c \<le> 122)"

definition ascii_alnum :: "nat \<Rightarrow> bool" where
  "ascii_alnum c \<longleftrightarrow> ascii_letter c \<or> (48 \<le> c \<and> c \<le> 57)"

text \<open>The class \<open>\w\<close>.\<close>

definition is_word :: "nat \<Rightarrow> bool" where
  "is_word c \<longleftrightarrow> (if c < 128 then ascii_alnum c \<or> c = 95 else in_ranges unicode_alnum c)"

text \<open>Lower case of ASCII letters; every other code point is unchanged.\<close>

definition ascii_lower :: "pystr \<Rightarrow> pystr" where
  "ascii_lower s = map (\<lambda>c. if 65 \<le> c \<and> c \<le> 90 then c + 32 else c) s"

section \<open>Stripping\<close>

definition lstrip :: "pystr \<Rightarrow> pystr" where
  "lstrip s = dropWhile is_space s"

definition rstrip :: "pystr \<Rightarrow> pystr" where
  "rstrip s = rev (dropWhile is_space (rev s))"

definition strip :: "pystr \<Rightarrow> pystr" where
  "strip s = rstrip (lstrip s)"

text \<open>\<open>s.strip(c)\<close> for a single character, as \<open>strip_char\<close>.\<close>

definition lstrip_char :: "nat \<Rightarrow> pystr \<Rightarrow> pystr" where
  "lstrip_char c s = dropWhile (\<lambda>x. x = c) s"

definition strip_char :: "nat \<Rightarrow> pystr \<Rightarrow> pystr" where
  "strip_char c s = rev (lstrip_char c (rev (lstrip_char c s)))"

definition blank :: "pystr \<Rightarrow> bool" where
  "blank s \<longleftrightarrow> (\<forall>c \<in> set s. is_space c)"

lemma strip_Nil [simp]: "strip [] = []"
  by (simp add: strip_def lstrip_def rstrip_def)

lemma strip_eq_Nil_iff: "strip s = [] \<longleftrightarrow> blank s"
  by (induction s) (auto simp: strip_def lstrip_def rstrip_def blank_def dropWhile_eq_Nil_conv)

lemma rstrip_fixed: "s = [] \<or> \<not> is_space (last s) \<Longrightarrow> rstrip s = s"
  by (cases s rule: rev_cases) (auto simp: rstrip_def)

lemma lstrip_fixed: "s = [] \<or> \<not> is_space (hd s) \<Longrightarrow> lstrip s = s"
  by (cases s) (auto simp: lstrip_def)

lemma strip_fixed: "\<not> is_space (hd s) \<Longrightarrow> \<not> is_space (last s) \<Longrightarrow> strip s = s"
  by (simp add: strip_def lstrip_fixed rstrip_fixed)

lemma hd_lstrip: "lstrip s \<noteq> [] \<Longrightarrow> \<not> is_space (hd (lstrip s))"
  by (simp add: lstrip_def hd_dropWhile)

lemma last_rstrip: "rstrip s \<noteq> [] \<Longrightarrow> \<not> is_space (last (rstrip s))"
  by (simp add: rstrip_def last_rev hd_dropWhile)

lemma rstrip_prefix: "\<exists>t. s = rstrip s @ t"
proof -
  have "rev s = takeWhile is_space (rev s) @ dropWhile is_space (rev s)" by simp
  then have "s = rev (dropWhile is_space (rev s)) @ rev (takeWhile is_space (rev s))"
    by (metis rev_append rev_rev_ident)
  then show ?thesis by (auto simp: rstrip_def)
qed

lemma hd_strip: "strip s \<noteq> [] \<Longrightarrow> \<not> is_space (hd (strip s))"
proof -
  assume ne: "strip s \<noteq> []"
  obtain t where "lstrip s = strip s @ t" using rstrip_prefix by (auto simp: strip_def)
  with ne show ?thesis using hd_lstrip [of s] by (cases "strip s") auto
qed

lemma last_strip: "strip s \<noteq> [] \<Longrightarrow> \<not> is_space (last (strip s))"
  by (simp add: strip_def last_rstrip)

lemma strip_idem [simp]: "strip (strip s) = strip s"
  by (cases "strip s = []") (simp_all add: strip_fixed hd_strip last_strip)

section \<open>Lines\<close>

text \<open>\<open>s.splitlines()\<close>: a carriage return and line feed is one break; no empty last line.\<close>

fun after_break :: "nat \<Rightarrow> pystr \<Rightarrow> pystr" where
  "after_break c [] = []"
| "after_break c (d # ds) = (if c = 13 \<and> d = 10 then ds else d # ds)"

lemma length_after_break [termination_simp]: "length (after_break c cs) \<le> length cs"
  by (cases cs) simp_all

fun splitlines_from :: "pystr \<Rightarrow> pystr \<Rightarrow> pystr list" where
  "splitlines_from cur [] = (if cur = [] then [] else [rev cur])"
| "splitlines_from cur (c # cs) =
     (if is_line_break c then rev cur # splitlines_from [] (after_break c cs)
      else splitlines_from (c # cur) cs)"

definition splitlines :: "pystr \<Rightarrow> pystr list" where
  "splitlines s = splitlines_from [] s"

text \<open>\<open>s.split(c)\<close> for a single character: always at least one piece.\<close>

fun split_char :: "nat \<Rightarrow> pystr \<Rightarrow> pystr list" where
  "split_char c [] = [[]]"
| "split_char c (x # xs) =
     (if x = c then [] # split_char c xs
      else (case split_char c xs of p # ps \<Rightarrow> (x # p) # ps | [] \<Rightarrow> [[x]]))"

text \<open>\<open>s.split()\<close>: the maximal runs of non-space characters.\<close>

fun words_from :: "pystr \<Rightarrow> pystr \<Rightarrow> pystr list" where
  "words_from cur [] = (if cur = [] then [] else [rev cur])"
| "words_from cur (c # cs) =
     (if is_space c then (if cur = [] then words_from [] cs else rev cur # words_from [] cs)
      else words_from (c # cur) cs)"

definition words_of :: "pystr \<Rightarrow> pystr list" where
  "words_of s = words_from [] s"

fun join :: "pystr \<Rightarrow> pystr list \<Rightarrow> pystr" where
  "join sep [] = []"
| "join sep [s] = s"
| "join sep (s # ss) = s @ sep @ join sep ss"

section \<open>Searching\<close>

definition startswith :: "pystr \<Rightarrow> pystr \<Rightarrow> bool" where
  "startswith s p \<longleftrightarrow> take (length p) s = p"

definition endswith :: "pystr \<Rightarrow> pystr \<Rightarrow> bool" where
  "endswith s p \<longleftrightarrow> startswith (rev s) (rev p)"

text \<open>The first occurrence of a separator: what is before it and what is after it.\<close>

fun split_at :: "pystr \<Rightarrow> pystr \<Rightarrow> (pystr \<times> pystr) option" where
  "split_at sep s =
     (if startswith s sep then Some ([], drop (length sep) s)
      else (case s of
              [] \<Rightarrow> None
            | c # cs \<Rightarrow> map_option (\<lambda>(a, b). (c # a, b)) (split_at sep cs)))"

declare split_at.simps [simp del]

text \<open>\<open>s.partition(sep)\<close> and \<open>s.rpartition(sep)\<close>; the middle says whether the separator is there.\<close>

definition partition :: "pystr \<Rightarrow> pystr \<Rightarrow> pystr \<times> bool \<times> pystr" where
  "partition s sep = (case split_at sep s of
     None \<Rightarrow> (s, False, []) | Some (a, b) \<Rightarrow> (a, True, b))"

definition rpartition :: "pystr \<Rightarrow> pystr \<Rightarrow> pystr \<times> bool \<times> pystr" where
  "rpartition s sep = (case split_at (rev sep) (rev s) of
     None \<Rightarrow> ([], False, s) | Some (a, b) \<Rightarrow> (rev b, True, rev a))"

definition contains :: "pystr \<Rightarrow> pystr \<Rightarrow> bool" where
  "contains s sub \<longleftrightarrow> split_at sub s \<noteq> None"

lemma startswith_append [simp]: "startswith (p @ s) p"
  by (simp add: startswith_def)

lemma startswith_iff: "startswith s p \<longleftrightarrow> (\<exists>t. s = p @ t)"
  by (auto simp: startswith_def) (metis append_take_drop_id)

lemma split_at_sound: "split_at sep s = Some (a, b) \<Longrightarrow> s = a @ sep @ b"
proof (induction s arbitrary: a)
  case Nil
  then show ?case by (auto simp: split_at.simps [of sep "[]"] startswith_def split: if_splits)
next
  case (Cons c s)
  show ?case
  proof (cases "startswith (c # s) sep")
    case True
    then have "a = []" and b: "b = drop (length sep) (c # s)"
      using Cons.prems by (auto simp: split_at.simps [of sep "c # s"])
    moreover have "c # s = sep @ b"
      using True b append_take_drop_id [of "length sep" "c # s"] by (simp add: startswith_def)
    ultimately show ?thesis by simp
  next
    case False
    then obtain a' where a': "split_at sep s = Some (a', b)" "a = c # a'"
      using Cons.prems by (auto simp: split_at.simps [of sep "c # s"])
    with Cons.IH show ?thesis by simp
  qed
qed

lemma split_at_complete:
  assumes "\<forall>x \<in> set a. x \<noteq> c"
  shows "split_at [c] (a @ c # b) = Some (a, b)"
  using assms
  by (induction a)
    (auto simp: startswith_def split_at.simps [of "[c]" "c # b"] split_at.simps [of "[c]" "_ # _"])

lemma partition_sound:
  "partition s sep = (a, True, b) \<Longrightarrow> s = a @ sep @ b"
  by (auto simp: partition_def split_at_sound split: option.splits)

lemma partition_char:
  "\<forall>x \<in> set a. x \<noteq> c \<Longrightarrow> partition (a @ c # b) [c] = (a, True, b)"
  by (simp add: partition_def split_at_complete)

lemma rpartition_char:
  assumes "\<forall>x \<in> set b. x \<noteq> c"
  shows "rpartition (a @ c # b) [c] = (a, True, b)"
proof -
  have "split_at [c] (rev b @ c # rev a) = Some (rev b, rev a)"
    by (rule split_at_complete) (use assms in simp)
  then show ?thesis by (simp add: rpartition_def)
qed

section \<open>Dictionaries as association lists\<close>

text \<open>
  Where the order of a Python \<open>dict\<close> matters it is an association list: setting a present key keeps
  its place, a new key goes last.
\<close>

fun dict_set :: "'k \<Rightarrow> 'v \<Rightarrow> ('k \<times> 'v) list \<Rightarrow> ('k \<times> 'v) list" where
  "dict_set k v [] = [(k, v)]"
| "dict_set k v ((k', v') # d) = (if k' = k then (k, v) # d else (k', v') # dict_set k v d)"

definition dict_del :: "'k \<Rightarrow> ('k \<times> 'v) list \<Rightarrow> ('k \<times> 'v) list" where
  "dict_del k d = filter (\<lambda>(k', _). k' \<noteq> k) d"

lemma dict_set_fresh: "k \<notin> fst ` set d \<Longrightarrow> dict_set k v d = d @ [(k, v)]"
  by (induction k v d rule: dict_set.induct) auto

lemma map_of_dict_set [simp]: "map_of (dict_set k v d) = (map_of d)(k \<mapsto> v)"
  by (induction k v d rule: dict_set.induct) auto

lemma set_keys_dict_set [simp]: "fst ` set (dict_set k v d) = insert k (fst ` set d)"
  by (induction k v d rule: dict_set.induct) auto

lemma distinct_dict_set: "distinct (map fst d) \<Longrightarrow> distinct (map fst (dict_set k v d))"
  by (induction k v d rule: dict_set.induct) auto

lemma map_of_dict_del [simp]: "map_of (dict_del k d) = (map_of d)(k := None)"
  by (induction d) (auto simp: dict_del_def fun_eq_iff)

lemma set_keys_dict_del [simp]: "fst ` set (dict_del k d) = fst ` set d - {k}"
  by (induction d) (auto simp: dict_del_def)

lemma length_dict_del: "length (dict_del k d) \<le> length d"
  by (simp add: dict_del_def)

lemma distinct_dict_del: "distinct (map fst d) \<Longrightarrow> distinct (map fst (dict_del k d))"
  by (induction d) (auto simp: dict_del_def)

section \<open>Integers in text\<close>

text \<open>\<open>int\<close> of a run of decimal digits of any script: digits come in blocks of ten.\<close>

definition digit_value :: "nat \<Rightarrow> nat" where
  "digit_value c =
     (if c < 128 then c - 48
      else (case find (\<lambda>(a, b). a \<le> c \<and> c \<le> b) unicode_decimal of
              None \<Rightarrow> 0 | Some (a, _) \<Rightarrow> (c - a) mod 10))"

definition int_of_digits :: "pystr \<Rightarrow> nat" where
  "int_of_digits cs = foldl (\<lambda>n c. 10 * n + digit_value c) 0 cs"

end
