(* ===== verification/Messages.thy ===== *)
theory Messages
  imports Lifecycle PyText "HOL-Library.Multiset"
begin

text \<open>
  The message files of a thread: naming (\<open>_seq.py\<close>, \<open>filesystem/thread_dir.py\<close>), validation
  (\<open>schema/message.py\<close>), loading (\<open>watcher/loader.py\<close>), the three write operations of the MCP server
  (\<open>mcp_write_server/tools_write.py\<close>) and the reply tool of the Claude Code session
  (\<open>claude_code/tools/mindwire_server.py\<close>). Two third-party functions are parameters: \<open>ulid_ok\<close>
  (\<open>ULID.from_str\<close> accepts) and \<open>encoded_size\<close> (bytes of the YAML-framed text).
\<close>

section \<open>Names and numbers\<close>

definition zero_padded_seq :: "nat \<Rightarrow> pystr" where
  "zero_padded_seq n = replicate ((if n < 1000 then 3 else length (decimal n)) - length (decimal n)) 48
     @ decimal n"

fun sender_short :: "participant \<Rightarrow> pystr" where
  "sender_short Claude_ai = lit ''cai''"
| "sender_short Claude_code = lit ''cc''"

definition message_filename :: "nat \<Rightarrow> participant \<Rightarrow> lifecycle_error + pystr" where
  "message_filename n sender =
     (if n < 1 then Inl SeqTooSmall
      else Inr (zero_padded_seq n @ lit ''-from-'' @ sender_short sender @ lit ''.md''))"

text \<open>The pattern \<open>^(\d{3,})-from-(cai|cc)\.md$\<close>; \<open>$\<close> also matches before a final line feed.\<close>

definition message_filename_ok :: "pystr \<Rightarrow> bool" where
  "message_filename_ok name \<longleftrightarrow>
     3 \<le> length (takeWhile is_decimal name) \<and>
     dropWhile is_decimal name \<in>
       {lit ''-from-cai.md'', lit ''-from-cc.md'', lit ''-from-cai.md'' @ [10], lit ''-from-cc.md'' @ [10]}"

section \<open>Validation and loading\<close>

definition message_valid :: "(pystr \<Rightarrow> bool) \<Rightarrow> message \<Rightarrow> bool" where
  "message_valid ulid_ok m \<longleftrightarrow>
     msg_schema m = 1 \<and> 1 \<le> seq m \<and> (\<forall>r. reply_to m = Some r \<longrightarrow> 1 \<le> r) \<and>
     (case split_at (lit ''/'') (msg_id m) of
        None \<Rightarrow> False
      | Some (tid, seq_part) \<Rightarrow> tid \<noteq> [] \<and> ulid_ok tid \<and> seq_part = zero_padded_seq (seq m)) \<and>
     msg_from m \<noteq> msg_to m \<and>
     (\<forall>r. reply_to m = Some r \<longrightarrow> r < seq m)"

text \<open>The body on load: \<open>body.lstrip("\n").rstrip()\<close> of the text after the front matter.\<close>

definition loaded :: "message \<Rightarrow> message" where
  "loaded m = m\<lparr>body := rstrip (lstrip_char 10 (body m))\<rparr>"

definition parse_message_file :: "(pystr \<Rightarrow> bool) \<Rightarrow> dir_entry \<Rightarrow> lifecycle_error + message" where
  "parse_message_file ulid_ok e = (case e of
       Message_file m \<Rightarrow> if message_valid ulid_ok (loaded m) then Inr (loaded m) else Inl MessageUnreadable
     | Other_file \<Rightarrow> Inl MessageUnreadable)"

fun parse_all :: "(pystr \<Rightarrow> bool) \<Rightarrow> dir_entry list \<Rightarrow> lifecycle_error + message list" where
  "parse_all ulid_ok [] = Inr []"
| "parse_all ulid_ok (e # es) =
     (case parse_message_file ulid_ok e of
        Inl err \<Rightarrow> Inl err
      | Inr m \<Rightarrow> (case parse_all ulid_ok es of Inl err \<Rightarrow> Inl err | Inr ms \<Rightarrow> Inr (m # ms)))"

definition load_messages :: "(pystr \<Rightarrow> bool) \<Rightarrow> message list thread_act" where
  "load_messages ulid_ok = (\<lambda>w.
     case parse_all ulid_ok
            (map snd (filter (\<lambda>(name, _). message_filename_ok name) (sort_key fst (msg_files w)))) of
       Inl err \<Rightarrow> (Inl err, w)
     | Inr ms \<Rightarrow> (Inr (sort_key seq ms), w))"

section \<open>Writing\<close>

text \<open>\<open>atomic_write_text\<close> replaces the file of that name or creates it.\<close>

definition write_message_file :: "nat \<Rightarrow> participant \<Rightarrow> message \<Rightarrow> unit thread_act" where
  "write_message_file n sender m =
     (case message_filename n sender of
        Inl err \<Rightarrow> raise err
      | Inr name \<Rightarrow> modify (\<lambda>w. w\<lparr>msg_files := dict_set name (Message_file m) (msg_files w)\<rparr>))"

definition framed_message :: "pystr \<Rightarrow> nat \<Rightarrow> participant \<Rightarrow> participant \<Rightarrow> time \<Rightarrow> pystr \<Rightarrow> message" where
  "framed_message tid n sender recipient ts text =
     \<lparr>msg_schema = 1, msg_id = tid @ lit ''/'' @ zero_padded_seq n, seq = n, msg_from = sender,
      msg_to = recipient, msg_created_at = ts, reply_to = None, body = 10 # text @ [10]\<rparr>"

definition send_message_locked ::
    "(pystr \<Rightarrow> bool) \<Rightarrow> (message \<Rightarrow> nat) \<Rightarrow> pystr \<Rightarrow> (nat \<times> pystr \<times> participant) thread_act" where
  "send_message_locked ulid_ok encoded_size text =
     andthen load_thread_meta (\<lambda>meta.
     if status meta \<in> TERMINAL_STATES then raise (ToolTerminal (status meta))
     else if awaiting_from meta \<noteq> Some Claude_ai then raise (ToolNotYourTurn (awaiting_from meta))
     else andthen (load_messages ulid_ok) (\<lambda>existing.
     let next_seq = (if existing = [] then 1 else seq (last existing) + 1)
     in andthen now_utc (\<lambda>ts.
        andthen (gets thread_id) (\<lambda>tid.
        let m = framed_message tid next_seq Claude_ai Claude_code ts text
        in andthen (write_message_file next_seq Claude_ai m) (\<lambda>_.
           andthen (append_event (MessageReceived ts next_seq Claude_ai (encoded_size m))) (\<lambda>_.
           andthen (toggle_awaiting_from Claude_ai) (\<lambda>_.
           ret (next_seq, msg_id m, Claude_code))))))))"

definition open_thread ::
    "(message \<Rightarrow> nat) \<Rightarrow> pystr \<Rightarrow> pystr \<Rightarrow> pystr list \<Rightarrow> (pystr \<times> participant) thread_act" where
  "open_thread encoded_size initial_message title new_tags =
     andthen now_utc (\<lambda>ts.
     andthen (gets thread_id) (\<lambda>tid.
     let meta = \<lparr>schema_version = 2, meta_thread_id = tid, meta_title = title, status = Active,
                 awaiting_from = Some Claude_code, participants = [Claude_ai, Claude_code],
                 created_at = ts, updated_at = ts, tags = new_tags, retry_count = 0,
                 terminated_reason = None, terminated_at = None\<rparr>;
         m = framed_message tid 1 Claude_ai Claude_code ts initial_message
     in andthen (write_meta meta) (\<lambda>_.
        andthen (write_message_file 1 Claude_ai m) (\<lambda>_.
        andthen (append_event (ThreadCreated ts title)) (\<lambda>_.
        andthen (append_event (MessageReceived ts 1 Claude_ai (encoded_size m))) (\<lambda>_.
        ret (msg_id m, Claude_code)))))))"

text \<open>The result says whether the call was the idempotent no-op.\<close>

definition resolve_thread_locked :: "bool thread_act" where
  "resolve_thread_locked =
     andthen load_thread_meta (\<lambda>meta.
     if status meta = Resolved then ret True
     else andthen (handle_exc (transition_state Resolved None None None None)
                     (\<lambda>e. if e = MetaMissing then raise e else raise (ToolCannotResolve e))) (\<lambda>new_meta.
          andthen now_utc (\<lambda>ts.
          andthen (append_event (ThreadStatusChanged ts (status meta) Resolved (retry_count new_meta))) (\<lambda>_.
          andthen (append_event (ThreadResolved ts)) (\<lambda>_.
          ret False)))))"

text \<open>The session's reply tool, with the sequence number fixed when the session was built.\<close>

definition write_reply :: "nat \<Rightarrow> participant \<Rightarrow> participant \<Rightarrow> pystr \<Rightarrow> pystr thread_act" where
  "write_reply next_seq sender recipient text =
     andthen now_utc (\<lambda>ts.
     andthen (gets thread_id) (\<lambda>tid.
     let m = framed_message tid next_seq sender recipient ts text
     in andthen (write_message_file next_seq sender m) (\<lambda>_. ret (msg_id m))))"

section \<open>Names determine numbers\<close>

lemma decimal_value_zero_padded [simp]: "decimal_value (zero_padded_seq n) = n"
  by (simp add: zero_padded_seq_def)

lemma zero_padded_inject [simp]: "zero_padded_seq m = zero_padded_seq n \<longleftrightarrow> m = n"
  by (metis decimal_value_zero_padded)

lemma zero_padded_digits: "c \<in> set (zero_padded_seq n) \<Longrightarrow> is_decimal c"
  by (auto simp: zero_padded_seq_def is_decimal_def dest: decimal_digits split: if_splits)

lemma length_zero_padded: "3 \<le> length (zero_padded_seq n)"
proof (cases "n < 1000")
  case True
  then show ?thesis by (simp add: zero_padded_seq_def)
next
  case False
  then have "\<not> n < 10" and "\<not> n div 10 < 10" and "\<not> n div 10 div 10 < 10" by auto
  then have "decimal n = decimal (n div 10 div 10 div 10)
      @ [48 + n div 10 div 10 mod 10, 48 + n div 10 mod 10, 48 + n mod 10]"
    by (simp add: decimal.simps [of n] decimal.simps [of "n div 10"]
        decimal.simps [of "n div 10 div 10"] del: div_mult2_eq)
  with False show ?thesis by (simp add: zero_padded_seq_def)
qed

lemma minus_not_decimal [simp]: "\<not> is_decimal 45"
  by (simp add: is_decimal_def)

lemma filename_shape:
  assumes "message_filename n p = Inr name"
  shows "takeWhile is_decimal name = zero_padded_seq n"
    and "dropWhile is_decimal name = lit ''-from-'' @ sender_short p @ lit ''.md''"
proof -
  have name: "name = zero_padded_seq n @ 45 # tl (lit ''-from-'' @ sender_short p @ lit ''.md'')"
    using assms by (auto simp: message_filename_def text_simps split: if_splits)
  show "takeWhile is_decimal name = zero_padded_seq n"
    by (simp add: name zero_padded_digits)
  show "dropWhile is_decimal name = lit ''-from-'' @ sender_short p @ lit ''.md''"
    by (simp add: name zero_padded_digits) (simp add: text_simps)
qed

lemma filename_ok: "message_filename n p = Inr name \<Longrightarrow> message_filename_ok name"
  by (cases p) (simp_all add: message_filename_ok_def filename_shape length_zero_padded text_simps)

lemma filename_seq_unique:
  "message_filename n p = Inr name \<Longrightarrow> message_filename n' p' = Inr name \<Longrightarrow> n = n'"
  using filename_shape(1) zero_padded_inject by metis

lemma message_filename_Inr: "1 \<le> n \<Longrightarrow>
    message_filename n p = Inr (zero_padded_seq n @ lit ''-from-'' @ sender_short p @ lit ''.md'')"
  by (simp add: message_filename_def)

section \<open>Well-formed message directories\<close>

fun entry_message :: "dir_entry \<Rightarrow> message option" where
  "entry_message (Message_file m) = Some m"
| "entry_message Other_file = None"

definition entry_ok :: "(pystr \<Rightarrow> bool) \<Rightarrow> pystr \<times> dir_entry \<Rightarrow> bool" where
  "entry_ok ulid_ok ne \<longleftrightarrow> (\<exists>m. snd ne = Message_file m \<and> message_valid ulid_ok (loaded m) \<and>
     message_filename (seq m) (msg_from m) = Inr (fst ne))"

definition entry_seq :: "pystr \<times> dir_entry \<Rightarrow> nat" where
  "entry_seq ne = (case snd ne of Message_file m \<Rightarrow> seq m | Other_file \<Rightarrow> 0)"

definition entry_loaded :: "pystr \<times> dir_entry \<Rightarrow> message" where
  "entry_loaded ne = (case snd ne of Message_file m \<Rightarrow> loaded m | Other_file \<Rightarrow> undefined)"

definition files_ok :: "(pystr \<Rightarrow> bool) \<Rightarrow> thread_fs \<Rightarrow> bool" where
  "files_ok ulid_ok w \<longleftrightarrow> (\<forall>ne \<in> set (msg_files w). entry_ok ulid_ok ne) \<and>
     distinct (map entry_seq (msg_files w))"

text \<open>The conversation: the messages in order of their numbers.\<close>

definition conversation :: "thread_fs \<Rightarrow> message list" where
  "conversation w = sort_key seq (map entry_loaded (msg_files w))"

lemma loaded_fields [simp]:
  "seq (loaded m) = seq m" "msg_from (loaded m) = msg_from m" "msg_id (loaded m) = msg_id m"
  by (simp_all add: loaded_def)

lemma seq_entry_loaded: "entry_ok u ne \<Longrightarrow> seq (entry_loaded ne) = entry_seq ne"
  by (auto simp: entry_ok_def entry_loaded_def entry_seq_def)

lemma parse_all_ok:
  "\<forall>ne \<in> set nes. entry_ok u ne \<Longrightarrow> parse_all u (map snd nes) = Inr (map entry_loaded nes)"
  by (induction nes) (auto simp: entry_ok_def parse_message_file_def entry_loaded_def)

lemma sort_key_unique:
  assumes "distinct (map f xs)" and "mset xs = mset ys"
  shows "sort_key f xs = sort_key f ys"
proof -
  have "set xs = set ys" using assms(2) by (metis set_mset_mset)
  have d: "distinct (map f ys)" using assms by (metis mset_map mset_eq_imp_distinct_iff)
  have "inj_on f (set xs)" using assms(1) by (simp add: distinct_map)
  then show ?thesis
    using assms(1) d \<open>set xs = set ys\<close>
    by (intro map_sorted_distinct_set_unique [of f]) (auto simp: distinct_map)
qed

lemma load_messages_ok:
  assumes "files_ok u w"
  shows "load_messages u w = (Inr (conversation w), w)"
proof -
  let ?nes = "sort_key fst (msg_files w)"
  have all: "\<forall>ne \<in> set (msg_files w). entry_ok u ne" and d: "distinct (map entry_seq (msg_files w))"
    using assms by (auto simp: files_ok_def)
  have names: "filter (\<lambda>(name, _). message_filename_ok name) ?nes = ?nes"
    by (rule filter_True) (use all in \<open>fastforce simp: entry_ok_def dest: filename_ok\<close>)
  have "map (seq \<circ> entry_loaded) (msg_files w) = map entry_seq (msg_files w)"
    using all by (auto intro: seq_entry_loaded)
  then have "distinct (map seq (map entry_loaded (msg_files w)))"
    using d by (simp only: map_map)
  moreover have "mset (map entry_loaded (msg_files w)) = mset (map entry_loaded ?nes)"
    by simp
  ultimately have "conversation w = sort_key seq (map entry_loaded ?nes)"
    unfolding conversation_def by (rule sort_key_unique)
  moreover have "parse_all u (map snd ?nes) = Inr (map entry_loaded ?nes)"
    by (rule parse_all_ok) (use all in simp)
  ultimately show ?thesis by (simp add: load_messages_def names)
qed

lemma set_conversation: "set (conversation w) = entry_loaded ` set (msg_files w)"
  by (simp add: conversation_def)

lemma conversation_last_greatest: "m \<in> set (conversation w) \<Longrightarrow> seq m \<le> seq (last (conversation w))"
  by (rule sorted_key_last_greatest [of seq]) (simp_all add: conversation_def)

lemma conversation_valid:
  "files_ok u w \<Longrightarrow> m \<in> set (conversation w) \<Longrightarrow> message_valid u m"
  by (auto simp: set_conversation files_ok_def entry_ok_def entry_loaded_def)

lemma conversation_sorted: "sorted (map seq (conversation w))"
  by (simp add: conversation_def)

lemma distinct_conversation: "files_ok u w \<Longrightarrow> distinct (map seq (conversation w))"
proof -
  assume ok: "files_ok u w"
  then have "map seq (map entry_loaded (msg_files w)) = map entry_seq (msg_files w)"
    by (auto simp: files_ok_def seq_entry_loaded)
  then have "distinct (map seq (map entry_loaded (msg_files w)))"
    using ok by (simp add: files_ok_def del: map_map)
  then show ?thesis
    by (metis conversation_def mset_eq_imp_distinct_iff mset_map mset_sort)
qed

text \<open>A message written under a number above every other is the new end of the conversation.\<close>

definition id_ok :: "(pystr \<Rightarrow> bool) \<Rightarrow> pystr \<Rightarrow> bool" where
  "id_ok u tid \<longleftrightarrow> tid \<noteq> [] \<and> u tid \<and> 47 \<notin> set tid"

lemma framed_valid:
  assumes "id_ok u tid" and "1 \<le> n" and "s \<noteq> r"
  shows "message_valid u (loaded (framed_message tid n s r ts text))"
proof -
  have "split_at [47] (tid @ 47 # zero_padded_seq n) = Some (tid, zero_padded_seq n)"
    by (rule split_at_complete) (use assms(1) in \<open>auto simp: id_ok_def\<close>)
  then show ?thesis
    using assms by (simp add: message_valid_def framed_message_def loaded_def id_ok_def text_simps)
qed

lemma write_above:
  assumes ok: "files_ok u w" and id: "id_ok u tid" and sr: "s \<noteq> r" and n: "1 \<le> n"
    and above: "\<forall>m \<in> set (conversation w). seq m < n"
    and m_def: "m = framed_message tid n s r ts text"
  obtains name where
    "write_message_file n s m w = (Inr (), w\<lparr>msg_files := msg_files w @ [(name, Message_file m)]\<rparr>)"
    "files_ok u (w\<lparr>msg_files := msg_files w @ [(name, Message_file m)]\<rparr>)"
    "conversation (w\<lparr>msg_files := msg_files w @ [(name, Message_file m)]\<rparr>) =
       conversation w @ [loaded m]"
proof -
  obtain name where name: "message_filename n s = Inr name"
    using message_filename_Inr [OF n] by blast
  let ?ne = "(name, Message_file m)" and ?w = "w\<lparr>msg_files := msg_files w @ [(name, Message_file m)]\<rparr>"
  have m: "seq m = n" "msg_from m = s" by (simp_all add: m_def framed_message_def)
  have valid: "message_valid u (loaded m)" unfolding m_def by (rule framed_valid [OF id n sr])
  have lt: "entry_seq ne < n" if "ne \<in> set (msg_files w)" for ne
  proof -
    have "seq (entry_loaded ne) < n" using above that by (simp add: set_conversation)
    then show ?thesis using ok that by (auto simp: files_ok_def seq_entry_loaded)
  qed
  have fresh: "name \<notin> fst ` set (msg_files w)"
  proof
    assume "name \<in> fst ` set (msg_files w)"
    then obtain e where e: "(name, e) \<in> set (msg_files w)" by auto
    with ok obtain m' where m': "e = Message_file m'" "message_filename (seq m') (msg_from m') = Inr name"
      by (auto simp: files_ok_def entry_ok_def)
    then have "seq m' = n" using name filename_seq_unique by blast
    with lt [OF e] m' show False by (simp add: entry_seq_def)
  qed
  have new: "entry_ok u ?ne" "entry_seq ?ne = n" "entry_loaded ?ne = loaded m"
    using valid name m by (simp_all add: entry_ok_def entry_seq_def entry_loaded_def)
  have not_seq: "entry_seq ?ne \<notin> entry_seq ` set (msg_files w)"
    using lt new(2) by (metis image_iff less_irrefl)
  have files: "files_ok u ?w"
    using ok new not_seq by (auto simp: files_ok_def)
  have "conversation ?w = conversation w @ [loaded m]"
  proof (rule map_sorted_distinct_set_unique [of seq])
    show "distinct (map seq (conversation ?w))" by (rule distinct_conversation [OF files])
    then show "inj_on seq (set (conversation ?w) \<union> set (conversation w @ [loaded m]))"
      by (simp add: distinct_map set_conversation new insert_absorb)
    show "sorted (map seq (conversation w @ [loaded m]))"
      using conversation_sorted [of w] above m by (auto simp: sorted_append less_imp_le)
    show "distinct (map seq (conversation w @ [loaded m]))"
      using distinct_conversation [OF ok] above m by auto
    show "set (conversation ?w) = set (conversation w @ [loaded m])"
      by (auto simp: set_conversation new)
  qed (rule conversation_sorted)
  moreover have "write_message_file n s m w = (Inr (), ?w)"
    by (simp add: write_message_file_def name act_simps dict_set_fresh [OF fresh])
  ultimately show thesis using that files by blast
qed

section \<open>The write tools on a well-formed thread\<close>

definition thread_ok :: "(pystr \<Rightarrow> bool) \<Rightarrow> thread_fs \<Rightarrow> bool" where
  "thread_ok u w \<longleftrightarrow> disk_ok w \<and> files_ok u w \<and> id_ok u (thread_id w)"

definition next_number :: "thread_fs \<Rightarrow> nat" where
  "next_number w = (if conversation w = [] then 1 else seq (last (conversation w)) + 1)"

text \<open>Files and identity survive any change of the meta file, the log or the clock.\<close>

lemma files_ok_frame [simp]:
  "files_ok u (w\<lparr>meta_file := x\<rparr>) = files_ok u w"
  "files_ok u (w\<lparr>event_log := l\<rparr>) = files_ok u w"
  "files_ok u (w\<lparr>ticks := k\<rparr>) = files_ok u w"
  by (simp_all add: files_ok_def)

lemma conversation_frame [simp]:
  "conversation (w\<lparr>meta_file := x\<rparr>) = conversation w"
  "conversation (w\<lparr>event_log := l\<rparr>) = conversation w"
  "conversation (w\<lparr>ticks := k\<rparr>) = conversation w"
  by (simp_all add: conversation_def)

lemma toggled_frame [simp]:
  "msg_files (toggled p m w) = msg_files w" "thread_id (toggled p m w) = thread_id w"
  by (simp_all add: toggled_def split: option.splits)

lemma files_ok_toggled [simp]: "files_ok u (toggled p m w) = files_ok u w"
  by (simp add: files_ok_def)

lemma conversation_toggled [simp]: "conversation (toggled p m w) = conversation w"
  by (simp add: conversation_def)

lemma next_number_above: "m \<in> set (conversation w) \<Longrightarrow> seq m < next_number w"
  using conversation_last_greatest [of m w] by (auto simp: next_number_def)

lemma next_number_pos: "1 \<le> next_number w"
  by (simp add: next_number_def)

lemma toggled_meta:
  assumes "meta_file w = Some m" and "awaiting_from m = Some p"
  shows "meta_file (toggled p m w) =
    Some (m\<lparr>awaiting_from := Some (opposite_of p), updated_at := clock w (ticks w)\<rparr>)"
  using assms by (cases p) (simp_all add: toggled_def)

lemma participants_differ: "Claude_ai \<noteq> Claude_code" "Claude_code \<noteq> Claude_ai"
  by simp_all

text \<open>One accepted message: its number, the thread it leaves and the turn it hands over.\<close>

lemma send_message_accepted:
  assumes ok: "thread_ok u w" and m: "meta_file w = Some m"
    and live: "status m \<notin> TERMINAL_STATES" and turn: "awaiting_from m = Some Claude_ai"
  obtains w' msg where
    "send_message_locked u sz text w = (Inr (next_number w, msg_id msg, Claude_code), w')"
    "thread_ok u w'" "conversation w' = conversation w @ [msg]" "seq msg = next_number w"
    "msg_from msg = Claude_ai"
    "meta_file w' = Some (m\<lparr>awaiting_from := Some Claude_code,
                             updated_at := clock w (Suc (ticks w))\<rparr>)"
proof -
  let ?n = "next_number w" and ?now = "clock w (ticks w)"
  let ?msg = "framed_message (thread_id w) ?n Claude_ai Claude_code ?now text"
  let ?w1 = "w\<lparr>ticks := Suc (ticks w)\<rparr>"
  have mok: "meta_ok m" and valid: "meta_valid m"
    using ok m by (auto simp: thread_ok_def disk_ok_def meta_ok_def)
  have files: "files_ok u ?w1" and id: "id_ok u (thread_id w)"
    using ok by (simp_all add: thread_ok_def)
  have above: "\<forall>m \<in> set (conversation ?w1). seq m < ?n"
    by (simp add: next_number_above)
  obtain name where wrote:
    "write_message_file ?n Claude_ai ?msg ?w1 =
       (Inr (), ?w1\<lparr>msg_files := msg_files ?w1 @ [(name, Message_file ?msg)]\<rparr>)"
    "files_ok u (?w1\<lparr>msg_files := msg_files ?w1 @ [(name, Message_file ?msg)]\<rparr>)"
    "conversation (?w1\<lparr>msg_files := msg_files ?w1 @ [(name, Message_file ?msg)]\<rparr>) =
       conversation ?w1 @ [loaded ?msg]"
    by (rule write_above [OF files id participants_differ(1) next_number_pos above refl])
  let ?w2 = "?w1\<lparr>msg_files := msg_files ?w1 @ [(name, Message_file ?msg)]\<rparr>"
  let ?w3 = "?w2\<lparr>event_log := event_log w @ [MessageReceived ?now ?n Claude_ai (sz ?msg)]\<rparr>"
  have m3: "meta_file ?w3 = Some m" using m by simp
  have run: "send_message_locked u sz text w =
      (Inr (?n, msg_id (loaded ?msg), Claude_code), toggled Claude_ai m ?w3)"
    using m valid live turn wrote(1) toggle_on_ok [OF m3 mok, of Claude_ai] ok
    by (simp add: send_message_locked_def act_simps load_messages_ok thread_ok_def Let_def
        next_number_def)
  have "disk_ok (toggled Claude_ai m ?w3)"
    using toggle_on_ok [OF m3 mok, of Claude_ai] keepsD [OF keeps_toggle_awaiting_from, of ?w3 Claude_ai]
      ok m by (simp add: thread_ok_def disk_ok_def)
  then have "thread_ok u (toggled Claude_ai m ?w3)"
    using wrote(2) id by (simp add: thread_ok_def)
  moreover have "conversation (toggled Claude_ai m ?w3) = conversation w @ [loaded ?msg]"
    using wrote(3) by simp
  moreover have "seq (loaded ?msg) = ?n" "msg_from (loaded ?msg) = Claude_ai"
    by (simp_all add: framed_message_def)
  moreover have "meta_file (toggled Claude_ai m ?w3) =
      Some (m\<lparr>awaiting_from := Some Claude_code, updated_at := clock w (Suc (ticks w))\<rparr>)"
    using toggled_meta [OF m3 turn] by simp
  ultimately show thesis by (rule that [OF run])
qed

lemma send_message_refused:
  assumes "thread_ok u w" and "meta_file w = Some m" and "awaiting_from m \<noteq> Some Claude_ai"
  shows "\<exists>e. send_message_locked u sz text w = (Inl e, w)"
  using assms
  by (auto simp: send_message_locked_def thread_ok_def disk_ok_def meta_ok_def act_simps)

section \<open>Properties of the message files\<close>

definition empty_thread :: thread_fs where
  "empty_thread = \<lparr>thread_id = lit ''01JQ'', meta_file = None, msg_files = [], event_log = [],
     clock = (\<lambda>k. 1000 * int k), ticks = 0\<rparr>"

lemma open_thread_run:
  assumes empty: "msg_files w = []" and id: "id_ok u (thread_id w)"
  obtains w' msg where "open_thread sz text title ts w = (Inr (msg_id msg, Claude_code), w')"
    "thread_ok u w'" "conversation w' = [msg]" "seq msg = 1" "msg_from msg = Claude_ai"
    "\<exists>m. meta_file w' = Some m \<and> status m = Active \<and> awaiting_from m = Some Claude_code \<and> retry_count m = 0"
    "event_log w' = event_log w @ [ThreadCreated (clock w (ticks w)) title,
       MessageReceived (clock w (ticks w)) 1 Claude_ai
         (sz (framed_message (thread_id w) 1 Claude_ai Claude_code (clock w (ticks w)) text))]"
proof -
  let ?now = "clock w (ticks w)"
  let ?meta = "\<lparr>schema_version = 2, meta_thread_id = thread_id w, meta_title = title, status = Active,
      awaiting_from = Some Claude_code, participants = [Claude_ai, Claude_code],
      created_at = ?now, updated_at = ?now, tags = ts, retry_count = 0,
      terminated_reason = None, terminated_at = None\<rparr>"
  let ?msg = "framed_message (thread_id w) 1 Claude_ai Claude_code ?now text"
  let ?w1 = "w\<lparr>ticks := Suc (ticks w), meta_file := Some ?meta\<rparr>"
  have files: "files_ok u ?w1" and conv: "conversation ?w1 = []"
    using empty by (simp_all add: files_ok_def conversation_def)
  obtain name where wrote:
    "write_message_file 1 Claude_ai ?msg ?w1 =
       (Inr (), ?w1\<lparr>msg_files := msg_files ?w1 @ [(name, Message_file ?msg)]\<rparr>)"
    "files_ok u (?w1\<lparr>msg_files := msg_files ?w1 @ [(name, Message_file ?msg)]\<rparr>)"
    "conversation (?w1\<lparr>msg_files := msg_files ?w1 @ [(name, Message_file ?msg)]\<rparr>) =
       conversation ?w1 @ [loaded ?msg]"
    by (rule write_above [OF files id participants_differ(1) le_refl _ refl]) (use conv in simp)
  let ?w2 = "?w1\<lparr>msg_files := msg_files ?w1 @ [(name, Message_file ?msg)]\<rparr>"
  let ?w3 = "?w2\<lparr>event_log := event_log w @ [ThreadCreated ?now title,
      MessageReceived ?now 1 Claude_ai (sz ?msg)]\<rparr>"
  have run: "open_thread sz text title ts w = (Inr (msg_id (loaded ?msg), Claude_code), ?w3)"
    using wrote(1) by (simp add: open_thread_def act_simps Let_def)
  have "disk_ok ?w3" by (simp add: disk_ok_def meta_ok_def meta_valid_def)
  then have "thread_ok u ?w3" using wrote(2) id by (simp add: thread_ok_def)
  then show thesis
    using wrote(3) conv by (intro that [OF run]) (simp_all add: framed_message_def)
qed

definition four :: "pystr \<Rightarrow> bool" where
  "four s \<longleftrightarrow> length s = 4"

definition sample_thread :: thread_fs where
  "sample_thread = snd (open_thread (\<lambda>_. 0) (lit ''hello'') (lit ''t'') [] empty_thread)"

lemma id_ok_empty_thread: "id_ok four (thread_id empty_thread)"
  by (simp add: id_ok_def empty_thread_def four_def text_simps)

lemma empty_thread_files: "msg_files empty_thread = []"
  by (simp add: empty_thread_def)

lemma sample_thread:
  "thread_ok four sample_thread"
  "\<exists>msg. conversation sample_thread = [msg] \<and> seq msg = 1 \<and> msg_from msg = Claude_ai"
  "\<exists>m. meta_file sample_thread = Some m \<and> status m = Active \<and> awaiting_from m = Some Claude_code \<and>
     retry_count m = 0"
  by (rule open_thread_run [OF empty_thread_files id_ok_empty_thread,
        of "\<lambda>_. 0" "lit ''hello''" "lit ''t''" "[]"]; simp add: sample_thread_def empty_thread_def)+

definition sample_turn_meta :: thread_meta where
  "sample_turn_meta = sample_meta\<lparr>awaiting_from := Some Claude_ai\<rparr>"

definition sample_turn :: thread_fs where
  "sample_turn = sample_thread\<lparr>meta_file := Some sample_turn_meta\<rparr>"

lemma sample_turn:
  "thread_ok four sample_turn" "meta_file sample_turn = Some sample_turn_meta"
  "awaiting_from sample_turn_meta = Some Claude_ai"
  using sample_thread(1)
  by (simp_all add: sample_turn_def sample_turn_meta_def sample_meta_def thread_ok_def disk_ok_def
      meta_ok_def meta_valid_def)

text \<open>Opening a thread in an empty directory gives a well-formed thread whose conversation is
  the one opening message, number 1 from claude.ai, with claude-code to answer.\<close>

theorem open_thread_starts:
  assumes "msg_files w = []" and "id_ok u (thread_id w)"
  shows "\<exists>w' msg m. open_thread sz text title ts w = (Inr (msg_id msg, Claude_code), w') \<and>
    thread_ok u w' \<and> conversation w' = [msg] \<and> seq msg = 1 \<and> msg_from msg = Claude_ai \<and>
    meta_file w' = Some m \<and> status m = Active \<and> awaiting_from m = Some Claude_code"
  by (rule open_thread_run [OF assms, of sz "text" title ts]) blast

lemma open_thread_starts_witness:
  "\<exists>w' msg m. open_thread (\<lambda>_. 0) (lit ''hello'') (lit ''t'') [] empty_thread =
     (Inr (msg_id msg, Claude_code), w') \<and>
    thread_ok four w' \<and> conversation w' = [msg] \<and> seq msg = 1 \<and> msg_from msg = Claude_ai \<and>
    meta_file w' = Some m \<and> status m = Active \<and> awaiting_from m = Some Claude_code"
  by (rule open_thread_starts [OF empty_thread_files id_ok_empty_thread])

text \<open>C19. On a well-formed thread a message of claude.ai is accepted exactly when the turn is
  claude.ai's. An accepted message is the new last one, numbered one above the previous last, and it
  hands the turn over, so that a second message is refused; a refused call leaves the disk as it
  was.\<close>

theorem send_message_takes_turns:
  assumes ok: "thread_ok u w" and m: "meta_file w = Some m"
  shows "if awaiting_from m = Some Claude_ai
    then \<exists>w' msg e. send_message_locked u sz text w = (Inr (next_number w, msg_id msg, Claude_code), w') \<and>
      thread_ok u w' \<and> conversation w' = conversation w @ [msg] \<and> seq msg = next_number w \<and>
      msg_from msg = Claude_ai \<and> send_message_locked u sz text' w' = (Inl e, w')
    else \<exists>e. send_message_locked u sz text w = (Inl e, w)"
proof (cases "awaiting_from m = Some Claude_ai")
  case True
  then have live: "status m \<notin> TERMINAL_STATES"
    using ok m by (auto simp: thread_ok_def disk_ok_def meta_ok_def)
  obtain w' msg where sent:
    "send_message_locked u sz text w = (Inr (next_number w, msg_id msg, Claude_code), w')"
    "thread_ok u w'" "conversation w' = conversation w @ [msg]" "seq msg = next_number w"
    "msg_from msg = Claude_ai"
    "meta_file w' = Some (m\<lparr>awaiting_from := Some Claude_code, updated_at := clock w (Suc (ticks w))\<rparr>)"
    by (rule send_message_accepted [OF ok m live True])
  obtain e where "send_message_locked u sz text' w' = (Inl e, w')"
    using send_message_refused [OF sent(2,6), of sz "text'"] by auto
  with sent True show ?thesis by auto
next
  case False
  then show ?thesis using send_message_refused [OF ok m] by simp
qed

lemma send_message_takes_turns_witness:
  "\<exists>w' msg e. send_message_locked four (\<lambda>_. 0) (lit ''x'') sample_turn =
      (Inr (next_number sample_turn, msg_id msg, Claude_code), w') \<and>
    thread_ok four w' \<and> conversation w' = conversation sample_turn @ [msg] \<and>
    seq msg = next_number sample_turn \<and> msg_from msg = Claude_ai \<and>
    send_message_locked four (\<lambda>_. 0) (lit ''y'') w' = (Inl e, w')"
  using send_message_takes_turns [OF sample_turn(1,2), of "\<lambda>_. 0" "lit ''x''" "lit ''y''"] sample_turn(3)
  by simp

text \<open>C20. A message's file name is recognised by the loader, determines the message's number, and no
  two messages of different number or different sender share a name.\<close>

theorem message_filename_roundtrip:
  assumes "message_filename n p = Inr name"
  shows "message_filename_ok name \<and> decimal_value (takeWhile is_decimal name) = n \<and>
    (\<forall>n' p'. message_filename n' p' = Inr name \<longrightarrow> n' = n \<and> p' = p)"
proof -
  have "p' = p" if "message_filename n' p' = Inr name" for n' p'
    using filename_shape(2) [OF assms] filename_shape(2) [OF that]
    by (cases p; cases p') (simp_all add: text_simps)
  then show ?thesis
    using filename_ok [OF assms] filename_shape(1) [OF assms] filename_seq_unique [OF assms]
    by (metis decimal_value_zero_padded)
qed

lemma message_filename_roundtrip_witness:
  "message_filename_ok (lit ''1234-from-cc.md'') \<and>
   decimal_value (takeWhile is_decimal (lit ''1234-from-cc.md'')) = 1234"
proof -
  have "message_filename 1234 Claude_code = Inr (lit ''1234-from-cc.md'')"
    by code_simp
  from message_filename_roundtrip [OF this] show ?thesis by blast
qed

end
