(* ===== verification/Watcher.thy ===== *)
theory Watcher
  imports Messages
begin

text \<open>
  The watcher: the duplicate filter of \<open>watcher/dedup.py\<close>, the retry loop of
  \<open>watcher/dispatcher.py\<close> and the startup scan of \<open>watcher/startup_scan.py\<close>. The Claude Code
  SDK, the pin writer, the sleep between attempts and \<open>random.uniform\<close> are parameters, gathered in
  a record: what they do to the thread on disk is arbitrary, so another writer may act while a
  session runs.
\<close>

section \<open>The duplicate filter\<close>

record dedup_cache =
  ttl :: duration
  max_size :: nat
  seen_at :: "((pystr \<times> nat) \<times> time) list"

text \<open>\<open>seen_recently\<close> forgets an expired entry as it answers.\<close>

definition seen_recently :: "dedup_cache \<Rightarrow> pystr \<times> nat \<Rightarrow> time \<Rightarrow> bool \<times> dedup_cache" where
  "seen_recently c key now =
     (case map_of (seen_at c) key of
        None \<Rightarrow> (False, c)
      | Some marked \<Rightarrow>
          if now - marked > ttl c then (False, c\<lparr>seen_at := dict_del key (seen_at c)\<rparr>)
          else (True, c))"

text \<open>
  \<open>mark\<close> moves the key to the end, stores the instant, and drops the oldest entry of a cache grown
  beyond its size.
\<close>

definition dedup_mark :: "dedup_cache \<Rightarrow> pystr \<times> nat \<Rightarrow> time \<Rightarrow> dedup_cache" where
  "dedup_mark c key now =
     (let d = dict_del key (seen_at c) @ [(key, now)]
      in c\<lparr>seen_at := (if length d > max_size c then tl d else d)\<rparr>)"

definition new_dedup_cache :: "duration \<Rightarrow> nat \<Rightarrow> dedup_cache option" where
  "new_dedup_cache t n =
     (if t \<le> 0 \<or> n < 1 then None else Some \<lparr>ttl = t, max_size = n, seen_at = []\<rparr>)"

definition dedup_ok :: "dedup_cache \<Rightarrow> bool" where
  "dedup_ok c \<longleftrightarrow> 1 \<le> max_size c \<and> length (seen_at c) \<le> max_size c \<and> distinct (map fst (seen_at c))"

section \<open>The environment of a run\<close>

datatype invoke_outcome =
    Returned bool "nat option"
  | Timed_out duration
  | Failed
  | Was_cancelled

record runner =
  ulid_ok :: "pystr \<Rightarrow> bool"
  max_retries :: nat
  retry_backoff_seconds :: "duration list"
  retry_jitter :: int
  uniform :: "nat \<Rightarrow> duration \<Rightarrow> duration \<Rightarrow> duration"
  write_pin :: "nat \<Rightarrow> thread_fs \<Rightarrow> bool \<times> thread_fs"
  invoke :: "nat \<Rightarrow> nat \<Rightarrow> thread_fs \<Rightarrow> invoke_outcome \<times> thread_fs"
  asleep :: "nat \<Rightarrow> thread_fs \<Rightarrow> thread_fs"

text \<open>The constructor refuses fewer backoff delays than retries.\<close>

definition runner_ok :: "runner \<Rightarrow> bool" where
  "runner_ok r \<longleftrightarrow> \<not> (max_retries r > 0 \<and> length (retry_backoff_seconds r) < max_retries r)"

text \<open>The jitter is a fraction in millionths.\<close>

definition compute_backoff :: "runner \<Rightarrow> nat \<Rightarrow> duration thread_act" where
  "compute_backoff r attempt =
     (if attempt \<ge> length (retry_backoff_seconds r) then raise BackoffIndex
      else let base = retry_backoff_seconds r ! attempt
           in if retry_jitter r = 0 then ret base
              else let amount = base * retry_jitter r div 1000000
                   in ret (max 0 (base + uniform r attempt (- amount) amount)))"

definition handle_transient_failure :: "runner \<Rightarrow> nat \<Rightarrow> unit thread_act" where
  "handle_transient_failure r attempt =
     andthen load_thread_meta (\<lambda>current.
     if attempt = max_retries r
     then andthen (transition_state Terminated None (Some Retry_exhausted) None None) (\<lambda>new_meta.
          andthen now_utc (\<lambda>ts.
          append_event (ThreadStatusChanged ts (status current) Terminated (retry_count new_meta))))
     else if status current = Active
     then andthen (transition_state Retrying (awaiting_from current) None None
                     (Some (retry_count current + 1))) (\<lambda>new_meta.
          andthen now_utc (\<lambda>ts.
          append_event (ThreadStatusChanged ts Active Retrying (retry_count new_meta))))
     else andthen bump_retry_count (\<lambda>_. ret ()))"

definition handle_permanent_failure :: "unit thread_act" where
  "handle_permanent_failure =
     andthen load_thread_meta (\<lambda>current.
     andthen (transition_state Terminated None (Some Validation_failed) None None) (\<lambda>new_meta.
     andthen now_utc (\<lambda>ts.
     append_event (ThreadStatusChanged ts (status current) Terminated (retry_count new_meta)))))"

definition write_reply_completed :: "runner \<Rightarrow> participant \<Rightarrow> nat \<Rightarrow> bool thread_act" where
  "write_reply_completed r replier next_seq =
     andthen (load_messages (ulid_ok r)) (\<lambda>messages_after.
     if messages_after = [] then ret False
     else ret (msg_from (last messages_after) = replier \<and> seq (last messages_after) = next_seq))"

definition recover_retrying_to_active :: "unit thread_act" where
  "recover_retrying_to_active =
     andthen load_thread_meta (\<lambda>current.
     if status current \<noteq> Retrying then ret ()
     else andthen (transition_state Active (awaiting_from current) None None None) (\<lambda>new_meta.
          andthen now_utc (\<lambda>ts.
          append_event (ThreadStatusChanged ts Retrying Active (retry_count new_meta)))))"

definition invoke_end :: "nat \<Rightarrow> nat \<Rightarrow> int \<Rightarrow> unit thread_act" where
  "invoke_end n duration_ms exit_code =
     andthen now_utc (\<lambda>ts. append_event (ClaudeCodeInvokeEnd ts n duration_ms exit_code))"

text \<open>The milliseconds of a duration, rounded half to even as \<open>round\<close> does.\<close>

definition round_ms :: "duration \<Rightarrow> nat" where
  "round_ms d = (let q = d div 1000; m = d mod 1000
     in nat (if m < 500 then q else if m > 500 then q + 1 else if even q then q else q + 1))"

text \<open>One pass of the loop body; the result says whether the loop continues.\<close>

definition after_invoke :: "runner \<Rightarrow> nat \<Rightarrow> nat \<Rightarrow> invoke_outcome \<Rightarrow> bool thread_act" where
  "after_invoke r attempt msg_seq outcome =
     (case outcome of
        Was_cancelled \<Rightarrow> andthen (invoke_end msg_seq 0 1) (\<lambda>_. raise Cancelled)
      | Timed_out elapsed \<Rightarrow>
          andthen (invoke_end msg_seq (round_ms elapsed) 1) (\<lambda>_.
          andthen (handle_transient_failure r attempt) (\<lambda>_.
          if attempt = max_retries r then ret False
          else andthen (compute_backoff r attempt) (\<lambda>backoff.
               andthen now_utc (\<lambda>ts.
               andthen (append_event (RetryBackoffStarted ts (attempt + 1) backoff)) (\<lambda>_.
               andthen (modify (asleep r attempt)) (\<lambda>_.
               ret True))))))
      | Failed \<Rightarrow>
          andthen (invoke_end msg_seq 0 1) (\<lambda>_.
          andthen handle_permanent_failure (\<lambda>_. ret False))
      | Returned is_error duration_ms \<Rightarrow>
          andthen (invoke_end msg_seq (case duration_ms of None \<Rightarrow> 0 | Some n \<Rightarrow> n)
                     (if is_error then 1 else 0)) (\<lambda>_.
          andthen recover_retrying_to_active (\<lambda>_.
          andthen (write_reply_completed r Claude_code (msg_seq + 1)) (\<lambda>completed.
          andthen (if completed then toggle_awaiting_from Claude_code else ret ()) (\<lambda>_.
          ret False)))))"

definition external :: "('w \<Rightarrow> 'a \<times> 'w) \<Rightarrow> ('w, 'e, 'a) act" where
  "external f = (\<lambda>w. case f w of (x, w') \<Rightarrow> (Inr x, w'))"

definition run_attempt :: "runner \<Rightarrow> nat \<Rightarrow> bool thread_act" where
  "run_attempt r attempt =
     andthen load_thread_meta (\<lambda>current.
     if status current \<in> TERMINAL_STATES then ret False
     else andthen (load_messages (ulid_ok r)) (\<lambda>messages.
     if messages = [] then ret False
     else if msg_from (last messages) \<noteq> Claude_ai
     then (if status current = Retrying
           then andthen recover_retrying_to_active (\<lambda>_.
                andthen (toggle_awaiting_from (msg_from (last messages))) (\<lambda>_.
                ret False))
           else ret False)
     else let n = seq (last messages)
          in andthen now_utc (\<lambda>ts.
             andthen (append_event (ClaudeCodeInvokeStart ts n)) (\<lambda>_.
             andthen (external (write_pin r attempt)) (\<lambda>pinned.
             if \<not> pinned then raise PreTurnFailed
             else andthen (external (invoke r attempt (n + 1))) (\<lambda>outcome.
             after_invoke r attempt n outcome))))))"

text \<open>\<open>for attempt in range(max_retries + 1)\<close>, with what is left of the range.\<close>

primrec run_attempts :: "runner \<Rightarrow> nat \<Rightarrow> nat \<Rightarrow> unit thread_act" where
  "run_attempts r 0 attempt = ret ()"
| "run_attempts r (Suc k) attempt =
     andthen (run_attempt r attempt) (\<lambda>again. if again then run_attempts r k (Suc attempt) else ret ())"

definition run_thread :: "runner \<Rightarrow> unit thread_act" where
  "run_thread r = run_attempts r (max_retries r + 1) 0"

text \<open>
  \<open>handle\<close>: an event seen recently is dropped; any other is marked before its thread is run. The
  lock of the thread and the semaphore make the body one critical section.
\<close>

definition handle ::
    "runner \<Rightarrow> (pystr \<times> nat) \<times> time \<Rightarrow> dedup_cache \<Rightarrow> thread_fs \<Rightarrow>
     dedup_cache \<times> ((lifecycle_error + unit) \<times> thread_fs)" where
  "handle r ev c w =
     (case seen_recently c (fst ev) (snd ev) of
        (True, c') \<Rightarrow> (c', ret () w)
      | (False, c') \<Rightarrow> (dedup_mark c' (fst ev) (snd ev), run_thread r w))"

section \<open>The startup scan\<close>

datatype race_gap = Duplicate_seq "nat list" | Seq_hole "(nat \<times> nat) list"

fun seq_holes :: "nat list \<Rightarrow> (nat \<times> nat) list" where
  "seq_holes (p # c # cs) = (if c > p + 1 then (p + 1, c - 1) # seq_holes (c # cs) else seq_holes (c # cs))"
| "seq_holes _ = []"

definition detect_race_gap :: "message list \<Rightarrow> race_gap option" where
  "detect_race_gap messages =
     (if messages = [] then None
      else let seqs = map seq messages;
               dups = sort (filter (\<lambda>s. count_list seqs s > 1) (remdups seqs));
               holes = seq_holes seqs
           in if dups \<noteq> [] then Some (Duplicate_seq dups)
              else if holes \<noteq> [] then Some (Seq_hole holes)
              else None)"

text \<open>
  One directory under \<open>threads/\<close>: its name, whether it is a directory, and the thread in it. An
  event names the thread, the number of its last message and the instant of the scan.
\<close>

record thread_dir =
  dir_name :: pystr
  is_dir :: bool
  dir_fs :: thread_fs

definition scan_dir :: "(pystr \<Rightarrow> bool) \<Rightarrow> thread_dir \<Rightarrow> ((pystr \<times> nat) \<times> race_gap option) option" where
  "scan_dir u d =
     (if \<not> is_dir d then None
      else if startswith (dir_name d) (lit ''.'') then None
      else if \<not> u (dir_name d) then None
      else case fst (load_thread_meta (dir_fs d)) of
        Inl _ \<Rightarrow> None
      | Inr meta \<Rightarrow>
          if status meta \<notin> REQUEUE_STATES then None
          else (case fst (load_messages u (dir_fs d)) of
                  Inl _ \<Rightarrow> None
                | Inr messages \<Rightarrow>
                    if messages = [] then None
                    else Some ((dir_name d, seq (last messages)), detect_race_gap messages)))"

text \<open>The events put on the queue, in order of directory name, and the anomalies observed.\<close>

definition startup_full_scan ::
    "(pystr \<Rightarrow> bool) \<Rightarrow> thread_dir list \<Rightarrow> time \<Rightarrow> ((pystr \<times> nat) \<times> time) list \<times> (pystr \<times> race_gap) list" where
  "startup_full_scan u dirs now =
     (let hits = List.map_filter (scan_dir u) (sort_key dir_name dirs)
      in (map (\<lambda>(ev, _). (ev, now)) hits,
          List.map_filter (\<lambda>((name, _), gap). map_option (Pair name) gap) hits))"

section \<open>The filter keeps its contract\<close>

lemma map_of_tl_distinct:
  "distinct (map fst d) \<Longrightarrow> map_of (tl d) k = Some v \<Longrightarrow> map_of d k = Some v"
  by (cases d) (auto simp: image_iff dest: map_of_SomeD)

lemma seen_at_mark:
  "seen_at (dedup_mark c k t) =
     (if length (dict_del k (seen_at c) @ [(k, t)]) > max_size c
      then tl (dict_del k (seen_at c) @ [(k, t)]) else dict_del k (seen_at c) @ [(k, t)])"
  by (simp add: dedup_mark_def Let_def)

lemma map_of_mark:
  assumes "dedup_ok c"
  shows "map_of (seen_at (dedup_mark c k t)) k = Some t"
    and "k' \<noteq> k \<Longrightarrow> map_of (seen_at (dedup_mark c k t)) k' = Some v \<Longrightarrow> map_of (seen_at c) k' = Some v"
proof -
  let ?d = "dict_del k (seen_at c)"
  have d: "distinct (map fst (?d @ [(k, t)]))"
    using assms by (simp add: dedup_ok_def distinct_dict_del)
  have none: "map_of ?d k = None" by simp
  have full: "map_of (?d @ [(k, t)]) k = Some t" using none by (simp add: map_add_def)
  have rest: "map_of (?d @ [(k, t)]) k' = Some v \<Longrightarrow> k' \<noteq> k \<Longrightarrow> map_of (seen_at c) k' = Some v"
    by (simp add: map_add_def split: if_splits option.splits)
  have tl: "map_of (tl (?d @ [(k, t)])) k = Some t" if "length (?d @ [(k, t)]) > max_size c"
  proof -
    have "?d \<noteq> []" using assms that by (auto simp: dedup_ok_def)
    moreover from this none have "map_of (tl ?d) k = None" by (cases ?d) (auto split: if_splits)
    ultimately show ?thesis by (simp add: map_add_def)
  qed
  show "map_of (seen_at (dedup_mark c k t)) k = Some t"
    using full tl by (simp add: dedup_mark_def Let_def)
  assume other: "k' \<noteq> k" and found: "map_of (seen_at (dedup_mark c k t)) k' = Some v"
  have "map_of (?d @ [(k, t)]) k' = Some v"
  proof (cases "length (?d @ [(k, t)]) > max_size c")
    case True
    with found have "map_of (tl (?d @ [(k, t)])) k' = Some v"
      by (simp only: seen_at_mark if_True)
    then show ?thesis by (rule map_of_tl_distinct [OF d])
  next
    case False
    with found show ?thesis by (simp only: seen_at_mark if_False)
  qed
  then show "map_of (seen_at c) k' = Some v" by (rule rest [OF _ other])
qed

lemma dedup_ok_mark: "dedup_ok c \<Longrightarrow> dedup_ok (dedup_mark c k t)"
proof -
  assume ok: "dedup_ok c"
  let ?d = "dict_del k (seen_at c) @ [(k, t)]"
  have d: "distinct (map fst ?d)" using ok by (simp add: dedup_ok_def distinct_dict_del)
  have "length (dict_del k (seen_at c)) \<le> length (seen_at c)" by (rule length_dict_del)
  then have "length ?d \<le> Suc (max_size c)" using ok by (simp add: dedup_ok_def)
  moreover have "distinct (map fst (tl ?d))" using d by (metis distinct_tl map_tl)
  ultimately show ?thesis using ok d by (auto simp: dedup_mark_def Let_def dedup_ok_def)
qed

lemma dedup_ok_check: "dedup_ok c \<Longrightarrow> dedup_ok (snd (seen_recently c k t))"
  by (auto simp: seen_recently_def dedup_ok_def distinct_dict_del
      intro: le_trans [OF length_dict_del] split: option.splits)

lemma seen_recently_iff:
  "fst (seen_recently c k u) \<longleftrightarrow> (\<exists>t. map_of (seen_at c) k = Some t \<and> u - t \<le> ttl c)"
  by (auto simp: seen_recently_def split: option.splits)

lemma ttl_kept [simp]: "ttl (dedup_mark c k t) = ttl c" "ttl (snd (seen_recently c k t)) = ttl c"
  by (simp_all add: dedup_mark_def Let_def seen_recently_def split: option.splits)

lemma check_keeps_others:
  "map_of (seen_at (snd (seen_recently c k t))) k' = Some v \<Longrightarrow> map_of (seen_at c) k' = Some v"
  by (auto simp: seen_recently_def split: option.splits if_splits)

text \<open>
  One interpretation for every size and lifetime: the invariant fixes them, since \<open>mark\<close> and
  \<open>seen_recently\<close> change neither.
\<close>

interpretation watcher_dedup: taken_events "\<lparr>ttl = T, max_size = Suc n, seen_at = []\<rparr>"
    seen_recently dedup_mark "\<lambda>t u. u - t \<le> T" "\<lambda>c. dedup_ok c \<and> ttl c = T" for T n
proof
  show "dedup_ok \<lparr>ttl = T, max_size = Suc n, seen_at = []\<rparr> \<and> ttl \<lparr>ttl = T, max_size = Suc n, seen_at = []\<rparr> = T"
    by (simp add: dedup_ok_def)
  show "\<not> fst (seen_recently \<lparr>ttl = T, max_size = Suc n, seen_at = []\<rparr> k t)" for k t
    by (simp add: seen_recently_def)
qed (auto simp: dedup_ok_mark dedup_ok_check seen_recently_iff map_of_mark(1)
      dest: map_of_mark(2) check_keeps_others)

section \<open>What every run keeps\<close>

lemma external_run [act_simps]: "external f w = (Inr (fst (f w)), snd (f w))"
  by (simp add: external_def split: prod.splits)

lemma keeps_external: "(\<And>w. P w \<Longrightarrow> P (snd (f w))) \<Longrightarrow> keeps P (external f)"
  by (simp add: keeps_def external_run)

lemma load_messages_state [simp]: "snd (load_messages u w) = w"
  by (simp add: load_messages_def split: sum.splits)

lemma keeps_load_messages [keeps_intros]: "keeps P (load_messages u)"
  by (simp add: keeps_def)

lemma keeps_compute_backoff [keeps_intros]: "keeps P (compute_backoff r a)"
  unfolding compute_backoff_def Let_def by (intro keeps_intros)

lemma rc_ok_None [simp, intro]: "rc_ok None"
  by (simp add: rc_ok_def)

text \<open>
  The retry count a transient failure writes is taken from a file read just before, so the file on
  disk stays consistent whatever another writer did meanwhile.
\<close>

lemma keeps_load_then:
  assumes "\<And>m. meta_valid m \<Longrightarrow> keeps P (f m)"
  shows "keeps P (andthen load_thread_meta f)"
proof (rule keepsI)
  fix w assume "P w"
  then show "P (snd (andthen load_thread_meta f w))"
    using assms by (cases rule: load_thread_meta_cases [of w]) (simp_all add: act_simps keepsD)
qed

lemma keeps_handle_transient_failure [keeps_intros]: "keeps disk_ok (handle_transient_failure r a)"
  unfolding handle_transient_failure_def
  by (rule keeps_load_then, intro keeps_intros) (simp_all add: rc_ok_def meta_valid_def)

lemma keeps_handle_permanent_failure [keeps_intros]: "keeps disk_ok handle_permanent_failure"
  unfolding handle_permanent_failure_def by (intro keeps_intros rc_ok_None)

lemma keeps_recover [keeps_intros]: "keeps disk_ok recover_retrying_to_active"
  unfolding recover_retrying_to_active_def by (intro keeps_intros rc_ok_None)

lemma keeps_write_reply_completed [keeps_intros]: "keeps P (write_reply_completed r p n)"
  unfolding write_reply_completed_def by (intro keeps_intros)

lemma keeps_invoke_end [keeps_intros]: "keeps disk_ok (invoke_end n d x)"
  unfolding invoke_end_def by (intro keeps_intros)

definition session_keeps :: "(thread_fs \<Rightarrow> bool) \<Rightarrow> runner \<Rightarrow> bool" where
  "session_keeps P r \<longleftrightarrow>
     (\<forall>a w. P w \<longrightarrow> P (snd (write_pin r a w))) \<and> (\<forall>a n w. P w \<longrightarrow> P (snd (invoke r a n w))) \<and>
     (\<forall>a w. P w \<longrightarrow> P (asleep r a w))"

lemma keeps_after_invoke:
  assumes "session_keeps disk_ok r"
  shows "keeps disk_ok (after_invoke r a n oc)"
proof -
  have sleep: "keeps disk_ok (modify (asleep r a))"
    using assms by (intro keeps_modify) (simp add: session_keeps_def)
  show ?thesis
    unfolding after_invoke_def
    by (cases oc; simp only: invoke_outcome.case; intro keeps_intros sleep)
qed

lemma keeps_run_attempt:
  assumes "session_keeps disk_ok r"
  shows "keeps disk_ok (run_attempt r a)"
proof -
  have "keeps disk_ok (external (write_pin r a))" "\<And>n. keeps disk_ok (external (invoke r a n))"
    using assms by (auto intro!: keeps_external simp: session_keeps_def)
  then show ?thesis
    unfolding run_attempt_def Let_def
    by (intro keeps_intros keeps_after_invoke assms)
qed

lemma keeps_run_attempts:
  "session_keeps disk_ok r \<Longrightarrow> keeps disk_ok (run_attempts r k a)"
  by (induction k arbitrary: a) (auto intro!: keeps_intros keeps_run_attempt)

subsection \<open>The number of sessions started\<close>

definition count_events :: "(thread_event \<Rightarrow> bool) \<Rightarrow> thread_fs \<Rightarrow> nat" where
  "count_events p w = length (filter p (event_log w))"

fun is_start :: "thread_event \<Rightarrow> bool" where
  "is_start (ClaudeCodeInvokeStart _ _) = True"
| "is_start _ = False"

fun is_backoff :: "thread_event \<Rightarrow> bool" where
  "is_backoff (RetryBackoffStarted _ _ _) = True"
| "is_backoff _ = False"

text \<open>The lifecycle operations append to the log only what the caller appends.\<close>

lemma transition_state_frame:
  "event_log (snd (transition_state s a r at rc w)) = event_log w"
  "msg_files (snd (transition_state s a r at rc w)) = msg_files w"
  "thread_id (snd (transition_state s a r at rc w)) = thread_id w"
proof -
  have "\<exists>k x. snd (transition_state s a r at rc w) = w\<lparr>ticks := k, meta_file := x\<rparr>"
  proof (cases "\<exists>m. meta_file w = Some m \<and> transition_admissible s a r m")
    case True
    then obtain m where "meta_file w = Some m" "transition_admissible s a r m" by blast
    then show ?thesis by (simp add: transition_state_returns Let_def) (intro exI, rule refl)
  next
    case False
    then obtain e k where "transition_state s a r at rc w = (Inl e, w\<lparr>ticks := k\<rparr>)"
      using transition_state_raises by blast
    then show ?thesis by (intro exI [of _ k] exI [of _ "meta_file w"]) simp
  qed
  then show "event_log (snd (transition_state s a r at rc w)) = event_log w"
    "msg_files (snd (transition_state s a r at rc w)) = msg_files w"
    "thread_id (snd (transition_state s a r at rc w)) = thread_id w"
    by auto
qed

lemma keeps_starts_append: "\<not> is_start e \<Longrightarrow> keeps (\<lambda>w. count_events is_start w = c) (append_event e)"
  by (simp add: keeps_def append_event_run count_events_def)

lemma keeps_starts_now: "keeps (\<lambda>w. count_events is_start w = c) now_utc"
  by (simp add: keeps_def now_run count_events_def)

lemma keeps_starts_transition:
  "keeps (\<lambda>w. count_events is_start w = c) (transition_state s a r at rc)"
  by (simp add: keeps_def count_events_def transition_state_frame)

lemma keeps_starts_write_meta: "keeps (\<lambda>w. count_events is_start w = c) (write_meta m)"
  by (simp add: keeps_def write_meta_run count_events_def)

lemma keeps_starts_bump: "keeps (\<lambda>w. count_events is_start w = c) bump_retry_count"
  unfolding bump_retry_count_def Let_def by (intro keeps_intros keeps_starts_now keeps_starts_write_meta)

lemma keeps_starts_set_awaiting: "keeps (\<lambda>w. count_events is_start w = c) (set_awaiting_from p)"
  unfolding set_awaiting_from_def Let_def by (intro keeps_intros keeps_starts_now keeps_starts_write_meta)

lemma keeps_starts_toggle: "keeps (\<lambda>w. count_events is_start w = c) (toggle_awaiting_from p)"
  unfolding toggle_awaiting_from_def Let_def
  by (intro keeps_intros keeps_starts_now keeps_starts_set_awaiting keeps_starts_append) simp_all

lemmas starts_intros = keeps_intros keeps_starts_append keeps_starts_now keeps_starts_transition
  keeps_starts_bump keeps_starts_toggle

lemma keeps_starts_after_invoke:
  assumes "\<And>w. count_events is_start (asleep r a w) = count_events is_start w"
  shows "keeps (\<lambda>w. count_events is_start w = c) (after_invoke r a n oc)"
proof -
  have sleep: "keeps (\<lambda>w. count_events is_start w = c) (modify (asleep r a))"
    using assms by (intro keeps_modify) simp
  show ?thesis
    unfolding after_invoke_def invoke_end_def handle_transient_failure_def
      handle_permanent_failure_def recover_retrying_to_active_def
    by (cases oc; simp only: invoke_outcome.case; intro starts_intros sleep is_start.simps)
      (simp_all only: is_start.simps not_False_eq_True)
qed

definition session_logs_nothing :: "runner \<Rightarrow> bool" where
  "session_logs_nothing r \<longleftrightarrow>
     (\<forall>a w. event_log (snd (write_pin r a w)) = event_log w) \<and>
     (\<forall>a n w. event_log (snd (invoke r a n w)) = event_log w) \<and>
     (\<forall>a w. event_log (asleep r a w) = event_log w)"

lemma starts_run_attempt:
  assumes "session_logs_nothing r"
  shows "count_events is_start (snd (run_attempt r a w)) \<le> Suc (count_events is_start w)"
proof -
  have logs: "\<And>w. event_log (snd (write_pin r a w)) = event_log w"
    "\<And>n w. event_log (snd (invoke r a n w)) = event_log w"
    "\<And>w. event_log (asleep r a w) = event_log w"
    using assms by (simp_all add: session_logs_nothing_def)
  let ?c = "count_events is_start w"
  have rest: "keeps (\<lambda>w. count_events is_start w = Suc ?c)
      (andthen (external (write_pin r a)) (\<lambda>pinned. if \<not> pinned then raise PreTurnFailed
         else andthen (external (invoke r a (n + 1))) (after_invoke r a n)))" for n
    by (intro keeps_intros keeps_external keeps_starts_after_invoke)
      (simp_all add: count_events_def logs)
  have recover: "keeps (\<lambda>w. count_events is_start w = ?c)
      (andthen recover_retrying_to_active (\<lambda>_. andthen (toggle_awaiting_from p) (\<lambda>_. ret False)))" for p
    unfolding recover_retrying_to_active_def
    by (intro starts_intros) (simp only: is_start.simps not_False_eq_True)
  show ?thesis
  proof (cases rule: load_thread_meta_cases [of w])
    case (valid m)
    obtain x where x: "load_messages (ulid_ok r) w = (x, w)"
      by (metis load_messages_state prod.collapse)
    show ?thesis
    proof (cases x)
      case (Inl e)
      with valid x show ?thesis by (simp add: run_attempt_def act_simps)
    next
      case (Inr messages)
      let ?w = "w\<lparr>ticks := Suc (ticks w),
                  event_log := event_log w @ [ClaudeCodeInvokeStart (clock w (ticks w)) (seq (last messages))]\<rparr>"
      have "count_events is_start ?w = Suc ?c" by (simp add: count_events_def)
      from keepsD [OF rest [of "seq (last messages)"] this] keepsD [OF recover refl] Inr valid x
      show ?thesis by (auto simp: run_attempt_def act_simps Let_def)
    qed
  qed (simp_all add: run_attempt_def act_simps)
qed

lemma starts_run_attempts:
  assumes "session_logs_nothing r"
  shows "count_events is_start (snd (run_attempts r k a w)) \<le> count_events is_start w + k"
proof (induction k arbitrary: a w)
  case 0
  then show ?case by (simp add: act_simps)
next
  case (Suc k)
  have one: "count_events is_start (snd (run_attempt r a w)) \<le> Suc (count_events is_start w)"
    by (rule starts_run_attempt [OF assms])
  obtain x w' where run: "run_attempt r a w = (x, w')" by fastforce
  show ?case
  proof (cases x)
    case (Inl e)
    with one run show ?thesis by (simp add: act_simps)
  next
    case (Inr again)
    with one run Suc.IH [of "Suc a" w'] show ?thesis by (cases again) (simp_all add: act_simps)
  qed
qed

section \<open>A run against a failing session\<close>

text \<open>
  A thread whose turn is Claude Code's to answer, and a session that only talks: the pin is written,
  nothing else happens while the loop sleeps.
\<close>

definition awaiting_reply :: "(pystr \<Rightarrow> bool) \<Rightarrow> thread_meta \<Rightarrow> thread_fs \<Rightarrow> bool" where
  "awaiting_reply u m w \<longleftrightarrow> thread_ok u w \<and> meta_file w = Some m \<and>
     awaiting_from m = Some Claude_code \<and> conversation w \<noteq> [] \<and>
     msg_from (last (conversation w)) = Claude_ai"

definition quiet :: "runner \<Rightarrow> bool" where
  "quiet r \<longleftrightarrow> runner_ok r \<and> (\<forall>a w. write_pin r a w = (True, w)) \<and> (\<forall>a w. asleep r a w = w)"

lemma awaiting_replyD:
  assumes "awaiting_reply u m w"
  shows "meta_file w = Some m" "meta_ok m" "meta_valid m" "status m = Active \<or> status m = Retrying"
    "load_messages u w = (Inr (conversation w), w)" "awaiting_from m = Some Claude_code"
proof -
  show found: "meta_file w = Some m" and turn: "awaiting_from m = Some Claude_code"
    using assms by (simp_all add: awaiting_reply_def)
  show ok: "meta_ok m"
    using assms found by (auto simp: awaiting_reply_def thread_ok_def disk_ok_def)
  then show "meta_valid m" by (simp add: meta_ok_def)
  show "status m = Active \<or> status m = Retrying"
    using ok turn by (cases "status m") (auto simp: meta_ok_def)
  show "load_messages u w = (Inr (conversation w), w)"
    using assms by (simp add: awaiting_reply_def thread_ok_def load_messages_ok)
qed

text \<open>Up to the session's outcome, an attempt logs its start and leaves the rest alone.\<close>

definition started :: "thread_fs \<Rightarrow> thread_fs" where
  "started w = w\<lparr>ticks := Suc (ticks w), event_log := event_log w @
     [ClaudeCodeInvokeStart (clock w (ticks w)) (seq (last (conversation w)))]\<rparr>"

lemma run_attempt_invokes:
  assumes "awaiting_reply (ulid_ok r) m w" and "quiet r"
  shows "run_attempt r a w =
    (let n = seq (last (conversation w)); (oc, w') = invoke r a (n + 1) (started w)
     in after_invoke r a n oc w')"
  using awaiting_replyD [OF assms(1)] assms
  by (auto simp: run_attempt_def act_simps Let_def awaiting_reply_def quiet_def started_def
      split: prod.splits)

lemma quiet_backoff:
  assumes "quiet r" and "a < max_retries r"
  obtains b where "compute_backoff r a = ret b"
proof -
  have "a < length (retry_backoff_seconds r)"
    using assms by (auto simp: quiet_def runner_ok_def)
  then show thesis
    by (cases "retry_jitter r = 0") (rule that, simp add: compute_backoff_def Let_def)+
qed

text \<open>A transient failure with retries left: one more on the count, and the thread is retrying.\<close>

lemma transient_failure_retries:
  assumes w: "meta_file w = Some m" "meta_ok m" and live: "status m = Active \<or> status m = Retrying"
    and more: "a < max_retries r"
  obtains m' t es k where
    "handle_transient_failure r a w =
       (Inr (), w\<lparr>ticks := k, meta_file := Some m', event_log := event_log w @ es\<rparr>)"
    "meta_ok m'" "status m' = Retrying" "retry_count m' = retry_count m + 1"
    "awaiting_from m' = awaiting_from m" "filter is_start es = []" "filter is_backoff es = []"
proof (cases "status m = Active")
  case True
  let ?m = "transition_meta Retrying (awaiting_from m) None None (Some (retry_count m + 1))
              (clock w (ticks w)) m"
  have adm: "transition_admissible Retrying (awaiting_from m) None m"
    using w True by (auto simp: transition_admissible_def meta_ok_def)
  have "handle_transient_failure r a w =
      (Inr (), w\<lparr>ticks := Suc (Suc (ticks w)), meta_file := Some ?m, event_log := event_log w @
         [ThreadStatusChanged (clock w (Suc (ticks w))) Active Retrying (retry_count m + 1)]\<rparr>)"
    using w True more transition_state_returns [OF w(1) adm]
    by (simp add: handle_transient_failure_def meta_ok_def act_simps Let_def transition_meta_def)
  moreover have "meta_ok ?m"
    by (rule transition_meta_ok [OF w(2) adm])
      (use w(2) in \<open>simp add: rc_ok_def meta_ok_def meta_valid_def\<close>)
  ultimately show thesis
    by (rule that) (simp_all add: transition_meta_def)
next
  case False
  then have st: "status m = Retrying" "status m \<notin> TERMINAL_STATES" using live by auto
  let ?m = "m\<lparr>retry_count := retry_count m + 1, updated_at := clock w (ticks w)\<rparr>"
  have "handle_transient_failure r a w =
      (Inr (), w\<lparr>ticks := Suc (ticks w), meta_file := Some ?m, event_log := event_log w @ []\<rparr>)"
    using w st more bump_retry_count_returns [OF w(1) _ st(2)]
    by (simp add: handle_transient_failure_def meta_ok_def act_simps Let_def)
  moreover have "meta_ok ?m" using w by (auto simp: meta_ok_def meta_valid_def)
  ultimately show thesis
    by (rule that) (simp_all add: st)
qed

text \<open>
  The branch meant for a retrying thread is also taken when another process has finished the thread
  during the session; the failure then raises instead of being recorded, and nothing is written.
\<close>

lemma transient_failure_of_finished_raises:
  assumes "meta_file w = Some m" "meta_valid m" and fin: "status m \<in> TERMINAL_STATES"
    and more: "a < max_retries r"
  shows "handle_transient_failure r a w = (Inl (RetryBumpTerminal (status m)), w)"
proof -
  have "status m \<noteq> Active" using fin by (cases "status m") simp_all
  then show ?thesis
    using assms by (simp add: handle_transient_failure_def bump_retry_count_def load_thread_meta_def act_simps)
qed

lemma transient_failure_exhausts:
  assumes w: "meta_file w = Some m" "meta_ok m" and live: "status m = Active \<or> status m = Retrying"
  obtains m' es k where
    "handle_transient_failure r (max_retries r) w =
       (Inr (), w\<lparr>ticks := k, meta_file := Some m', event_log := event_log w @ es\<rparr>)"
    "meta_ok m'" "status m' = Terminated" "retry_count m' = retry_count m"
    "terminated_reason m' = Some Retry_exhausted" "filter is_start es = []" "filter is_backoff es = []"
proof -
  let ?m = "transition_meta Terminated None (Some Retry_exhausted) None None (clock w (ticks w)) m"
  have adm: "transition_admissible Terminated None (Some Retry_exhausted) m"
    using w live by (auto simp: transition_admissible_def meta_ok_def)
  have "handle_transient_failure r (max_retries r) w =
      (Inr (), w\<lparr>ticks := Suc (Suc (ticks w)), meta_file := Some ?m, event_log := event_log w @
         [ThreadStatusChanged (clock w (Suc (ticks w))) (status m) Terminated (retry_count m)]\<rparr>)"
    using w transition_state_returns [OF w(1) adm]
    by (simp add: handle_transient_failure_def meta_ok_def act_simps Let_def transition_meta_def)
  moreover have "meta_ok ?m" by (rule transition_meta_ok [OF w(2) adm rc_ok_None])
  ultimately show thesis
    by (rule that) (simp_all add: transition_meta_def)
qed

lemma awaiting_reply_frame:
  assumes "awaiting_reply u m w" and "meta_ok m'" and "awaiting_from m' = awaiting_from m"
  shows "awaiting_reply u m' (w\<lparr>ticks := k, meta_file := Some m', event_log := l\<rparr>)"
  using assms by (simp add: awaiting_reply_def thread_ok_def disk_ok_def)

text \<open>An attempt that times out with retries left leaves the thread waiting for the next one.\<close>

lemma timed_out_attempt:
  assumes wait: "awaiting_reply (ulid_ok r) m w" and q: "quiet r" and more: "a < max_retries r"
    and out: "invoke r a (seq (last (conversation w)) + 1) (started w) = (Timed_out d, started w)"
  obtains m' w' where "run_attempt r a w = (Inr True, w')" "awaiting_reply (ulid_ok r) m' w'"
    "status m' = Retrying" "retry_count m' = retry_count m + 1" "conversation w' = conversation w"
    "count_events is_start w' = Suc (count_events is_start w)"
    "count_events is_backoff w' = Suc (count_events is_backoff w)"
proof -
  note D = awaiting_replyD [OF wait]
  obtain b where b: "compute_backoff r a = ret b" using quiet_backoff [OF q more] .
  let ?n = "seq (last (conversation w))"
  let ?e1 = "ClaudeCodeInvokeStart (clock w (ticks w)) ?n"
  let ?e2 = "ClaudeCodeInvokeEnd (clock w (Suc (ticks w))) ?n (round_ms d) 1"
  let ?w2 = "w\<lparr>ticks := Suc (Suc (ticks w)), event_log := event_log w @ [?e1, ?e2]\<rparr>"
  have w2: "meta_file ?w2 = Some m" using D by simp
  obtain m' es k where h: "handle_transient_failure r a ?w2 =
       (Inr (), ?w2\<lparr>ticks := k, meta_file := Some m', event_log := event_log ?w2 @ es\<rparr>)"
    and m': "meta_ok m'" "status m' = Retrying" "retry_count m' = retry_count m + 1"
    "awaiting_from m' = awaiting_from m"
    and es: "filter is_start es = []" "filter is_backoff es = []"
    by (rule transient_failure_retries [OF w2 D(2) D(4) more])
  let ?w' = "w\<lparr>ticks := Suc k, meta_file := Some m',
      event_log := event_log w @ ?e1 # ?e2 # es @ [RetryBackoffStarted (clock w k) (a + 1) b]\<rparr>"
  have "run_attempt r a w = (Inr True, ?w')"
    using q more out h b D
    by (simp add: run_attempt_invokes [OF wait q] Let_def after_invoke_def invoke_end_def act_simps
        started_def quiet_def)
  then show thesis
    by (rule that) (use m' es in \<open>simp_all add: awaiting_reply_frame [OF wait] count_events_def\<close>)
qed

text \<open>The last attempt times out: the thread is terminated as exhausted.\<close>

definition exhausted :: "thread_meta \<Rightarrow> int \<Rightarrow> bool" where
  "exhausted m n \<longleftrightarrow> status m = Terminated \<and> terminated_reason m = Some Retry_exhausted \<and>
     terminated_at m \<noteq> None \<and> awaiting_from m = None \<and> retry_count m = n"

lemma exhausting_attempt:
  assumes wait: "awaiting_reply (ulid_ok r) m w" and q: "quiet r"
    and out: "invoke r (max_retries r) (seq (last (conversation w)) + 1) (started w) =
                (Timed_out d, started w)"
  obtains m' w' where "run_attempt r (max_retries r) w = (Inr False, w')" "meta_file w' = Some m'"
    "exhausted m' (retry_count m)" "conversation w' = conversation w"
    "count_events is_start w' = Suc (count_events is_start w)"
    "count_events is_backoff w' = count_events is_backoff w"
proof -
  note D = awaiting_replyD [OF wait]
  let ?n = "seq (last (conversation w))"
  let ?e1 = "ClaudeCodeInvokeStart (clock w (ticks w)) ?n"
  let ?e2 = "ClaudeCodeInvokeEnd (clock w (Suc (ticks w))) ?n (round_ms d) 1"
  let ?w2 = "w\<lparr>ticks := Suc (Suc (ticks w)), event_log := event_log w @ [?e1, ?e2]\<rparr>"
  have w2: "meta_file ?w2 = Some m" using D by simp
  obtain m' es k where h: "handle_transient_failure r (max_retries r) ?w2 =
       (Inr (), ?w2\<lparr>ticks := k, meta_file := Some m', event_log := event_log ?w2 @ es\<rparr>)"
    and m': "meta_ok m'" "status m' = Terminated" "retry_count m' = retry_count m"
    "terminated_reason m' = Some Retry_exhausted"
    and es: "filter is_start es = []" "filter is_backoff es = []"
    by (rule transient_failure_exhausts [OF w2 D(2) D(4)])
  let ?w' = "?w2\<lparr>ticks := k, meta_file := Some m', event_log := event_log ?w2 @ es\<rparr>"
  have "run_attempt r (max_retries r) w = (Inr False, ?w')"
    using q out h D
    by (simp add: run_attempt_invokes [OF wait q] Let_def after_invoke_def invoke_end_def act_simps
        started_def quiet_def)
  then show thesis
    by (rule that [of _ m'])
      (use m' es in \<open>auto simp: exhausted_def meta_ok_def count_events_def\<close>)
qed

definition silent :: "runner \<Rightarrow> bool" where
  "silent r \<longleftrightarrow> quiet r \<and> (\<forall>a n w. \<exists>d. invoke r a n w = (Timed_out d, w))"

lemma run_attempts_stop:
  "run_attempt r a w = (Inr False, w') \<Longrightarrow> run_attempts r (Suc k) a w = (Inr (), w')"
  by (simp add: andthen_def ret_def)

lemma run_attempts_again:
  "run_attempt r a w = (Inr True, w') \<Longrightarrow> run_attempts r (Suc k) a w = run_attempts r k (Suc a) w'"
  by (simp add: andthen_def)

lemma silent_attempts:
  "silent r \<Longrightarrow> awaiting_reply (ulid_ok r) m w \<Longrightarrow> a + k = max_retries r \<Longrightarrow>
   \<exists>w' m'. run_attempts r (Suc k) a w = (Inr (), w') \<and> meta_file w' = Some m' \<and>
     exhausted m' (retry_count m + int k) \<and> conversation w' = conversation w \<and>
     count_events is_start w' = count_events is_start w + Suc k \<and>
     count_events is_backoff w' = count_events is_backoff w + k"
proof (induction k arbitrary: a m w)
  case 0
  then have q: "quiet r" and a: "a = max_retries r" by (simp_all add: silent_def)
  obtain d where "invoke r (max_retries r) (seq (last (conversation w)) + 1) (started w) =
      (Timed_out d, started w)"
    using 0 unfolding silent_def by blast
  from exhausting_attempt [OF "0.prems"(2) q this] obtain m' w' where
    "run_attempt r (max_retries r) w = (Inr False, w')" "meta_file w' = Some m'"
    "exhausted m' (retry_count m)" "conversation w' = conversation w"
    "count_events is_start w' = Suc (count_events is_start w)"
    "count_events is_backoff w' = count_events is_backoff w" .
  then show ?case
    by (intro exI [of _ w'] exI [of _ m']) (simp add: a run_attempts_stop del: run_attempts.simps)
next
  case (Suc k)
  then have q: "quiet r" and a: "a < max_retries r" by (simp_all add: silent_def)
  obtain d where "invoke r a (seq (last (conversation w)) + 1) (started w) = (Timed_out d, started w)"
    using Suc.prems unfolding silent_def by blast
  from timed_out_attempt [OF Suc.prems(2) q a this] obtain m1 w1 where
    run: "run_attempt r a w = (Inr True, w1)" and wait: "awaiting_reply (ulid_ok r) m1 w1"
    and rc: "retry_count m1 = retry_count m + 1" and same: "conversation w1 = conversation w"
    "count_events is_start w1 = Suc (count_events is_start w)"
    "count_events is_backoff w1 = Suc (count_events is_backoff w)" .
  have "Suc a + k = max_retries r" using Suc.prems by simp
  from Suc.IH [OF Suc.prems(1) wait this] obtain w' m' where rest:
    "run_attempts r (Suc k) (Suc a) w1 = (Inr (), w')" "meta_file w' = Some m'"
    "exhausted m' (retry_count m1 + int k)" "conversation w' = conversation w1"
    "count_events is_start w' = count_events is_start w1 + Suc k"
    "count_events is_backoff w' = count_events is_backoff w1 + k" by blast
  have "run_attempts r (Suc (Suc k)) a w = (Inr (), w')"
    by (simp only: run_attempts_again [OF run] rest(1))
  moreover have "retry_count m1 + int k = retry_count m + int (Suc k)" using rc by simp
  ultimately show ?case using rest same
    by (intro exI [of _ w'] exI [of _ m']) (simp add: add.assoc del: run_attempts.simps)
qed

section \<open>A run whose session answers\<close>

lemma recover_returns:
  assumes w: "meta_file w = Some m" "meta_ok m" and live: "status m = Active \<or> status m = Retrying"
  obtains m' es k where
    "recover_retrying_to_active w =
       (Inr (), w\<lparr>ticks := k, meta_file := Some m', event_log := event_log w @ es\<rparr>)"
    "meta_ok m'" "status m' = Active" "retry_count m' = retry_count m"
    "awaiting_from m' = awaiting_from m" "filter is_start es = []" "filter is_backoff es = []"
proof (cases "status m = Retrying")
  case True
  let ?m = "transition_meta Active (awaiting_from m) None None None (clock w (ticks w)) m"
  have adm: "transition_admissible Active (awaiting_from m) None m"
    using w True by (auto simp: transition_admissible_def meta_ok_def)
  have "recover_retrying_to_active w =
      (Inr (), w\<lparr>ticks := Suc (Suc (ticks w)), meta_file := Some ?m, event_log := event_log w @
         [ThreadStatusChanged (clock w (Suc (ticks w))) Retrying Active (retry_count m)]\<rparr>)"
    using w True transition_state_returns [OF w(1) adm]
    by (simp add: recover_retrying_to_active_def meta_ok_def act_simps Let_def transition_meta_def)
  moreover have "meta_ok ?m" by (rule transition_meta_ok [OF w(2) adm rc_ok_None])
  ultimately show thesis
    by (rule that) (simp_all add: transition_meta_def)
next
  case False
  then have "recover_retrying_to_active w = (Inr (), w\<lparr>ticks := ticks w, meta_file := Some m,
      event_log := event_log w @ []\<rparr>)"
    using w by (simp add: recover_retrying_to_active_def meta_ok_def act_simps)
  then show thesis
    by (rule that) (use w live False in auto)
qed

lemma write_reply_appends:
  assumes wait: "awaiting_reply u m w" and n: "n = seq (last (conversation w)) + 1"
  obtains w' reply where "write_reply n Claude_code Claude_ai text w = (Inr (msg_id reply), w')"
    "awaiting_from m = Some Claude_code" "files_ok u w'" "conversation w' = conversation w @ [reply]"
    "seq reply = n" "msg_from reply = Claude_code" "meta_file w' = Some m" "thread_id w' = thread_id w"
    "event_log w' = event_log w"
proof -
  note D = awaiting_replyD [OF wait]
  let ?w1 = "w\<lparr>ticks := Suc (ticks w)\<rparr>"
  let ?msg = "framed_message (thread_id w) n Claude_code Claude_ai (clock w (ticks w)) text"
  have files: "files_ok u ?w1" and id: "id_ok u (thread_id w)"
    using wait by (simp_all add: awaiting_reply_def thread_ok_def)
  have pos: "1 \<le> n" and above: "\<forall>m \<in> set (conversation ?w1). seq m < n"
    using conversation_last_greatest [of _ w] by (auto simp: n less_Suc_eq_le)
  obtain name where wrote:
    "write_message_file n Claude_code ?msg ?w1 =
       (Inr (), ?w1\<lparr>msg_files := msg_files ?w1 @ [(name, Message_file ?msg)]\<rparr>)"
    "files_ok u (?w1\<lparr>msg_files := msg_files ?w1 @ [(name, Message_file ?msg)]\<rparr>)"
    "conversation (?w1\<lparr>msg_files := msg_files ?w1 @ [(name, Message_file ?msg)]\<rparr>) =
       conversation ?w1 @ [loaded ?msg]"
    by (rule write_above [OF files id participants_differ(2) pos above refl])
  have "write_reply n Claude_code Claude_ai text w =
      (Inr (msg_id (loaded ?msg)), ?w1\<lparr>msg_files := msg_files ?w1 @ [(name, Message_file ?msg)]\<rparr>)"
    using wrote(1) by (simp add: write_reply_def act_simps Let_def)
  then show thesis
    by (rule that) (use wrote D in \<open>simp_all add: framed_message_def\<close>)
qed

text \<open>
  The session's outcome seen by the loop: silent until attempt \<open>j\<close>, where it writes its reply
  through the tool of the session and returns.
\<close>

definition answers :: "runner \<Rightarrow> nat \<Rightarrow> pystr \<Rightarrow> bool" where
  "answers r j text \<longleftrightarrow> quiet r \<and> j \<le> max_retries r \<and>
     (\<forall>a n w. a < j \<longrightarrow> (\<exists>d. invoke r a n w = (Timed_out d, w))) \<and>
     (\<forall>n w. \<exists>ms. invoke r j n w =
        (Returned False ms, snd (write_reply n Claude_code Claude_ai text w)))"

definition answered :: "(pystr \<Rightarrow> bool) \<Rightarrow> thread_fs \<Rightarrow> int \<Rightarrow> thread_fs \<Rightarrow> bool" where
  "answered u w rc w' \<longleftrightarrow> thread_ok u w' \<and>
     (\<exists>m'. meta_file w' = Some m' \<and> status m' = Active \<and> awaiting_from m' = Some Claude_ai \<and>
           retry_count m' = rc) \<and>
     (\<exists>reply. conversation w' = conversation w @ [reply] \<and> msg_from reply = Claude_code \<and>
              seq reply = seq (last (conversation w)) + 1)"

lemma awaiting_reply_started:
  "awaiting_reply u m w \<Longrightarrow> awaiting_reply u m (started w)"
  by (simp add: awaiting_reply_def started_def thread_ok_def disk_ok_def)

lemma conversation_started [simp]: "conversation (started w) = conversation w"
  by (simp add: started_def)

lemma after_reply:
  assumes files: "files_ok (ulid_ok r) w" "id_ok (ulid_ok r) (thread_id w)"
    and m: "meta_file w = Some m" "meta_ok m" "status m = Active \<or> status m = Retrying"
    "awaiting_from m = Some Claude_code"
    and conv: "conversation w = ms @ [reply]" "seq reply = n + 1" "msg_from reply = Claude_code"
  obtains w' m' where "after_invoke r a n (Returned False d) w = (Inr False, w')"
    "thread_ok (ulid_ok r) w'" "conversation w' = conversation w" "meta_file w' = Some m'"
    "status m' = Active" "awaiting_from m' = Some Claude_ai" "retry_count m' = retry_count m"
    "count_events is_start w' = count_events is_start w"
    "count_events is_backoff w' = count_events is_backoff w"
proof -
  let ?e = "ClaudeCodeInvokeEnd (clock w (ticks w)) n (case d of None \<Rightarrow> 0 | Some k \<Rightarrow> k) 0"
  let ?w1 = "w\<lparr>ticks := Suc (ticks w), event_log := event_log w @ [?e]\<rparr>"
  have m1: "meta_file ?w1 = Some m" using m by simp
  obtain m2 es k where rec: "recover_retrying_to_active ?w1 =
       (Inr (), ?w1\<lparr>ticks := k, meta_file := Some m2, event_log := event_log ?w1 @ es\<rparr>)"
    and m2: "meta_ok m2" "status m2 = Active" "retry_count m2 = retry_count m"
      "awaiting_from m2 = awaiting_from m"
    and es: "filter is_start es = []" "filter is_backoff es = []"
    by (rule recover_returns [OF m1 m(2,3)])
  let ?w2 = "?w1\<lparr>ticks := k, meta_file := Some m2, event_log := event_log ?w1 @ es\<rparr>"
  have w2: "meta_file ?w2 = Some m2" "files_ok (ulid_ok r) ?w2" using files by simp_all
  have complete: "write_reply_completed r Claude_code (n + 1) ?w2 = (Inr True, ?w2)"
    using conv w2 by (simp add: write_reply_completed_def act_simps load_messages_ok)
  let ?w' = "toggled Claude_code m2 ?w2"
  have "after_invoke r a n (Returned False d) w = (Inr False, ?w')"
    using rec complete toggle_on_ok [OF w2(1) m2(1), of Claude_code]
    by (simp add: after_invoke_def invoke_end_def act_simps)
  moreover have turn: "awaiting_from m2 = Some Claude_code" using m2 m by simp
  moreover have "disk_ok ?w'"
    using toggle_on_ok [OF w2(1) m2(1), of Claude_code] m2(1)
      keepsD [OF keeps_toggle_awaiting_from, of ?w2 Claude_code]
    by (simp add: disk_ok_def)
  then have "thread_ok (ulid_ok r) ?w'" using files by (simp add: thread_ok_def)
  ultimately show thesis
    using toggled_meta [OF w2(1) turn] m2 es
    by (intro that [of ?w' "m2\<lparr>awaiting_from := Some Claude_ai, updated_at := clock ?w2 (ticks ?w2)\<rparr>"])
      (simp_all add: toggled_def count_events_def)
qed

lemma answering_attempt:
  assumes wait: "awaiting_reply (ulid_ok r) m w" and ans: "answers r j text"
  obtains w' where "run_attempt r j w = (Inr False, w')" "answered (ulid_ok r) w (retry_count m) w'"
    "count_events is_start w' = Suc (count_events is_start w)"
    "count_events is_backoff w' = count_events is_backoff w"
proof -
  have q: "quiet r" using ans by (simp add: answers_def)
  let ?n = "seq (last (conversation w))"
  have s: "awaiting_reply (ulid_ok r) m (started w)" by (rule awaiting_reply_started [OF wait])
  have n: "?n + 1 = seq (last (conversation (started w))) + 1" by simp
  obtain w1 reply where wrote: "write_reply (?n + 1) Claude_code Claude_ai text (started w) = (Inr (msg_id reply), w1)"
    and turn: "awaiting_from m = Some Claude_code" and files: "files_ok (ulid_ok r) w1"
    and conv: "conversation w1 = conversation (started w) @ [reply]" "seq reply = ?n + 1"
      "msg_from reply = Claude_code"
    and meta: "meta_file w1 = Some m" and id: "thread_id w1 = thread_id (started w)"
    and log: "event_log w1 = event_log (started w)"
    by (rule write_reply_appends [OF s n])
  have tid: "id_ok (ulid_ok r) (thread_id w1)" using s id by (simp add: awaiting_reply_def thread_ok_def)
  obtain ms where out: "invoke r j (?n + 1) (started w) = (Returned False ms, w1)"
    using ans wrote unfolding answers_def by (metis snd_conv)
  obtain w' m' where fin: "after_invoke r j ?n (Returned False ms) w1 = (Inr False, w')"
    "thread_ok (ulid_ok r) w'" "conversation w' = conversation w1" "meta_file w' = Some m'"
    "status m' = Active" "awaiting_from m' = Some Claude_ai" "retry_count m' = retry_count m"
    "count_events is_start w' = count_events is_start w1"
    "count_events is_backoff w' = count_events is_backoff w1"
    by (rule after_reply [OF files tid meta awaiting_replyD(2) [OF wait] awaiting_replyD(4) [OF wait]
          turn conv])
  have "run_attempt r j w = (Inr False, w')"
    using out fin(1) by (simp add: run_attempt_invokes [OF wait q] Let_def)
  then show thesis
    by (rule that) (use fin conv log in \<open>auto simp: answered_def count_events_def started_def\<close>)
qed

lemma answers_attempts:
  "answers r j text \<Longrightarrow> awaiting_reply (ulid_ok r) m w \<Longrightarrow> a + k = j \<Longrightarrow>
   \<exists>w'. run_attempts r (Suc (max_retries r - a)) a w = (Inr (), w') \<and>
     answered (ulid_ok r) w (retry_count m + int k) w' \<and>
     count_events is_start w' = count_events is_start w + Suc k \<and>
     count_events is_backoff w' = count_events is_backoff w + k"
proof (induction k arbitrary: a m w)
  case 0
  then have a: "a = j" by simp
  from answering_attempt [OF "0.prems"(2,1)] obtain w' where
    "run_attempt r j w = (Inr False, w')" "answered (ulid_ok r) w (retry_count m) w'"
    "count_events is_start w' = Suc (count_events is_start w)"
    "count_events is_backoff w' = count_events is_backoff w" .
  then show ?case
    by (intro exI [of _ w']) (simp add: a run_attempts_stop del: run_attempts.simps)
next
  case (Suc k)
  then have q: "quiet r" and a: "a < j" "a < max_retries r" by (auto simp: answers_def)
  obtain d where "invoke r a (seq (last (conversation w)) + 1) (started w) = (Timed_out d, started w)"
    using Suc.prems(1) a(1) unfolding answers_def by blast
  from timed_out_attempt [OF Suc.prems(2) q a(2) this] obtain m1 w1 where
    run: "run_attempt r a w = (Inr True, w1)" and wait: "awaiting_reply (ulid_ok r) m1 w1"
    and rc: "retry_count m1 = retry_count m + 1" and same: "conversation w1 = conversation w"
    "count_events is_start w1 = Suc (count_events is_start w)"
    "count_events is_backoff w1 = Suc (count_events is_backoff w)" .
  have "Suc a + k = j" using Suc.prems by simp
  from Suc.IH [OF Suc.prems(1) wait this] obtain w' where rest:
    "run_attempts r (Suc (max_retries r - Suc a)) (Suc a) w1 = (Inr (), w')"
    "answered (ulid_ok r) w1 (retry_count m1 + int k) w'"
    "count_events is_start w' = count_events is_start w1 + Suc k"
    "count_events is_backoff w' = count_events is_backoff w1 + k" by blast
  have "Suc (max_retries r - Suc a) = max_retries r - a" using a(2) by simp
  then have "run_attempts r (Suc (max_retries r - a)) a w = (Inr (), w')"
    using rest(1) by (simp only: run_attempts_again [OF run])
  moreover have "answered (ulid_ok r) w (retry_count m + int (Suc k)) w'"
    using rest(2) rc same by (simp add: answered_def add.assoc)
  ultimately show ?case using rest same
    by (intro exI [of _ w']) (simp del: run_attempts.simps)
qed

section \<open>Properties of the watcher\<close>

definition sample_runner :: "(nat \<Rightarrow> nat \<Rightarrow> thread_fs \<Rightarrow> invoke_outcome \<times> thread_fs) \<Rightarrow> runner" where
  "sample_runner session = \<lparr>ulid_ok = four, max_retries = 2,
     retry_backoff_seconds = [seconds 1, seconds 2], retry_jitter = 0, uniform = (\<lambda>_ l _. l),
     write_pin = (\<lambda>_ w. (True, w)), invoke = session, asleep = (\<lambda>_ w. w)\<rparr>"

lemma quiet_sample: "quiet (sample_runner session)"
  by (simp add: quiet_def sample_runner_def runner_ok_def)

lemma sample_waiting: "\<exists>m. awaiting_reply four m sample_thread \<and> retry_count m = 0"
  using sample_thread by (auto simp: awaiting_reply_def)

text \<open>C16. A session that always times out is started once and then once per retry, with a backoff
  before each retry, and the thread ends terminated as exhausted with the retries added to its
  count and its conversation untouched. The loop returns.\<close>

theorem run_thread_exhausts:
  assumes "silent r" and "awaiting_reply (ulid_ok r) m w"
  shows "\<exists>w' m'. run_thread r w = (Inr (), w') \<and> meta_file w' = Some m' \<and>
    exhausted m' (retry_count m + int (max_retries r)) \<and> conversation w' = conversation w \<and>
    count_events is_start w' = count_events is_start w + (max_retries r + 1) \<and>
    count_events is_backoff w' = count_events is_backoff w + max_retries r"
  using silent_attempts [OF assms, of 0 "max_retries r"]
  by (simp add: run_thread_def del: run_attempts.simps)

lemma run_thread_exhausts_witness:
  "\<exists>w' m'. run_thread (sample_runner (\<lambda>_ _ w. (Timed_out 5, w))) sample_thread = (Inr (), w') \<and>
    meta_file w' = Some m' \<and> exhausted m' 2"
proof -
  let ?r = "sample_runner (\<lambda>_ _ w. (Timed_out 5, w))"
  obtain m where m: "awaiting_reply (ulid_ok ?r) m sample_thread" "retry_count m = 0"
    using sample_waiting by (auto simp: sample_runner_def)
  have "silent ?r" by (simp add: silent_def quiet_sample) (simp add: sample_runner_def)
  from run_thread_exhausts [OF this m(1)] m(2) show ?thesis by (auto simp: sample_runner_def)
qed

text \<open>C15. A session that times out \<open>j\<close> times, at most as often as there are retries, and then
  answers leaves the thread active with claude.ai to speak, the reply appended under the next
  number, and the \<open>j\<close> retries on the count.\<close>

theorem run_thread_recovers:
  assumes "answers r j text" and "awaiting_reply (ulid_ok r) m w"
  shows "\<exists>w'. run_thread r w = (Inr (), w') \<and> answered (ulid_ok r) w (retry_count m + int j) w' \<and>
    count_events is_start w' = count_events is_start w + (j + 1) \<and>
    count_events is_backoff w' = count_events is_backoff w + j"
  using answers_attempts [OF assms, of 0 j]
  by (simp add: run_thread_def del: run_attempts.simps)

definition sample_session :: "nat \<Rightarrow> nat \<Rightarrow> thread_fs \<Rightarrow> invoke_outcome \<times> thread_fs" where
  "sample_session a n w =
     (if a < 2 then (Timed_out 5, w)
      else (Returned False (Some 9), snd (write_reply n Claude_code Claude_ai (lit ''done'') w)))"

lemma run_thread_recovers_witness:
  "\<exists>w'. run_thread (sample_runner sample_session) sample_thread = (Inr (), w') \<and>
    answered four sample_thread 2 w'"
proof -
  let ?r = "sample_runner sample_session"
  obtain m where m: "awaiting_reply (ulid_ok ?r) m sample_thread" "retry_count m = 0"
    using sample_waiting by (auto simp: sample_runner_def)
  have "answers ?r 2 (lit ''done'')"
    by (simp add: answers_def quiet_sample) (simp add: sample_runner_def sample_session_def)
  from run_thread_recovers [OF this m(1)] m(2) show ?thesis by (auto simp: sample_runner_def)
qed

text \<open>Whatever the session does to the thread meanwhile, one event starts at most one session
  per allowed attempt, as long as only the loop writes the event log.\<close>

theorem run_thread_starts_bounded:
  assumes "session_logs_nothing r"
  shows "count_events is_start (snd (run_thread r w)) \<le> count_events is_start w + (max_retries r + 1)"
  unfolding run_thread_def by (rule starts_run_attempts [OF assms])

lemma run_thread_starts_bounded_witness:
  "count_events is_start (snd (run_thread (sample_runner
     (\<lambda>_ _ w. (Failed, w\<lparr>meta_file := None\<rparr>))) sample_thread)) \<le> count_events is_start sample_thread + 3"
  using run_thread_starts_bounded [of "sample_runner (\<lambda>_ _ w. (Failed, w\<lparr>meta_file := None\<rparr>))" sample_thread]
  by (simp add: session_logs_nothing_def sample_runner_def)

text \<open>C21. Whatever another writer does during the session or the sleep, the loop leaves the meta
  file consistent if that writer does.\<close>

theorem run_thread_keeps_disk_ok:
  assumes "session_keeps disk_ok r" and "disk_ok w"
  shows "disk_ok (snd (run_thread r w))"
  unfolding run_thread_def by (rule keepsD [OF keeps_run_attempts [OF assms(1)] assms(2)])

lemma run_thread_keeps_disk_ok_witness:
  "disk_ok (snd (run_thread (sample_runner
     (\<lambda>_ _ w. (Timed_out 3, snd (transition_state Resolved None None None None w)))) sample_thread))"
proof (rule run_thread_keeps_disk_ok)
  show "session_keeps disk_ok (sample_runner
     (\<lambda>_ _ w. (Timed_out 3, snd (transition_state Resolved None None None None w))))"
    using keepsD [OF keeps_transition_state [OF rc_ok_None]]
    by (simp add: session_keeps_def sample_runner_def)
  show "disk_ok sample_thread" using sample_thread(1) by (simp add: thread_ok_def)
qed

text \<open>
  A reply that landed just before the last permitted attempt timed out: the loop does not look at the
  conversation again.
\<close>

definition replies_then_times_out :: "runner \<Rightarrow> pystr \<Rightarrow> bool" where
  "replies_then_times_out r text \<longleftrightarrow> quiet r \<and>
     (\<forall>a n w. a < max_retries r \<longrightarrow> (\<exists>d. invoke r a n w = (Timed_out d, w))) \<and>
     (\<forall>n w. \<exists>d. invoke r (max_retries r) n w =
        (Timed_out d, snd (write_reply n Claude_code Claude_ai text w)))"

lemma last_attempt_replies:
  assumes r: "replies_then_times_out r text" and wait: "awaiting_reply (ulid_ok r) m w"
  obtains w' m' reply where "run_attempt r (max_retries r) w = (Inr False, w')" "meta_file w' = Some m'"
    "exhausted m' (retry_count m)" "conversation w' = conversation w @ [reply]" "msg_from reply = Claude_code"
    "seq reply = seq (last (conversation w)) + 1"
    "count_events is_start w' = Suc (count_events is_start w)"
proof -
  have q: "quiet r" using r by (simp add: replies_then_times_out_def)
  let ?n = "seq (last (conversation w))" and ?a = "max_retries r"
  have s: "awaiting_reply (ulid_ok r) m (started w)" by (rule awaiting_reply_started [OF wait])
  have n: "?n + 1 = seq (last (conversation (started w))) + 1" by simp
  obtain w1 reply where wrote:
    "write_reply (?n + 1) Claude_code Claude_ai text (started w) = (Inr (msg_id reply), w1)"
    and "files_ok (ulid_ok r) w1"
    and conv: "conversation w1 = conversation (started w) @ [reply]" "seq reply = ?n + 1" "msg_from reply = Claude_code"
    and meta: "meta_file w1 = Some m" and log: "event_log w1 = event_log (started w)"
    by (rule write_reply_appends [OF s n])
  obtain d where out: "invoke r ?a (?n + 1) (started w) = (Timed_out d, w1)"
    using r wrote unfolding replies_then_times_out_def by (metis snd_conv)
  let ?w2 = "w1\<lparr>ticks := Suc (ticks w1),
      event_log := event_log w1 @ [ClaudeCodeInvokeEnd (clock w1 (ticks w1)) ?n (round_ms d) 1]\<rparr>"
  have w2: "meta_file ?w2 = Some m" using meta by simp
  obtain m' es k where h: "handle_transient_failure r ?a ?w2 =
       (Inr (), ?w2\<lparr>ticks := k, meta_file := Some m', event_log := event_log ?w2 @ es\<rparr>)"
    and m': "meta_ok m'" "status m' = Terminated" "retry_count m' = retry_count m"
    "terminated_reason m' = Some Retry_exhausted"
    and es: "filter is_start es = []" "filter is_backoff es = []"
    by (rule transient_failure_exhausts [OF w2 awaiting_replyD(2,4) [OF wait]])
  let ?w' = "?w2\<lparr>ticks := k, meta_file := Some m', event_log := event_log ?w2 @ es\<rparr>"
  have "run_attempt r ?a w = (Inr False, ?w')"
    using out h by (simp add: run_attempt_invokes [OF wait q] after_invoke_def invoke_end_def act_simps)
  then show thesis
    by (rule that) (use m' conv es log in \<open>auto simp: exhausted_def meta_ok_def count_events_def started_def\<close>)
qed

lemma replying_attempts:
  "replies_then_times_out r text \<Longrightarrow> awaiting_reply (ulid_ok r) m w \<Longrightarrow> a + k = max_retries r \<Longrightarrow>
   \<exists>w' m' reply. run_attempts r (Suc k) a w = (Inr (), w') \<and> meta_file w' = Some m' \<and>
     exhausted m' (retry_count m + int k) \<and> conversation w' = conversation w @ [reply] \<and> msg_from reply = Claude_code \<and>
     seq reply = seq (last (conversation w)) + 1 \<and> count_events is_start w' = count_events is_start w + Suc k"
proof (induction k arbitrary: a m w)
  case 0
  then have a: "a = max_retries r" by simp
  from last_attempt_replies [OF "0.prems"(1,2)] obtain w' m' reply where
    "run_attempt r (max_retries r) w = (Inr False, w')" "meta_file w' = Some m'" "exhausted m' (retry_count m)"
    "conversation w' = conversation w @ [reply]" "msg_from reply = Claude_code"
    "seq reply = seq (last (conversation w)) + 1" "count_events is_start w' = Suc (count_events is_start w)" .
  then show ?case
    by (intro exI [of _ w'] exI [of _ m'] exI [of _ reply]) (simp add: a run_attempts_stop del: run_attempts.simps)
next
  case (Suc k)
  then have q: "quiet r" and a: "a < max_retries r" by (auto simp: replies_then_times_out_def)
  obtain d where "invoke r a (seq (last (conversation w)) + 1) (started w) = (Timed_out d, started w)"
    using Suc.prems(1) a unfolding replies_then_times_out_def by blast
  from timed_out_attempt [OF Suc.prems(2) q a this] obtain m1 w1 where
    run: "run_attempt r a w = (Inr True, w1)" and wait: "awaiting_reply (ulid_ok r) m1 w1"
    and rc: "retry_count m1 = retry_count m + 1" and same: "conversation w1 = conversation w"
    "count_events is_start w1 = Suc (count_events is_start w)" .
  have "Suc a + k = max_retries r" using Suc.prems by simp
  from Suc.IH [OF Suc.prems(1) wait this] obtain w' m' reply where rest:
    "run_attempts r (Suc k) (Suc a) w1 = (Inr (), w')" "meta_file w' = Some m'"
    "exhausted m' (retry_count m1 + int k)" "conversation w' = conversation w1 @ [reply]" "msg_from reply = Claude_code"
    "seq reply = seq (last (conversation w1)) + 1" "count_events is_start w' = count_events is_start w1 + Suc k"
    by blast
  have "run_attempts r (Suc (Suc k)) a w = (Inr (), w')" using rest(1) by (simp only: run_attempts_again [OF run])
  then show ?case using rest(2-) same rc
    by (intro exI [of _ w'] exI [of _ m'] exI [of _ reply]) (simp add: add.assoc del: run_attempts.simps)
qed

text \<open>C22. When the last permitted attempt writes its reply and then times out, after all earlier attempts timed out in
  silence, the thread ends terminated as exhausted, with every retry on its count, although the reply stands in the conversation
  under the next number: the recovery of a reply that landed before a timeout runs only when another attempt follows. The
  number of retries is arbitrary; the thread awaits a reply of the session, and the run is otherwise undisturbed.\<close>

theorem reply_before_last_timeout_terminates:
  assumes "replies_then_times_out r text" and "awaiting_reply (ulid_ok r) m w"
  shows "\<exists>w' m' reply. run_thread r w = (Inr (), w') \<and> meta_file w' = Some m' \<and>
    exhausted m' (retry_count m + int (max_retries r)) \<and> conversation w' = conversation w @ [reply] \<and>
    msg_from reply = Claude_code \<and> seq reply = seq (last (conversation w)) + 1 \<and>
    count_events is_start w' = count_events is_start w + (max_retries r + 1)"
  using replying_attempts [OF assms, of 0 "max_retries r"]
  by (simp add: run_thread_def del: run_attempts.simps)

definition late_session :: "nat \<Rightarrow> nat \<Rightarrow> thread_fs \<Rightarrow> invoke_outcome \<times> thread_fs" where
  "late_session a n w =
     (if a < 2 then (Timed_out 5, w) else (Timed_out 5, snd (write_reply n Claude_code Claude_ai (lit ''done'') w)))"

lemma reply_before_last_timeout_terminates_witness:
  "\<exists>w' m' reply. run_thread (sample_runner late_session) sample_thread = (Inr (), w') \<and> meta_file w' = Some m' \<and>
    exhausted m' 2 \<and> conversation w' = conversation sample_thread @ [reply] \<and> msg_from reply = Claude_code"
proof -
  let ?r = "sample_runner late_session"
  obtain m where m: "awaiting_reply (ulid_ok ?r) m sample_thread" "retry_count m = 0"
    using sample_waiting by (auto simp: sample_runner_def)
  have "replies_then_times_out ?r (lit ''done'')"
    by (simp add: replies_then_times_out_def quiet_sample) (simp add: sample_runner_def late_session_def)
  from reply_before_last_timeout_terminates [OF this m(1)] m(2) show ?thesis by (auto simp: sample_runner_def)
qed

section \<open>Properties of the startup scan and the filter\<close>

lemma seq_holes_none:
  "sorted xs \<Longrightarrow> distinct xs \<Longrightarrow> xs \<noteq> [] \<Longrightarrow>
     seq_holes xs = [] \<longleftrightarrow> xs = [hd xs..<hd xs + length xs]"
proof (induction xs rule: seq_holes.induct)
  case (1 p c cs)
  then have IH: "seq_holes (c # cs) = [] \<longleftrightarrow> c # cs = [c..<c + length (c # cs)]" and lt: "p < c"
    by auto
  have cons: "[p..<p + length (p # c # cs)] = p # [Suc p..<Suc p + length (c # cs)]"
    by (subst upt_conv_Cons) simp_all
  show ?case
  proof (cases "c = Suc p")
    case True
    then have "seq_holes (p # c # cs) = seq_holes (c # cs)" by simp
    moreover have "p # c # cs = [p..<p + length (p # c # cs)] \<longleftrightarrow>
        c # cs = [c..<c + length (c # cs)]"
      by (subst cons) (simp only: True list.inject simp_thms)
    ultimately show ?thesis using IH by (simp only: list.sel)
  next
    case False
    then have "seq_holes (p # c # cs) \<noteq> []" using lt by simp
    moreover have "[Suc p..<Suc p + length (c # cs)] = Suc p # [Suc (Suc p)..<Suc p + length (c # cs)]"
      by (subst upt_conv_Cons) simp_all
    then have "p # c # cs \<noteq> [p..<p + length (p # c # cs)]"
      using False by (subst cons) simp
    ultimately show ?thesis by simp
  qed
qed auto

lemma duplicates_none: "filter (\<lambda>s. count_list xs s > 1) (remdups xs) = [] \<longleftrightarrow> distinct xs"
proof -
  have "filter (\<lambda>s. count_list xs s > 1) (remdups xs) = [] \<longleftrightarrow> (\<forall>x \<in> set xs. count_list xs x \<le> 1)"
    by (auto simp: filter_empty_conv not_less)
  also have "\<dots> \<longleftrightarrow> distinct xs"
  proof (induction xs)
    case (Cons x xs)
    have "(\<forall>y \<in> set (x # xs). count_list (x # xs) y \<le> 1) \<longleftrightarrow>
        x \<notin> set xs \<and> (\<forall>y \<in> set xs. count_list xs y \<le> 1)"
      using count_notin [of x xs] count_list_0_iff [of xs x] by (auto split: if_splits)
    with Cons.IH show ?case by simp
  qed simp
  finally show ?thesis .
qed

text \<open>On the messages as loaded, no anomaly is reported exactly when their numbers are consecutive
  from the first one on, each once.\<close>

theorem race_gap_none_iff_consecutive:
  assumes "messages \<noteq> []" and "sorted (map seq messages)"
  shows "detect_race_gap messages = None \<longleftrightarrow>
    map seq messages = [seq (hd messages)..<seq (hd messages) + length messages]"
proof (cases "distinct (map seq messages)")
  case True
  have "sort (filter (\<lambda>s. count_list (map seq messages) s > 1) (remdups (map seq messages))) = []"
    using duplicates_none [of "map seq messages"] True by simp
  then show ?thesis
    using assms seq_holes_none [OF assms(2) True] by (simp add: detect_race_gap_def Let_def hd_map)
next
  case False
  then have "sort (filter (\<lambda>s. count_list (map seq messages) s > 1) (remdups (map seq messages))) \<noteq> []"
    using duplicates_none [of "map seq messages"] by (metis set_empty set_sort)
  moreover have "map seq messages \<noteq> [seq (hd messages)..<seq (hd messages) + length messages]"
    using False by (metis distinct_upt)
  ultimately show ?thesis using assms(1) by (simp add: detect_race_gap_def Let_def)
qed

lemma race_gap_none_iff_consecutive_witness:
  "detect_race_gap (map (\<lambda>n. framed_message (lit ''01JQ'') n Claude_ai Claude_code 0 []) [3, 5]) \<noteq> None"
proof -
  let ?m = "map (\<lambda>n. framed_message (lit ''01JQ'') n Claude_ai Claude_code 0 []) [3, 5]"
  have seqs: "map seq ?m = [3, 5]" by (simp add: framed_message_def)
  then have "sorted (map seq ?m)" by simp
  moreover have "seq (hd ?m) = 3" "length ?m = 2" by (simp_all add: framed_message_def)
  ultimately show ?thesis
    using race_gap_none_iff_consecutive [of ?m] seqs by (auto simp: numeral_eq_Suc upt_conv_Cons)
qed

text \<open>The filter loses no event and drops an immediate repeat: of a stream of events, each
  \<open>(thread, number)\<close> gets through at least once, and a key just marked is seen for the lifetime of
  the cache, whatever its size.\<close>

theorem dedup_takes_each_key:
  assumes "new_dedup_cache t n = Some c" and "(k, u) \<in> set es"
  shows "(\<exists>u'. (k, u') \<in> set (watcher_dedup.take_events c es)) \<and>
    (v - u \<le> t \<longrightarrow> fst (seen_recently (dedup_mark (snd (seen_recently c k u)) k u) k v))"
proof -
  obtain n' where n: "n = Suc n'" using assms(1) by (cases n) (auto simp: new_dedup_cache_def split: if_splits)
  have c: "c = \<lparr>ttl = t, max_size = Suc n', seen_at = []\<rparr>"
    using assms(1) n by (auto simp: new_dedup_cache_def split: if_splits)
  have inv: "dedup_ok c \<and> ttl c = t" and unseen: "\<forall>u. \<not> fst (seen_recently c k u)"
    by (simp_all add: c dedup_ok_def seen_recently_def)
  from watcher_dedup.unseen_key_taken [OF inv assms(2) unseen]
    watcher_dedup.immediate_repeat_dropped [OF inv, of v u k]
  show ?thesis by blast
qed

lemma dedup_takes_each_key_witness:
  "\<exists>u'. ((lit ''T'', 1), u') \<in> set (watcher_dedup.take_events \<lparr>ttl = 5, max_size = 1, seen_at = []\<rparr>
      [((lit ''U'', 1), 0), ((lit ''T'', 1), 2), ((lit ''T'', 1), 3)])"
  using dedup_takes_each_key [of 5 1 "\<lparr>ttl = 5, max_size = 1, seen_at = []\<rparr>" "(lit ''T'', 1)" 2
      "[((lit ''U'', 1), 0), ((lit ''T'', 1), 2), ((lit ''T'', 1), 3)]"]
  by (simp add: new_dedup_cache_def)

end
