(* ===== verification/Sessions.thy ===== *)
theory Sessions
  imports Machines PyText
begin

text \<open>
  The session dispatcher: the session state machine (\<open>dispatcher/session_fsm.py\<close>), the adapter
  registry (\<open>dispatcher/registry.py\<close>), the bounded set of seen events (\<open>dispatcher/dedup.py\<close>) and the
  dispatcher itself (\<open>dispatcher/core.py\<close>) with the identifiers of \<open>value_objects.py\<close>. The ports
  (adapters, ChatRoom gateway, clone guard, pin writer, git hook) are parameters. Each answers as a
  function of everything observed so far, so their behaviour is arbitrary; what they are asked, in
  order, is the trace the dispatcher leaves.
\<close>

section \<open>Roles, sessions and their states\<close>

datatype role = Proposer | Naysayer | Implementer

fun role_value :: "role \<Rightarrow> pystr" where
  "role_value Proposer = lit ''proposer''"
| "role_value Naysayer = lit ''naysayer''"
| "role_value Implementer = lit ''implementer''"

definition mint_instance_id :: "role \<Rightarrow> pystr" where
  "mint_instance_id r = role_value r @ lit ''-1''"

datatype capability = Read_thread | Post_reply | Execute_code | Naysayer_qualified

datatype session_state = Idle | Processing | Halting | Halted | Session_failed

fun session_transitions :: "session_state \<Rightarrow> session_state set" where
  "session_transitions Idle = {Processing, Halting, Session_failed}"
| "session_transitions Processing = {Idle, Halting, Session_failed}"
| "session_transitions Halting = {Halted, Session_failed}"
| "session_transitions Halted = {}"
| "session_transitions Session_failed = {}"

definition SESSION_TERMINAL :: "session_state set" where
  "SESSION_TERMINAL = {Halted, Session_failed}"

definition HALT_NOOP_STATES :: "session_state set" where
  "HALT_NOOP_STATES = {Halted, Session_failed, Halting}"

definition is_halt_noop :: "session_state \<Rightarrow> bool" where
  "is_halt_noop s \<longleftrightarrow> s \<in> HALT_NOOP_STATES"

text \<open>A rejected move raises and leaves the state of the machine unchanged.\<close>

definition fsm_transition ::
    "session_state \<Rightarrow> (session_state, session_state \<times> session_state, session_state) act" where
  "fsm_transition new = (\<lambda>old.
     if new \<notin> session_transitions old then (Inl (old, new), old) else (Inr new, new))"

interpretation session_machine: final_machine session_transitions SESSION_TERMINAL
proof
  show "s \<in> SESSION_TERMINAL \<Longrightarrow> session_transitions s = {}" for s
    by (cases s) (simp_all add: SESSION_TERMINAL_def)
  show "s \<notin> session_transitions s" for s
    by (cases s) simp_all
qed

text \<open>
  A handle is compared by identity: \<open>handle_uid\<close> is the object, the other fields what it carries.
\<close>

record session_handle =
  handle_uid :: nat
  session_id :: pystr
  instance_id :: pystr
  handle_adapter :: pystr
  handle_thread :: pystr
  handle_role :: role

section \<open>The registry\<close>

record adapter =
  adapter_id :: pystr
  capabilities :: "capability list"

type_synonym registry = "(pystr \<times> adapter) list"

fun required_capabilities :: "role \<Rightarrow> capability set" where
  "required_capabilities Proposer = {Read_thread, Post_reply}"
| "required_capabilities Naysayer = {Read_thread, Post_reply, Naysayer_qualified}"
| "required_capabilities Implementer = {Read_thread, Post_reply, Execute_code}"

definition register_adapter :: "adapter \<Rightarrow> registry \<Rightarrow> pystr + registry" where
  "register_adapter a r =
     (if adapter_id a \<in> fst ` set r then Inl (adapter_id a)
      else Inr (dict_set (adapter_id a) a r))"

definition get_adapter :: "registry \<Rightarrow> pystr \<Rightarrow> pystr + adapter" where
  "get_adapter r i = (case map_of r i of None \<Rightarrow> Inl i | Some a \<Rightarrow> Inr a)"

definition qualified_for :: "registry \<Rightarrow> role \<Rightarrow> adapter list" where
  "qualified_for r ro =
     filter (\<lambda>a. required_capabilities ro \<subseteq> set (capabilities a)) (map snd r)"

section \<open>The bounded set of seen events\<close>

record event_dedup =
  dedup_max :: nat
  dedup_seen :: "pystr list"

definition new_event_dedup :: "nat \<Rightarrow> event_dedup option" where
  "new_event_dedup n = (if n < 1 then None else Some \<lparr>dedup_max = n, dedup_seen = []\<rparr>)"

definition event_seen :: "event_dedup \<Rightarrow> pystr \<Rightarrow> bool" where
  "event_seen d e \<longleftrightarrow> e \<in> set (dedup_seen d)"

definition event_mark :: "event_dedup \<Rightarrow> pystr \<Rightarrow> event_dedup" where
  "event_mark d e =
     (if e \<in> set (dedup_seen d)
      then d\<lparr>dedup_seen := removeAll e (dedup_seen d) @ [e]\<rparr>
      else let s = dedup_seen d @ [e]
           in d\<lparr>dedup_seen := (if length s > dedup_max d then tl s else s)\<rparr>)"

section \<open>The dispatcher\<close>

datatype exc = Cancelled_exc | Git_park pystr | Fault pystr

datatype dispatch_error =
    Unknown_session pystr
  | No_qualified_adapter role
  | Blank_instance_id
  | Raised exc

record reply_draft =
  draft_body :: pystr
  draft_reply_to :: "pystr option"

text \<open>What the dispatcher asks of its ports and logs, in order.\<close>

datatype observation =
    Spawned pystr pystr role pystr
  | Pin_ignored
  | Guard_checked
  | Pre_turn pystr
  | Pin_written role pystr
  | Delivered nat pystr "pystr option"
  | Posted nat pystr pystr "pystr option" pystr role
  | Logged_delivery_failed nat pystr exc
  | Logged_reply_sent nat pystr
  | Post_turn pystr pystr
  | Halt_asked nat

text \<open>
  An adapter's turn: it emits drafts through \<open>on_reply\<close>, sees whether posting raised, and finishes
  by returning or raising.
\<close>

datatype turn =
    Finish "exc option"
  | Emit reply_draft "exc option \<Rightarrow> turn"

record ports =
  spawn_port :: "observation list \<Rightarrow> pystr \<Rightarrow> pystr \<Rightarrow> role \<Rightarrow> pystr \<Rightarrow> exc + session_handle"
  clone_guard :: "((observation list \<Rightarrow> exc option) \<times> (observation list \<Rightarrow> exc option)) option"
  git_sync :: "((observation list \<Rightarrow> pystr \<Rightarrow> exc + pystr) \<times>
                (observation list \<Rightarrow> pystr \<Rightarrow> pystr \<Rightarrow> exc option)) option"
  pin_port :: "(observation list \<Rightarrow> exc option) option"
  deliver :: "observation list \<Rightarrow> session_handle \<Rightarrow> pystr \<Rightarrow> pystr option \<Rightarrow> turn"
  post_port :: "observation list \<Rightarrow> exc + pystr"
  halt_port :: "observation list \<Rightarrow> exc option"
  marker_lines :: "session_handle \<Rightarrow> pystr list"

record dispatch_session =
  session_adapter :: adapter
  sess_handle :: session_handle
  reply_seq :: nat

record dispatcher =
  adapters :: registry
  seen_events :: event_dedup
  sessions :: "(nat \<times> dispatch_session) list"
  trace :: "observation list"

type_synonym 'a disp_act = "(dispatcher, dispatch_error, 'a) act"

definition observe :: "observation \<Rightarrow> unit disp_act" where
  "observe ob = modify (\<lambda>s. s\<lparr>trace := trace s @ [ob]\<rparr>)"

definition raise_some :: "exc option \<Rightarrow> unit disp_act" where
  "raise_some x = (case x of None \<Rightarrow> ret () | Some e \<Rightarrow> raise (Raised e))"

text \<open>Ask a port after noting the request.\<close>

definition ask :: "observation \<Rightarrow> (observation list \<Rightarrow> exc option) \<Rightarrow> unit disp_act" where
  "ask ob f = andthen (observe ob) (\<lambda>_. andthen (gets trace) (\<lambda>tr. raise_some (f tr)))"

definition append_markers :: "pystr \<Rightarrow> pystr list \<Rightarrow> pystr" where
  "append_markers text markers =
     (if markers = [] then text
      else if text = [] then join [10] markers
      else rstrip text @ [10, 10] @ join [10] markers)"

definition spawn_instance ::
    "ports \<Rightarrow> pystr \<Rightarrow> role \<Rightarrow> pystr \<Rightarrow> session_handle disp_act" where
  "spawn_instance p thread ro inst =
     (if strip inst = [] then raise Blank_instance_id
      else andthen (gets adapters) (\<lambda>reg.
      case qualified_for reg ro of
        [] \<Rightarrow> raise (No_qualified_adapter ro)
      | a # _ \<Rightarrow>
          andthen (observe (Spawned (adapter_id a) thread ro inst)) (\<lambda>_.
          andthen (gets trace) (\<lambda>tr.
          case spawn_port p tr (adapter_id a) thread ro inst of
            Inl e \<Rightarrow> raise (Raised e)
          | Inr h \<Rightarrow>
              andthen (modify (\<lambda>s. s\<lparr>sessions := dict_set (handle_uid h)
                \<lparr>session_adapter = a, sess_handle = h, reply_seq = 0\<rparr> (sessions s)\<rparr>)) (\<lambda>_.
              ret h)))))"

definition idempotency_key :: "session_handle \<Rightarrow> nat \<Rightarrow> pystr" where
  "idempotency_key h n = session_id h @ lit '':'' @ decimal n"

text \<open>
  The reply number is taken before posting and stays taken when posting raises; what posting raised
  is the adapter's to see.
\<close>

definition handle_reply :: "ports \<Rightarrow> session_handle \<Rightarrow> reply_draft \<Rightarrow> exc option disp_act" where
  "handle_reply p h d =
     andthen (gets (\<lambda>s. map_of (sessions s) (handle_uid h))) (\<lambda>found.
     case found of
       None \<Rightarrow> raise (Unknown_session (session_id h))
     | Some sess \<Rightarrow>
         let n = reply_seq sess + 1; key = idempotency_key h n
         in andthen (modify (\<lambda>s. s\<lparr>sessions := dict_set (handle_uid h) (sess\<lparr>reply_seq := n\<rparr>) (sessions s)\<rparr>)) (\<lambda>_.
            andthen (observe (Posted (handle_uid h) (instance_id h)
              (append_markers (draft_body d) (marker_lines p h)) (draft_reply_to d) key (handle_role h))) (\<lambda>_.
            andthen (gets trace) (\<lambda>tr.
            case post_port p tr of
              Inl e \<Rightarrow> ret (Some e)
            | Inr posted \<Rightarrow> andthen (observe (Logged_reply_sent (handle_uid h) key)) (\<lambda>_. ret None)))))"

primrec run_turn :: "ports \<Rightarrow> session_handle \<Rightarrow> turn \<Rightarrow> unit disp_act" where
  "run_turn p h (Finish x) = raise_some x"
| "run_turn p h (Emit d k) = andthen (handle_reply p h d) (\<lambda>x. run_turn p h (k x))"

text \<open>\<open>dispatch\<close> up to its first suspension: lookup, the duplicate check and the mark are atomic.\<close>

definition admit :: "session_handle \<Rightarrow> pystr \<Rightarrow> bool disp_act" where
  "admit h ev = andthen (gets (\<lambda>s. s)) (\<lambda>s.
     if map_of (sessions s) (handle_uid h) = None then raise (Unknown_session (session_id h))
     else if event_seen (seen_events s) ev then ret False
     else andthen (modify (\<lambda>s. s\<lparr>seen_events := event_mark (seen_events s) ev\<rparr>)) (\<lambda>_. ret True))"

definition guard_clone :: "ports \<Rightarrow> unit disp_act" where
  "guard_clone p = (case clone_guard p of
     None \<Rightarrow> ret ()
   | Some (ensure, check) \<Rightarrow> andthen (ask Pin_ignored ensure) (\<lambda>_. ask Guard_checked check))"

definition deliver_event :: "ports \<Rightarrow> session_handle \<Rightarrow> pystr \<Rightarrow> pystr option \<Rightarrow> unit disp_act" where
  "deliver_event p h ev branch =
     andthen (case pin_port p of None \<Rightarrow> ret ()
              | Some f \<Rightarrow> ask (Pin_written (handle_role h) (handle_thread h)) f) (\<lambda>_.
     andthen (observe (Delivered (handle_uid h) ev branch)) (\<lambda>_.
     andthen (gets trace) (\<lambda>tr.
     handle_exc (run_turn p h (deliver p tr h ev branch))
       (\<lambda>x. case x of
              Raised Cancelled_exc \<Rightarrow> raise x
            | Raised e \<Rightarrow> andthen (observe (Logged_delivery_failed (handle_uid h) ev e)) (\<lambda>_. raise x)
            | _ \<Rightarrow> raise x))))"

text \<open>
  \<open>finally: post_turn\<close>. After a turn that returned, what \<open>post_turn\<close> raises propagates; after one
  that raised, the turn's own exception does, unless \<open>post_turn\<close> itself was cancelled.
\<close>

definition finally_post ::
    "(observation list \<Rightarrow> pystr \<Rightarrow> pystr \<Rightarrow> exc option) \<Rightarrow> pystr \<Rightarrow> pystr \<Rightarrow> unit disp_act \<Rightarrow> unit disp_act" where
  "finally_post post thread branch m = (\<lambda>s.
     let settle = ask (Post_turn thread branch) (\<lambda>tr. post tr thread branch)
     in case m s of
          (Inr _, s') \<Rightarrow> settle s'
        | (Inl e, s') \<Rightarrow>
            (case settle s' of
               (Inl (Raised Cancelled_exc), s'') \<Rightarrow> (Inl (Raised Cancelled_exc), s'')
             | (_, s'') \<Rightarrow> (Inl e, s'')))"

definition dispatch_turn :: "ports \<Rightarrow> session_handle \<Rightarrow> pystr \<Rightarrow> unit disp_act" where
  "dispatch_turn p h ev =
     andthen (guard_clone p) (\<lambda>_.
     case git_sync p of
       None \<Rightarrow> deliver_event p h ev None
     | Some (pre, post) \<Rightarrow>
         andthen (observe (Pre_turn (handle_thread h))) (\<lambda>_.
         andthen (gets trace) (\<lambda>tr.
         case pre tr (handle_thread h) of
           Inl e \<Rightarrow> raise (Raised e)
         | Inr branch \<Rightarrow>
             finally_post post (handle_thread h) branch (deliver_event p h ev (Some branch)))))"

definition dispatch :: "ports \<Rightarrow> session_handle \<Rightarrow> pystr \<Rightarrow> unit disp_act" where
  "dispatch p h ev = andthen (admit h ev) (\<lambda>fresh. if fresh then dispatch_turn p h ev else ret ())"

definition halt :: "ports \<Rightarrow> session_handle \<Rightarrow> unit disp_act" where
  "halt p h = andthen (gets (\<lambda>s. map_of (sessions s) (handle_uid h))) (\<lambda>found.
     if found = None then raise (Unknown_session (session_id h))
     else ask (Halt_asked (handle_uid h)) (halt_port p))"

text \<open>A failing halt is logged and the rest still run; a cancellation is not caught.\<close>

primrec halt_all :: "ports \<Rightarrow> session_handle list \<Rightarrow> unit disp_act" where
  "halt_all p [] = ret ()"
| "halt_all p (h # hs) =
     andthen (handle_exc (halt p h)
       (\<lambda>x. if x = Raised Cancelled_exc then raise x else ret ())) (\<lambda>_. halt_all p hs)"

definition aclose :: "ports \<Rightarrow> unit disp_act" where
  "aclose p = andthen (gets (\<lambda>s. map (sess_handle \<circ> snd) (sessions s))) (\<lambda>hs.
     andthen (halt_all p hs) (\<lambda>_. modify (\<lambda>s. s\<lparr>sessions := []\<rparr>)))"

section \<open>What the trace shows\<close>

lemma observe_run [act_simps]: "observe ob s = (Inr (), s\<lparr>trace := trace s @ [ob]\<rparr>)"
  by (simp add: observe_def act_simps)

lemma raise_some_run: "raise_some x s = ((case x of None \<Rightarrow> Inr () | Some e \<Rightarrow> Inl (Raised e)), s)"
  by (cases x) (simp_all add: raise_some_def act_simps)

lemma ask_run [act_simps]:
  "ask ob f s = (let s' = s\<lparr>trace := trace s @ [ob]\<rparr>
     in ((case f (trace s') of None \<Rightarrow> Inr () | Some e \<Rightarrow> Inl (Raised e)), s'))"
  by (simp add: ask_def act_simps raise_some_run Let_def)

lemma keeps_observe: "(\<And>s. P s \<Longrightarrow> P (s\<lparr>trace := trace s @ [ob]\<rparr>)) \<Longrightarrow> keeps P (observe ob)"
  by (simp add: keeps_def observe_run)

lemma keeps_ask: "(\<And>s. P s \<Longrightarrow> P (s\<lparr>trace := trace s @ [ob]\<rparr>)) \<Longrightarrow> keeps P (ask ob f)"
  by (simp add: keeps_def ask_run Let_def)

lemma keeps_raise_some [keeps_intros]: "keeps P (raise_some x)"
  by (simp add: keeps_def raise_some_run)

text \<open>The trace only grows, by observations allowed by \<open>ok\<close>.\<close>

definition grows :: "(observation \<Rightarrow> bool) \<Rightarrow> observation list \<Rightarrow> dispatcher \<Rightarrow> bool" where
  "grows ok tr s \<longleftrightarrow> (\<exists>mid. trace s = tr @ mid \<and> (\<forall>ob \<in> set mid. ok ob))"

lemma grows_refl [simp]: "grows ok (trace s) s"
  by (simp add: grows_def)

lemma grows_observe: "grows ok tr s \<Longrightarrow> ok ob \<Longrightarrow> grows ok tr (s\<lparr>trace := trace s @ [ob]\<rparr>)"
  by (auto simp: grows_def)

lemma grows_sessions [simp]: "grows ok tr (s\<lparr>sessions := x\<rparr>) = grows ok tr s"
  by (simp add: grows_def)

fun in_turn :: "observation \<Rightarrow> bool" where
  "in_turn (Pin_written _ _) = True"
| "in_turn (Delivered _ _ _) = True"
| "in_turn (Posted _ _ _ _ _ _) = True"
| "in_turn (Logged_delivery_failed _ _ _) = True"
| "in_turn (Logged_reply_sent _ _) = True"
| "in_turn _ = False"

lemma grows_handle_reply: "keeps (grows in_turn tr) (handle_reply p h d)"
  unfolding handle_reply_def Let_def
  by (intro keeps_intros)
    (auto intro!: keeps_intros keeps_observe grows_observe split: sum.splits)

lemma grows_run_turn: "keeps (grows in_turn tr) (run_turn p h t)"
  by (induction t) (auto intro!: keeps_intros grows_handle_reply)

lemma grows_deliver_event: "keeps (grows in_turn tr) (deliver_event p h ev b)"
  unfolding deliver_event_def
  by (intro keeps_intros)
    (auto intro!: keeps_intros keeps_observe keeps_ask grows_observe grows_run_turn
      split: option.splits dispatch_error.splits exc.splits)

text \<open>What closing the turn makes of the turn's result and of what \<open>post_turn\<close> raised.\<close>

fun closed_result :: "dispatch_error + unit \<Rightarrow> exc option \<Rightarrow> dispatch_error + unit" where
  "closed_result (Inr _) x = (case x of None \<Rightarrow> Inr () | Some e \<Rightarrow> Inl (Raised e))"
| "closed_result (Inl y) x = (if x = Some Cancelled_exc then Inl (Raised Cancelled_exc) else Inl y)"

lemma finally_post_run:
  "finally_post post th branch m s =
     (case m s of (r, s') \<Rightarrow>
        (closed_result r (post (trace s' @ [Post_turn th branch]) th branch),
         s'\<lparr>trace := trace s' @ [Post_turn th branch]\<rparr>))"
  by (auto simp: finally_post_def ask_run Let_def split: prod.splits sum.splits option.splits
      exc.splits)

section \<open>The reply keys\<close>

fun posted_key :: "nat \<Rightarrow> observation \<Rightarrow> pystr option" where
  "posted_key u (Posted u' _ _ _ key _) = (if u' = u then Some key else None)"
| "posted_key u _ = None"

definition posted_keys :: "observation list \<Rightarrow> nat \<Rightarrow> pystr list" where
  "posted_keys tr u = List.map_filter (posted_key u) tr"

lemma posted_keys_append [simp]:
  "posted_keys (tr @ tr') u = posted_keys tr u @ posted_keys tr' u"
  by (simp add: posted_keys_def map_filter_def)

lemma posted_keys_single:
  "posted_keys [ob] u = (case posted_key u ob of None \<Rightarrow> [] | Some k \<Rightarrow> [k])"
  by (simp add: posted_keys_def map_filter_def split: option.splits)

definition keys_ok :: "dispatcher \<Rightarrow> bool" where
  "keys_ok s \<longleftrightarrow> (\<forall>u sess. map_of (sessions s) u = Some sess \<longrightarrow>
     handle_uid (sess_handle sess) = u \<and>
     posted_keys (trace s) u = map (idempotency_key (sess_handle sess)) [1..<Suc (reply_seq sess)])"

text \<open>Handles are compared by identity, so a session found under a handle is that handle's.\<close>

definition holds :: "session_handle \<Rightarrow> dispatcher \<Rightarrow> bool" where
  "holds h s \<longleftrightarrow> (\<forall>sess. map_of (sessions s) (handle_uid h) = Some sess \<longrightarrow> sess_handle sess = h)"

definition keyed :: "session_handle \<Rightarrow> dispatcher \<Rightarrow> bool" where
  "keyed h s \<longleftrightarrow> keys_ok s \<and> holds h s"

fun no_post :: "observation \<Rightarrow> bool" where
  "no_post (Posted _ _ _ _ _ _) = False"
| "no_post _ = True"

lemma posted_key_no_post: "no_post ob \<Longrightarrow> posted_key u ob = None"
  by (cases ob) simp_all

lemma keyed_observe: "no_post ob \<Longrightarrow> keyed h s \<Longrightarrow> keyed h (s\<lparr>trace := trace s @ [ob]\<rparr>)"
  by (simp add: keyed_def keys_ok_def holds_def posted_keys_single posted_key_no_post)

lemma keyed_observe_step: "no_post ob \<Longrightarrow> keeps (keyed h) (observe ob)"
  by (rule keeps_observe) (rule keyed_observe)

lemma keyed_ask: "no_post ob \<Longrightarrow> keeps (keyed h) (ask ob f)"
  by (rule keeps_ask) (rule keyed_observe)

lemma keyed_post:
  assumes "keyed h s" and found: "map_of (sessions s) (handle_uid h) = Some sess"
  shows "keyed h (s\<lparr>sessions := dict_set (handle_uid h) (sess\<lparr>reply_seq := reply_seq sess + 1\<rparr>) (sessions s),
    trace := trace s @ [Posted (handle_uid h) a b r (idempotency_key h (reply_seq sess + 1)) ro]\<rparr>)"
proof -
  have h: "sess_handle sess = h" using assms by (simp add: keyed_def holds_def)
  have keys: "posted_keys (trace s) (handle_uid h) = map (idempotency_key h) [1..<Suc (reply_seq sess)]"
    using assms h by (auto simp: keyed_def keys_ok_def)
  show ?thesis
    using assms h keys by (auto simp: keyed_def keys_ok_def holds_def posted_keys_single)
qed

lemma keyed_handle_reply: "keeps (keyed h) (handle_reply p h d)"
proof (rule keepsI)
  fix s assume k: "keyed h s"
  show "keyed h (snd (handle_reply p h d s))"
  proof (cases "map_of (sessions s) (handle_uid h)")
    case None
    with k show ?thesis by (simp add: handle_reply_def act_simps)
  next
    case (Some sess)
    let ?s = "s\<lparr>sessions := dict_set (handle_uid h) (sess\<lparr>reply_seq := reply_seq sess + 1\<rparr>) (sessions s),
      trace := trace s @ [Posted (handle_uid h) (instance_id h)
        (append_markers (draft_body d) (marker_lines p h)) (draft_reply_to d)
        (idempotency_key h (reply_seq sess + 1)) (handle_role h)]\<rparr>"
    have s: "keyed h ?s" by (rule keyed_post [OF k Some])
    show ?thesis
    proof (cases "post_port p (trace ?s)")
      case (Inl e)
      then show ?thesis using s Some by (simp add: handle_reply_def act_simps Let_def)
    next
      case (Inr posted)
      then have "snd (handle_reply p h d s) = ?s\<lparr>trace := trace ?s @
          [Logged_reply_sent (handle_uid h) (idempotency_key h (reply_seq sess + 1))]\<rparr>"
        using Some by (simp add: handle_reply_def act_simps Let_def)
      then show ?thesis by (simp only:) (rule keyed_observe [OF _ s], simp)
    qed
  qed
qed

lemma keyed_run_turn: "keeps (keyed h) (run_turn p h t)"
  by (induction t) (auto intro!: keeps_intros keyed_handle_reply)

lemma keyed_deliver_event: "keeps (keyed h) (deliver_event p h ev b)"
  unfolding deliver_event_def
  by (intro keeps_intros)
    (auto intro!: keeps_intros keyed_observe_step keyed_ask keyed_run_turn
      split: option.splits dispatch_error.splits exc.splits)

lemma keyed_finally_post:
  assumes "keeps (keyed h) m"
  shows "keeps (keyed h) (finally_post post th b m)"
proof (rule keepsI)
  fix s assume "keyed h s"
  then have "keyed h (snd (m s))" by (rule keepsD [OF assms])
  then show "keyed h (snd (finally_post post th b m s))"
    by (cases "m s") (simp add: finally_post_run keyed_observe)
qed

lemma keyed_dispatch: "keeps (keyed h) (dispatch p h ev)"
proof -
  have "keeps (keyed h) (guard_clone p)"
    unfolding guard_clone_def by (auto intro!: keeps_intros keyed_ask split: option.splits)
  moreover have "keeps (keyed h) (admit h ev)"
    unfolding admit_def
    by (intro keeps_intros) (simp add: keyed_def keys_ok_def holds_def)
  ultimately show ?thesis
    unfolding dispatch_def dispatch_turn_def
    by (intro keeps_intros)
      (auto intro!: keeps_intros keyed_observe_step keyed_finally_post keyed_deliver_event
        split: option.splits prod.splits sum.splits)
qed

section \<open>Reachable dispatchers\<close>

text \<open>An adapter's \<open>spawn\<close> makes a new handle object: nothing was posted under it yet.\<close>

definition fresh_handles :: "ports \<Rightarrow> bool" where
  "fresh_handles p \<longleftrightarrow>
     (\<forall>tr a th ro i h. spawn_port p tr a th ro i = Inr h \<longrightarrow> posted_keys tr (handle_uid h) = [])"

inductive dispatcher_step :: "ports \<Rightarrow> dispatcher \<Rightarrow> dispatcher \<Rightarrow> bool" for p where
  step_spawn: "dispatcher_step p s (snd (spawn_instance p th ro i s))"
| step_dispatch: "holds h s \<Longrightarrow> dispatcher_step p s (snd (dispatch p h ev s))"
| step_halt: "dispatcher_step p s (snd (halt p h s))"
| step_close: "dispatcher_step p s (snd (aclose p s))"

definition new_dispatcher :: "registry \<Rightarrow> nat \<Rightarrow> dispatcher" where
  "new_dispatcher reg n = \<lparr>adapters = reg, seen_events = \<lparr>dedup_max = n, dedup_seen = []\<rparr>,
     sessions = [], trace = []\<rparr>"

lemma keys_ok_observe: "no_post ob \<Longrightarrow> keys_ok s \<Longrightarrow> keys_ok (s\<lparr>trace := trace s @ [ob]\<rparr>)"
  by (simp add: keys_ok_def posted_keys_single posted_key_no_post)

lemma keys_ok_halt: "keeps keys_ok (halt p h)"
  unfolding halt_def by (intro keeps_intros keeps_ask keys_ok_observe) simp_all

lemma keys_ok_halt_all: "keeps keys_ok (halt_all p hs)"
  by (induction hs) (auto intro!: keeps_intros keys_ok_halt)

lemma keys_ok_aclose: "keeps keys_ok (aclose p)"
  unfolding aclose_def
  by (intro keeps_intros keys_ok_halt_all) (simp add: keys_ok_def)

lemma keys_ok_spawn:
  assumes "fresh_handles p"
  shows "keeps keys_ok (spawn_instance p th ro i)"
proof (rule keepsI)
  fix s assume ok: "keys_ok s"
  show "keys_ok (snd (spawn_instance p th ro i s))"
  proof (cases "strip i = [] \<or> qualified_for (adapters s) ro = []")
    case True
    with ok show ?thesis by (auto simp: spawn_instance_def act_simps)
  next
    case False
    then obtain a as where a: "qualified_for (adapters s) ro = a # as"
      by (cases "qualified_for (adapters s) ro") auto
    let ?s = "s\<lparr>trace := trace s @ [Spawned (adapter_id a) th ro i]\<rparr>"
    have s: "keys_ok ?s" by (rule keys_ok_observe [OF _ ok]) simp
    show ?thesis
    proof (cases "spawn_port p (trace ?s) (adapter_id a) th ro i")
      case (Inl e)
      with False a s show ?thesis by (simp add: spawn_instance_def act_simps)
    next
      case (Inr h)
      then have "posted_keys (trace ?s) (handle_uid h) = []"
        using assms unfolding fresh_handles_def by blast
      with Inr False a s show ?thesis by (auto simp: spawn_instance_def act_simps keys_ok_def)
    qed
  qed
qed

lemma keys_ok_step:
  assumes "fresh_handles p"
  shows "dispatcher_step p s s' \<Longrightarrow> keys_ok s \<Longrightarrow> keys_ok s'"
proof (induction rule: dispatcher_step.induct)
  case (step_dispatch h s ev)
  then have "keyed h (snd (dispatch p h ev s))"
    by (intro keepsD [OF keyed_dispatch]) (simp add: keyed_def)
  then show ?case by (simp add: keyed_def)
qed (blast intro: keepsD keys_ok_spawn [OF assms] keys_ok_halt keys_ok_aclose)+

lemma keys_ok_path:
  assumes "fresh_handles p"
  shows "(dispatcher_step p)\<^sup>*\<^sup>* (new_dispatcher reg n) s \<Longrightarrow> keys_ok s"
proof (induction rule: rtranclp_induct)
  case base
  then show ?case by (simp add: new_dispatcher_def keys_ok_def)
next
  case (step y z)
  then show ?case using keys_ok_step [OF assms] by blast
qed

lemma idempotency_key_inject: "idempotency_key h m = idempotency_key h n \<longleftrightarrow> m = n"
  by (simp add: idempotency_key_def)

section \<open>The window of seen events\<close>

definition event_dedup_ok :: "event_dedup \<Rightarrow> bool" where
  "event_dedup_ok d \<longleftrightarrow> 1 \<le> dedup_max d \<and> distinct (dedup_seen d) \<and> length (dedup_seen d) \<le> dedup_max d"

lemma dedup_max_mark [simp]: "dedup_max (event_mark d e) = dedup_max d"
  by (simp add: event_mark_def Let_def)

lemma length_removeAll_distinct:
  "distinct xs \<Longrightarrow> e \<in> set xs \<Longrightarrow> Suc (length (removeAll e xs)) = length xs"
  using length_pos_if_in_set [of e xs]
  by (simp add: distinct_remove1_removeAll [symmetric] length_remove1)

lemma event_dedup_ok_mark: "event_dedup_ok d \<Longrightarrow> event_dedup_ok (event_mark d e)"
proof (cases "e \<in> set (dedup_seen d)")
  case True
  moreover assume "event_dedup_ok d"
  ultimately show ?thesis
    using length_removeAll_distinct [of "dedup_seen d" e]
    by (auto simp: event_mark_def event_dedup_ok_def distinct_removeAll)
next
  case False
  moreover assume "event_dedup_ok d"
  ultimately show ?thesis
    by (auto simp: event_mark_def event_dedup_ok_def Let_def distinct_tl
        dest: in_tlD split: if_splits)
qed

text \<open>The entries younger than \<open>e\<close>.\<close>

definition younger :: "event_dedup \<Rightarrow> pystr \<Rightarrow> pystr set \<Rightarrow> bool" where
  "younger d e S \<longleftrightarrow> (\<exists>xs ys. dedup_seen d = xs @ e # ys \<and> set ys \<subseteq> S)"

lemma youngerI: "dedup_seen d = xs @ e # ys \<Longrightarrow> set ys \<subseteq> S \<Longrightarrow> younger d e S"
  by (auto simp: younger_def)

lemma younger_mark_self: "event_dedup_ok d \<Longrightarrow> younger (event_mark d e) e {}"
proof -
  assume ok: "event_dedup_ok d"
  show ?thesis
  proof (cases "e \<in> set (dedup_seen d)")
    case True
    then show ?thesis by (simp add: event_mark_def younger_def)
  next
    case False
    then show ?thesis using ok
      by (cases "dedup_seen d") (auto simp: event_mark_def younger_def Let_def event_dedup_ok_def)
  qed
qed

lemma younger_mark_other:
  assumes ok: "event_dedup_ok d" and y: "younger d e S" and ne: "x \<noteq> e" and fin: "finite S"
    and room: "card (insert x S) < dedup_max d"
  shows "younger (event_mark d x) e (insert x S)"
proof -
  from y obtain xs ys where d: "dedup_seen d = xs @ e # ys" and ys: "set ys \<subseteq> S"
    by (auto simp: younger_def)
  show ?thesis
  proof (cases "x \<in> set (dedup_seen d)")
    case True
    then have "dedup_seen (event_mark d x) = removeAll x xs @ e # (removeAll x ys @ [x])"
      using d ne by (auto simp: event_mark_def)
    then show ?thesis by (rule youngerI) (use ys in auto)
  next
    case False
    have "distinct (ys @ [x])" using ok d False by (auto simp: event_dedup_ok_def)
    then have "length (ys @ [x]) = card (set (ys @ [x]))" by (rule distinct_card [symmetric])
    also have "\<dots> \<le> card (insert x S)" using ys fin by (intro card_mono) auto
    finally have len: "length ys + 1 < dedup_max d" using room by simp
    show ?thesis
    proof (cases xs)
      case Nil
      then have "dedup_seen (event_mark d x) = [] @ e # (ys @ [x])"
        using d False len by (simp add: event_mark_def)
      then show ?thesis by (rule youngerI) (use ys in auto)
    next
      case (Cons z zs)
      then have "dedup_seen (event_mark d x) = xs @ e # (ys @ [x]) \<or>
          dedup_seen (event_mark d x) = zs @ e # (ys @ [x])"
        using d False by (simp add: event_mark_def Let_def)
      then show ?thesis
        by (elim disjE; intro youngerI [of _ _ e "ys @ [x]"]) (use ys in auto)
    qed
  qed
qed

lemma younger_marks:
  "event_dedup_ok d \<Longrightarrow> younger d e S \<Longrightarrow> finite S \<Longrightarrow> e \<notin> set evs \<Longrightarrow>
     card (S \<union> set evs) < dedup_max d \<Longrightarrow>
     younger (foldl event_mark d evs) e (S \<union> set evs)"
proof (induction evs arbitrary: d S)
  case (Cons x evs)
  have "card (insert x S) \<le> card (S \<union> set (x # evs))"
    using Cons.prems by (intro card_mono) auto
  then have "younger (event_mark d x) e (insert x S)"
    using Cons.prems by (intro younger_mark_other) auto
  from Cons.IH [OF event_dedup_ok_mark [OF Cons.prems(1)] this] Cons.prems
  show ?case by simp
qed simp

interpretation session_dedup: taken_events "\<lparr>dedup_max = Suc n, dedup_seen = []\<rparr>"
    "\<lambda>d e (_ :: unit). (event_seen d e, d)" "\<lambda>d e _. event_mark d e" "\<lambda>_ _. True" event_dedup_ok for n
proof
  show "event_dedup_ok \<lparr>dedup_max = Suc n, dedup_seen = []\<rparr>" by (simp add: event_dedup_ok_def)
  show "fst (event_seen (event_mark d e) e, event_mark d e)" if "event_dedup_ok d" for d e
    using younger_mark_self [OF that, of e] by (auto simp: younger_def event_seen_def)
  show "k' \<noteq> k \<Longrightarrow> fst (event_seen (event_mark d k) k', event_mark d k) \<Longrightarrow>
      fst (event_seen d k', d)" for d k k'
    by (auto simp: event_seen_def event_mark_def Let_def dest: in_tlD split: if_splits)
qed (simp_all add: event_dedup_ok_mark event_seen_def)

section \<open>Properties of sessions\<close>

definition sample_handle :: session_handle where
  "sample_handle = \<lparr>handle_uid = 1, session_id = lit ''S1'', instance_id = lit ''naysayer-1'',
     handle_adapter = lit ''sdk'', handle_thread = lit ''T1'', handle_role = Naysayer\<rparr>"

definition sample_adapter :: adapter where
  "sample_adapter = \<lparr>adapter_id = lit ''sdk'',
     capabilities = [Read_thread, Post_reply, Naysayer_qualified]\<rparr>"

definition sample_ports :: ports where
  "sample_ports = \<lparr>
     spawn_port = (\<lambda>tr _ _ _ _. if tr = [Spawned (lit ''sdk'') (lit ''T1'') Naysayer (lit ''naysayer-1'')]
                             then Inr sample_handle else Inl (Fault [])),
     clone_guard = Some (\<lambda>_. None, \<lambda>_. None),
     git_sync = Some (\<lambda>_ _. Inr (lit ''b''), \<lambda>_ _ _. Some (Git_park (lit ''dirty''))),
     pin_port = Some (\<lambda>_. None),
     deliver = (\<lambda>_ _ _ _. Emit \<lparr>draft_body = lit ''one'', draft_reply_to = None\<rparr>
       (\<lambda>_. Emit \<lparr>draft_body = lit ''two'', draft_reply_to = None\<rparr> (\<lambda>_. Finish (Some (Fault (lit ''boom'')))))),
     post_port = (\<lambda>_. Inr (lit ''m1'')),
     halt_port = (\<lambda>_. None),
     marker_lines = (\<lambda>_. [])\<rparr>"

definition sample_dispatcher :: dispatcher where
  "sample_dispatcher = new_dispatcher [(lit ''sdk'', sample_adapter)] 2"

text \<open>C27. Along every run of the dispatcher, the replies posted under a live session carry the keys
  of numbers 1, 2, 3, ... in the order posted, failed posts included: no key is ever used twice.\<close>

theorem reply_keys_consecutive:
  assumes "fresh_handles p" and "(dispatcher_step p)\<^sup>*\<^sup>* (new_dispatcher reg n) s"
    and "map_of (sessions s) u = Some sess"
  shows "posted_keys (trace s) u = map (idempotency_key (sess_handle sess)) [1..<Suc (reply_seq sess)] \<and>
    distinct (posted_keys (trace s) u)"
proof
  show keys: "posted_keys (trace s) u = map (idempotency_key (sess_handle sess)) [1..<Suc (reply_seq sess)]"
    using keys_ok_path [OF assms(1,2)] assms(3) by (simp only: keys_ok_def)
  show "distinct (posted_keys (trace s) u)"
    unfolding keys by (simp only: distinct_map inj_on_def idempotency_key_inject) simp
qed

lemma sample_fresh: "fresh_handles sample_ports"
  by (auto simp: fresh_handles_def sample_ports_def posted_keys_single split: if_splits)

lemma sample_qualified: "qualified_for [(lit ''sdk'', sample_adapter)] Naysayer = [sample_adapter]"
  by (simp add: qualified_for_def sample_adapter_def)

lemma sample_spawned:
  "spawn_instance sample_ports (lit ''T1'') Naysayer (lit ''naysayer-1'') sample_dispatcher =
     (Inr sample_handle, sample_dispatcher\<lparr>trace := [Spawned (lit ''sdk'') (lit ''T1'') Naysayer (lit ''naysayer-1'')],
        sessions := [(1, \<lparr>session_adapter = sample_adapter, sess_handle = sample_handle, reply_seq = 0\<rparr>)]\<rparr>)"
proof -
  have "strip (lit ''naysayer-1'') \<noteq> []"
    by (simp add: strip_eq_Nil_iff blank_def text_simps is_space_def)
  then show ?thesis
    by (simp add: spawn_instance_def sample_dispatcher_def new_dispatcher_def act_simps sample_qualified
        sample_ports_def)
      (simp add: sample_adapter_def sample_handle_def)
qed

definition sample_run :: dispatcher where
  "sample_run = snd (dispatch sample_ports sample_handle (lit ''e1'')
     (snd (spawn_instance sample_ports (lit ''T1'') Naysayer (lit ''naysayer-1'') sample_dispatcher)))"

lemma sample_run_path: "(dispatcher_step sample_ports)\<^sup>*\<^sup>* (new_dispatcher [(lit ''sdk'', sample_adapter)] 2) sample_run"
proof -
  let ?s = "snd (spawn_instance sample_ports (lit ''T1'') Naysayer (lit ''naysayer-1'') sample_dispatcher)"
  have "holds sample_handle ?s" by (simp add: holds_def sample_spawned)
  then have "dispatcher_step sample_ports ?s sample_run"
    unfolding sample_run_def by (rule step_dispatch)
  moreover have "dispatcher_step sample_ports sample_dispatcher ?s" by (rule step_spawn)
  ultimately show ?thesis
    unfolding sample_dispatcher_def by (meson r_into_rtranclp rtranclp.rtrancl_into_rtrancl)
qed

lemma sample_run_session:
  "map_of (sessions sample_run) 1 = Some \<lparr>session_adapter = sample_adapter, sess_handle = sample_handle, reply_seq = 2\<rparr>"
  unfolding sample_run_def sample_spawned snd_conv
  by (simp add: dispatch_def admit_def dispatch_turn_def guard_clone_def deliver_event_def
      handle_exc_def andthen_run finally_post_run handle_reply_def act_simps sample_ports_def
      sample_dispatcher_def new_dispatcher_def event_seen_def raise_some_run Let_def sample_handle_def)

lemma reply_keys_consecutive_witness:
  "posted_keys (trace sample_run) 1 = [lit ''S1:1'', lit ''S1:2'']"
  using reply_keys_consecutive [OF sample_fresh sample_run_path sample_run_session]
  by (simp add: idempotency_key_def sample_handle_def decimal.simps text_simps numeral_2_eq_2)

text \<open>C28. Once git put the clone on the thread's branch, the turn is always closed: whatever pin
  write, delivery and replies do, the last observation is the one \<open>post_turn\<close>, after everything the
  turn did; and an exception of the turn is what \<open>dispatch\<close> raises, even if \<open>post_turn\<close> raises too,
  a cancellation apart.\<close>

theorem turn_always_closed:
  assumes "git_sync p = Some (pre, post)" and "guard_clone p s = (Inr (), s1)"
    and "pre (trace s1 @ [Pre_turn (handle_thread h)]) (handle_thread h) = Inr branch"
  shows "\<exists>inner mid s'. dispatch_turn p h ev s =
      (closed_result inner (post (trace s') (handle_thread h) branch), s') \<and>
    inner = fst (deliver_event p h ev (Some branch)
                   (s1\<lparr>trace := trace s1 @ [Pre_turn (handle_thread h)]\<rparr>)) \<and>
    trace s' = trace s1 @ Pre_turn (handle_thread h) # mid @ [Post_turn (handle_thread h) branch] \<and>
    (\<forall>ob \<in> set mid. in_turn ob)"
proof -
  let ?th = "handle_thread h" and ?s2 = "s1\<lparr>trace := trace s1 @ [Pre_turn (handle_thread h)]\<rparr>"
  obtain r s3 where inner: "deliver_event p h ev (Some branch) ?s2 = (r, s3)" by fastforce
  have "grows in_turn (trace ?s2) s3"
    by (rule keepsD2 [OF grows_deliver_event grows_refl inner])
  then obtain mid where mid: "trace s3 = trace ?s2 @ mid" "\<forall>ob \<in> set mid. in_turn ob"
    by (auto simp: grows_def)
  let ?s' = "s3\<lparr>trace := trace s3 @ [Post_turn ?th branch]\<rparr>"
  have "dispatch_turn p h ev s = finally_post post ?th branch (deliver_event p h ev (Some branch)) ?s2"
    using assms by (simp add: dispatch_turn_def act_simps)
  then have "dispatch_turn p h ev s = (closed_result r (post (trace ?s') ?th branch), ?s')"
    by (simp add: finally_post_run inner)
  then show ?thesis
    by (intro exI [of _ r] exI [of _ mid] exI [of _ ?s']) (use mid inner in simp)
qed

lemma turn_always_closed_witness:
  "\<exists>mid s'. dispatch_turn sample_ports sample_handle (lit ''e1'') sample_dispatcher =
     (Inl (Unknown_session (lit ''S1'')), s') \<and>
     trace s' = [Pin_ignored, Guard_checked, Pre_turn (lit ''T1'')] @ mid @ [Post_turn (lit ''T1'') (lit ''b'')]"
proof -
  let ?s1 = "sample_dispatcher\<lparr>trace := [Pin_ignored, Guard_checked]\<rparr>"
  have git: "git_sync sample_ports = Some (\<lambda>_ _. Inr (lit ''b''), \<lambda>_ _ _. Some (Git_park (lit ''dirty'')))"
    and guard: "guard_clone sample_ports sample_dispatcher = (Inr (), ?s1)"
    by (simp_all add: sample_ports_def guard_clone_def act_simps sample_dispatcher_def new_dispatcher_def)
  have inner: "fst (deliver_event sample_ports sample_handle (lit ''e1'') (Some (lit ''b''))
      (?s1\<lparr>trace := trace ?s1 @ [Pre_turn (handle_thread sample_handle)]\<rparr>)) = Inl (Unknown_session (lit ''S1''))"
    by (simp add: deliver_event_def sample_ports_def act_simps handle_exc_def andthen_run handle_reply_def
        sample_dispatcher_def new_dispatcher_def sample_handle_def)
  from turn_always_closed [OF git guard, where h = sample_handle and branch = "lit ''b''" and ev = "lit ''e1''"]
  obtain mid s' where t: "dispatch_turn sample_ports sample_handle (lit ''e1'') sample_dispatcher =
      (closed_result (Inl (Unknown_session (lit ''S1''))) (Some (Git_park (lit ''dirty''))), s')"
    "trace s' = trace ?s1 @ Pre_turn (handle_thread sample_handle) # mid @
      [Post_turn (handle_thread sample_handle) (lit ''b'')]"
    unfolding inner by blast
  then show ?thesis
    by (intro exI [of _ mid] exI [of _ s']) (simp add: sample_handle_def [THEN arg_cong [of _ _ handle_thread]])
qed

text \<open>A clone the guard refuses is left alone: nothing is written, checked out or delivered.\<close>

theorem refused_clone_untouched:
  assumes "guard_clone p s = (Inl x, s1)"
  shows "dispatch_turn p h ev s = (Inl x, s1) \<and>
    trace s1 \<in> {trace s @ [Pin_ignored], trace s @ [Pin_ignored, Guard_checked]}"
  using assms
  by (auto simp: dispatch_turn_def guard_clone_def andthen_run ask_run ret_run Let_def
      split: option.splits prod.splits sum.splits)

lemma refused_clone_untouched_witness:
  "trace (snd (dispatch_turn (sample_ports\<lparr>clone_guard := Some (\<lambda>_. None, \<lambda>_. Some (Fault (lit ''dirty'')))\<rparr>)
     sample_handle (lit ''e1'') sample_dispatcher)) \<in> {[Pin_ignored], [Pin_ignored, Guard_checked]}"
  using refused_clone_untouched [of "sample_ports\<lparr>clone_guard := Some (\<lambda>_. None, \<lambda>_. Some (Fault (lit ''dirty'')))\<rparr>"
      sample_dispatcher "Raised (Fault (lit ''dirty''))"
      "sample_dispatcher\<lparr>trace := [Pin_ignored, Guard_checked]\<rparr>" sample_handle "lit ''e1''"]
  by (simp add: guard_clone_def act_simps sample_dispatcher_def new_dispatcher_def)

lemma find_first_of_filter: "filter P xs = a # as \<Longrightarrow> find P xs = Some a \<and> P a"
  by (induction xs) (auto split: if_splits)

text \<open>A session is spawned by the first registered adapter that has every capability its role
  requires; in particular a naysayer never runs on an adapter that is not qualified for it.\<close>

theorem spawn_uses_first_qualified:
  assumes "spawn_instance p th ro i s = (Inr h, s')"
  shows "\<exists>a. find (\<lambda>a. required_capabilities ro \<subseteq> set (capabilities a)) (map snd (adapters s)) = Some a \<and>
    map_of (sessions s') (handle_uid h) = Some \<lparr>session_adapter = a, sess_handle = h, reply_seq = 0\<rparr> \<and>
    (ro = Naysayer \<longrightarrow> Naysayer_qualified \<in> set (capabilities a))"
proof -
  let ?q = "\<lambda>a. required_capabilities ro \<subseteq> set (capabilities a)"
  obtain a as where a: "qualified_for (adapters s) ro = a # as"
    using assms by (cases "qualified_for (adapters s) ro")
      (auto simp: spawn_instance_def act_simps split: if_splits)
  then have "find ?q (map snd (adapters s)) = Some a" "?q a"
    unfolding qualified_for_def using find_first_of_filter by fast+
  moreover have "map_of (sessions s') (handle_uid h) = Some \<lparr>session_adapter = a, sess_handle = h, reply_seq = 0\<rparr>"
    using assms a by (auto simp: spawn_instance_def act_simps andthen_run split: if_splits sum.splits)
  ultimately show ?thesis by auto
qed

lemma spawn_uses_first_qualified_witness:
  "\<exists>a. find (\<lambda>a. required_capabilities Naysayer \<subseteq> set (capabilities a)) [sample_adapter] = Some a \<and>
     Naysayer_qualified \<in> set (capabilities a)"
  using spawn_uses_first_qualified [OF sample_spawned]
  by (auto simp: sample_dispatcher_def new_dispatcher_def simp del: find.simps)

text \<open>A session that halted or failed stays as it is whatever transitions are tried, and a second
  \<open>halt\<close> is skipped in exactly the states from which no event can be processed any more.\<close>

theorem session_machine_final:
  "(s \<in> SESSION_TERMINAL \<longrightarrow> fsm_transition t s = (Inl (s, t), s)) \<and>
   (is_halt_noop s \<longleftrightarrow> \<not> session_machine.moves\<^sup>*\<^sup>* s Processing)"
proof
  show "s \<in> SESSION_TERMINAL \<longrightarrow> fsm_transition t s = (Inl (s, t), s)"
    using session_machine.final [of s] by (simp add: fsm_transition_def)
  have idle: "session_machine.moves Idle Processing" by (simp add: session_machine.moves_def)
  have fin: "\<not> session_machine.moves\<^sup>*\<^sup>* x Processing" if "x \<in> SESSION_TERMINAL" for x
    using session_machine.final_path [OF _ that] that by (auto simp: SESSION_TERMINAL_def)
  have "\<not> session_machine.moves\<^sup>*\<^sup>* Halting Processing"
  proof
    assume "session_machine.moves\<^sup>*\<^sup>* Halting Processing"
    then obtain x where "session_machine.moves Halting x" "session_machine.moves\<^sup>*\<^sup>* x Processing"
      by (cases rule: converse_rtranclpE) auto
    then show False using fin [of x] by (auto simp: session_machine.moves_def SESSION_TERMINAL_def)
  qed
  with idle fin [of Halted] fin [of Session_failed]
  show "is_halt_noop s \<longleftrightarrow> \<not> session_machine.moves\<^sup>*\<^sup>* s Processing"
    by (cases s) (auto simp: is_halt_noop_def HALT_NOOP_STATES_def SESSION_TERMINAL_def)
qed

lemma session_machine_final_witness:
  "fsm_transition Processing Halted = (Inl (Halted, Processing), Halted)"
  using session_machine_final [of Halted Processing] by (simp add: SESSION_TERMINAL_def)

section \<open>Only an admitted dispatch marks an event\<close>

lemma seen_observe: "keeps (\<lambda>s. seen_events s = d) (observe ob)"
  by (rule keeps_observe) simp

lemma seen_ask: "keeps (\<lambda>s. seen_events s = d) (ask ob f)"
  by (rule keeps_ask) simp

lemmas seen_intros = keeps_intros seen_observe seen_ask

lemma seen_handle_reply: "keeps (\<lambda>s. seen_events s = d) (handle_reply p h r)"
  unfolding handle_reply_def Let_def
  by (intro keeps_intros) (auto intro!: seen_intros split: sum.splits)

lemma seen_run_turn: "keeps (\<lambda>s. seen_events s = d) (run_turn p h t)"
  by (induction t) (auto intro!: keeps_intros seen_handle_reply)

lemma seen_deliver_event: "keeps (\<lambda>s. seen_events s = d) (deliver_event p h ev b)"
  unfolding deliver_event_def
  by (intro keeps_intros) (auto intro!: seen_intros seen_run_turn split: option.splits dispatch_error.splits exc.splits)

lemma seen_finally_post:
  assumes "keeps (\<lambda>s. seen_events s = d) m" shows "keeps (\<lambda>s. seen_events s = d) (finally_post post th b m)"
  using assms by (auto simp: keeps_def finally_post_run split: prod.splits)

lemma seen_guard_clone: "keeps (\<lambda>s. seen_events s = d) (guard_clone p)"
  unfolding guard_clone_def by (auto intro!: seen_intros split: option.splits)

lemma seen_dispatch_turn: "keeps (\<lambda>s. seen_events s = d) (dispatch_turn p h ev)"
  unfolding dispatch_turn_def
  by (intro keeps_intros seen_guard_clone)
    (auto intro!: seen_intros seen_finally_post seen_deliver_event split: option.splits prod.splits sum.splits)

lemma seen_spawn: "keeps (\<lambda>s. seen_events s = d) (spawn_instance p th ro i)"
  unfolding spawn_instance_def
  by (auto intro!: seen_intros split: list.splits sum.splits)

lemma seen_halt: "keeps (\<lambda>s. seen_events s = d) (halt p h)"
  unfolding halt_def by (intro seen_intros)

lemma seen_aclose: "keeps (\<lambda>s. seen_events s = d) (aclose p)"
proof -
  have "keeps (\<lambda>s. seen_events s = d) (halt_all p hs)" for hs
    by (induction hs) (auto intro!: keeps_intros seen_halt)
  then show ?thesis unfolding aclose_def by (intro keeps_intros) simp_all
qed

lemma admit_run:
  "admit h ev s =
     (if map_of (sessions s) (handle_uid h) = None then (Inl (Unknown_session (session_id h)), s)
      else if event_seen (seen_events s) ev then (Inr False, s)
      else (Inr True, s\<lparr>seen_events := event_mark (seen_events s) ev\<rparr>))"
  by (simp add: admit_def act_simps)

lemma dispatch_seen:
  "seen_events (snd (dispatch p h ev s)) =
     (if map_of (sessions s) (handle_uid h) = None \<or> event_seen (seen_events s) ev then seen_events s
      else event_mark (seen_events s) ev)"
proof -
  let ?s = "s\<lparr>seen_events := event_mark (seen_events s) ev\<rparr>"
  have "seen_events (snd (dispatch_turn p h ev ?s)) = seen_events ?s"
    using keepsD [OF seen_dispatch_turn [of "seen_events ?s" p h ev], of ?s] by simp
  then show ?thesis by (simp add: dispatch_def andthen_run admit_run ret_run)
qed

text \<open>The calls a client of the dispatcher makes, one after the other.\<close>

datatype dispatcher_call =
    Call_spawn pystr role pystr
  | Call_dispatch session_handle pystr
  | Call_halt session_handle
  | Call_close

fun run_call :: "ports \<Rightarrow> dispatcher_call \<Rightarrow> dispatcher \<Rightarrow> dispatcher" where
  "run_call p (Call_spawn th ro i) s = snd (spawn_instance p th ro i s)"
| "run_call p (Call_dispatch h ev) s = snd (dispatch p h ev s)"
| "run_call p (Call_halt h) s = snd (halt p h s)"
| "run_call p Call_close s = snd (aclose p s)"

definition run_calls :: "ports \<Rightarrow> dispatcher_call list \<Rightarrow> dispatcher \<Rightarrow> dispatcher" where
  "run_calls p cs s = fold (run_call p) cs s"

definition events_of :: "dispatcher_call list \<Rightarrow> pystr set" where
  "events_of cs = {ev. \<exists>h. Call_dispatch h ev \<in> set cs}"

lemma events_of_simps [simp]:
  "events_of [] = {}"
  "events_of (Call_dispatch h ev # cs) = insert ev (events_of cs)"
  "events_of (Call_spawn th ro i # cs) = events_of cs"
  "events_of (Call_halt h # cs) = events_of cs"
  "events_of (Call_close # cs) = events_of cs"
  by (auto simp: events_of_def)

lemma finite_events_of [simp]: "finite (events_of cs)"
proof (induction cs)
  case (Cons c cs)
  then show ?case by (cases c) simp_all
qed simp

lemma run_call_seen:
  "seen_events (run_call p c s) = seen_events s \<or>
     (\<exists>h ev. c = Call_dispatch h ev \<and> \<not> event_seen (seen_events s) ev \<and>
        seen_events (run_call p c s) = event_mark (seen_events s) ev)"
proof (cases c)
  case (Call_spawn th ro i)
  then show ?thesis using keepsD [OF seen_spawn [of "seen_events s"], of s p th ro i] by simp
next
  case (Call_dispatch h ev)
  then show ?thesis by (auto simp: dispatch_seen)
next
  case (Call_halt h)
  then show ?thesis using keepsD [OF seen_halt [of "seen_events s"], of s p h] by simp
next
  case Call_close
  then show ?thesis using keepsD [OF seen_aclose [of "seen_events s"], of s p] by simp
qed

lemma run_calls_dedup: "event_dedup_ok (seen_events s) \<Longrightarrow>
    event_dedup_ok (seen_events (run_calls p cs s)) \<and> dedup_max (seen_events (run_calls p cs s)) = dedup_max (seen_events s)"
proof (induction cs arbitrary: s)
  case (Cons c cs)
  have "event_dedup_ok (seen_events (run_call p c s)) \<and> dedup_max (seen_events (run_call p c s)) = dedup_max (seen_events s)"
    using run_call_seen [of p c s] Cons.prems event_dedup_ok_mark by auto
  then show ?case using Cons.IH [of "run_call p c s"] by (simp add: run_calls_def)
qed (simp add: run_calls_def)

text \<open>A marked event stays in the window while fewer other events are dispatched than the window holds.\<close>

lemma run_calls_younger:
  "event_dedup_ok (seen_events s) \<Longrightarrow> younger (seen_events s) e S \<Longrightarrow> finite S \<Longrightarrow>
     card (S \<union> (events_of cs - {e})) < dedup_max (seen_events s) \<Longrightarrow>
     younger (seen_events (run_calls p cs s)) e (S \<union> (events_of cs - {e}))"
proof (induction cs arbitrary: s S)
  case (Cons c cs)
  let ?s = "run_call p c s"
  have seen: "event_seen (seen_events s) e" using Cons.prems(2) by (auto simp: younger_def event_seen_def)
  from run_call_seen [of p c s] seen
  consider (same) "seen_events ?s = seen_events s"
    | (marked) h ev where "c = Call_dispatch h ev" "ev \<noteq> e" "seen_events ?s = event_mark (seen_events s) ev"
    by metis
  then show ?case
  proof cases
    case same
    have sub: "events_of cs \<subseteq> events_of (c # cs)" by (cases c) auto
    then have "card (S \<union> (events_of cs - {e})) \<le> card (S \<union> (events_of (c # cs) - {e}))"
      using Cons.prems(3) by (intro card_mono) auto
    then have "younger (seen_events (run_calls p cs ?s)) e (S \<union> (events_of cs - {e}))"
      using Cons.prems same by (intro Cons.IH) simp_all
    then show ?thesis using sub by (auto simp: run_calls_def younger_def)
  next
    case marked
    have "card (insert ev S) \<le> card (S \<union> (events_of (c # cs) - {e}))"
      using Cons.prems(3) marked by (intro card_mono) auto
    then have "younger (seen_events ?s) e (insert ev S)"
      unfolding marked(3) using Cons.prems marked(2) by (intro younger_mark_other) simp_all
    moreover have "S \<union> (events_of (c # cs) - {e}) = insert ev S \<union> (events_of cs - {e})"
      using marked by auto
    ultimately show ?thesis
      using Cons.IH [of ?s "insert ev S"] Cons.prems marked(3) event_dedup_ok_mark by (simp add: run_calls_def)
  qed
qed (simp add: run_calls_def)

text \<open>C29. An event identifier is delivered at most once: whatever was called before, after a dispatch of an identifier the
  dispatcher does not hold, to a session it knows, and whatever is called next, dispatching the same identifier again, to
  whatever known session, returns and changes nothing (no delivery, no turn, no mark), as long as fewer other identifiers
  were dispatched in between than the window holds. How the first delivery ended, and the deliveries, spawns, halts
  and closings in between, make no difference.\<close>

theorem dispatched_once:
  assumes "s = run_calls p before (new_dispatcher reg (Suc n))"
    and "map_of (sessions s) (handle_uid h) \<noteq> None" and "\<not> event_seen (seen_events s) ev"
    and "s' = run_calls p later (snd (dispatch p h ev s))" and "card (events_of later - {ev}) \<le> n"
    and "map_of (sessions s') (handle_uid h') \<noteq> None"
  shows "dispatch p h' ev s' = (Inr (), s')"
proof -
  let ?d = "seen_events s" and ?s1 = "snd (dispatch p h ev s)"
  have d: "event_dedup_ok ?d" "dedup_max ?d = Suc n"
    using run_calls_dedup [of "new_dispatcher reg (Suc n)" p before] assms(1)
    by (simp_all add: new_dispatcher_def event_dedup_ok_def)
  have s1: "seen_events ?s1 = event_mark ?d ev" using assms(2,3) by (simp only: dispatch_seen if_False simp_thms)
  have "younger (seen_events s') ev ({} \<union> (events_of later - {ev}))"
    unfolding assms(4) using d s1 younger_mark_self [OF d(1)] event_dedup_ok_mark [OF d(1)] assms(5)
    by (intro run_calls_younger) simp_all
  then have "event_seen (seen_events s') ev" by (auto simp: younger_def event_seen_def)
  then have "admit h' ev s' = (Inr False, s')" using assms(6) by (simp add: admit_run)
  then show ?thesis by (simp add: dispatch_def andthen_run ret_run)
qed

text \<open>The first delivery fails; another event is dispatched, and the first one again.\<close>

lemma dispatched_once_witness:
  "let s = run_calls sample_ports [Call_spawn (lit ''T1'') Naysayer (lit ''naysayer-1'')] sample_dispatcher;
       s' = run_calls sample_ports [Call_dispatch sample_handle (lit ''e2'')] (snd (dispatch sample_ports sample_handle (lit ''e1'') s))
   in dispatch sample_ports sample_handle (lit ''e1'') s' = (Inr (), s')"
proof -
  let ?b = "[Call_spawn (lit ''T1'') Naysayer (lit ''naysayer-1'')]" and ?l = "[Call_dispatch sample_handle (lit ''e2'')]"
  let ?s = "run_calls sample_ports ?b (new_dispatcher [(lit ''sdk'', sample_adapter)] (Suc 1))"
  let ?s' = "run_calls sample_ports ?l (snd (dispatch sample_ports sample_handle (lit ''e1'') ?s))"
  have start: "new_dispatcher [(lit ''sdk'', sample_adapter)] (Suc 1) = sample_dispatcher"
    by (simp add: sample_dispatcher_def numeral_2_eq_2)
  have run: "?s = sample_dispatcher\<lparr>trace := [Spawned (lit ''sdk'') (lit ''T1'') Naysayer (lit ''naysayer-1'')],
      sessions := [(1, \<lparr>session_adapter = sample_adapter, sess_handle = sample_handle, reply_seq = 0\<rparr>)]\<rparr>"
    unfolding start by (simp add: run_calls_def sample_spawned)
  have known: "map_of (sessions ?s) (handle_uid sample_handle) \<noteq> None" and fresh: "\<not> event_seen (seen_events ?s) (lit ''e1'')"
    unfolding run by (simp_all add: sample_handle_def event_seen_def sample_dispatcher_def new_dispatcher_def)
  have "?s' = snd (dispatch sample_ports sample_handle (lit ''e2'') sample_run)"
    unfolding start by (simp add: run_calls_def sample_run_def)
  moreover have "map_of (sessions (snd (dispatch sample_ports sample_handle (lit ''e2'') sample_run))) 1 \<noteq> None"
    unfolding sample_run_def sample_spawned snd_conv
    by (simp add: dispatch_def admit_def dispatch_turn_def guard_clone_def deliver_event_def
        handle_exc_def andthen_run finally_post_run handle_reply_def act_simps sample_ports_def
        sample_dispatcher_def new_dispatcher_def event_seen_def event_mark_def raise_some_run Let_def sample_handle_def lit_Cons)
  ultimately have "map_of (sessions ?s') (handle_uid sample_handle) \<noteq> None" by (simp add: sample_handle_def)
  from dispatched_once [OF refl known fresh refl _ this] show ?thesis unfolding start Let_def by simp
qed

end
