(* ===== verification/Regex.thy ===== *)
theory Regex
  imports PyText
begin

text \<open>
  The regular expressions of Python's \<open>re\<close> that the program uses, with the order in which a
  backtracking matcher tries things: a match is a list of results, the preferred one first. The state
  is what was consumed (reversed), what is left, and the named groups set so far, newest first.
\<close>

section \<open>The matcher\<close>

type_synonym rx_state = "pystr \<times> pystr \<times> (string \<times> pystr) list"

datatype rx =
    Test "nat \<Rightarrow> bool"
  | Eps
  | Seq rx rx
  | Alt rx rx
  | Star bool rx
  | Grp string rx
  | Ahead bool rx
  | At "pystr \<Rightarrow> pystr \<Rightarrow> bool"

text \<open>
  A repetition, greedy or lazy, of a body that must consume; as many rounds as there is text left
  bound it, so the text left is the fuel.
\<close>

primrec repeat_rx :: "bool \<Rightarrow> (rx_state \<Rightarrow> rx_state list) \<Rightarrow> pystr \<Rightarrow> rx_state \<Rightarrow> rx_state list" where
  "repeat_rx greedy f [] st = [st]"
| "repeat_rx greedy f (_ # fuel) st =
     (let more = concat (map (repeat_rx greedy f fuel)
                   (filter (\<lambda>st'. length (fst (snd st')) < length (fst (snd st))) (f st)))
      in if greedy then more @ [st] else st # more)"

definition capture :: "string \<Rightarrow> pystr \<Rightarrow> rx_state \<Rightarrow> rx_state" where
  "capture name before st =
     (fst st, fst (snd st), (name, take (length before - length (fst (snd st))) before) # snd (snd st))"

fun run :: "rx \<Rightarrow> rx_state \<Rightarrow> rx_state list" where
  "run (Test p) (pr, [], gs) = []"
| "run (Test p) (pr, c # cs, gs) = (if p c then [(c # pr, cs, gs)] else [])"
| "run Eps st = [st]"
| "run (Seq r s) st = concat (map (run s) (run r st))"
| "run (Alt r s) st = run r st @ run s st"
| "run (Star greedy r) st = repeat_rx greedy (run r) (fst (snd st)) st"
| "run (Grp name r) st = map (capture name (fst (snd st))) (run r st)"
| "run (Ahead positive r) st = (if (run r st \<noteq> []) = positive then [st] else [])"
| "run (At p) st = (if p (fst st) (fst (snd st)) then [st] else [])"

section \<open>Notation of the patterns\<close>

definition chr :: "nat \<Rightarrow> rx" where
  "chr c = Test (\<lambda>x. x = c)"

definition any_of :: "nat list \<Rightarrow> rx" where
  "any_of cs = Test (\<lambda>x. x \<in> set cs)"

text \<open>A literal, and one under \<open>IGNORECASE\<close> with the code points that flag adds to a letter.\<close>

definition text_rx :: "string \<Rightarrow> rx" where
  "text_rx s = foldr (\<lambda>c r. Seq (chr (of_char c)) r) s Eps"

definition folds_to :: "nat \<Rightarrow> nat \<Rightarrow> bool" where
  "folds_to c x \<longleftrightarrow> ascii_lower [x] = ascii_lower [c] \<or>
     ascii_lower [c] = [105] \<and> (x = 304 \<or> x = 305) \<or>
     ascii_lower [c] = [107] \<and> x = 8490 \<or>
     ascii_lower [c] = [115] \<and> x = 383"

definition itext_rx :: "string \<Rightarrow> rx" where
  "itext_rx s = foldr (\<lambda>c r. Seq (Test (folds_to (of_char c))) r) s Eps"

definition seqs :: "rx list \<Rightarrow> rx" where
  "seqs rs = foldr Seq rs Eps"

definition alts :: "rx list \<Rightarrow> rx" where
  "alts rs = foldr Alt rs (Test (\<lambda>_. False))"

definition opt :: "rx \<Rightarrow> rx" where
  "opt r = Alt r Eps"

definition star :: "rx \<Rightarrow> rx" where "star r = Star True r"
definition lazy_star :: "rx \<Rightarrow> rx" where "lazy_star r = Star False r"
definition plus :: "rx \<Rightarrow> rx" where "plus r = Seq r (star r)"

definition spaces :: rx where "spaces = star (Test is_space)"
definition non_space :: rx where "non_space = Test (\<lambda>c. \<not> is_space c)"
definition dot :: rx where "dot = Test (\<lambda>c. c \<noteq> 10)"
definition digit :: rx where "digit = Test is_decimal"

text \<open>\<open>^\<close> and \<open>$\<close> under \<open>MULTILINE\<close>, \<open>\Z\<close> and \<open>\b\<close>.\<close>

definition line_start :: rx where
  "line_start = At (\<lambda>pr cs. pr = [] \<or> hd pr = 10)"

definition line_end :: rx where
  "line_end = At (\<lambda>pr cs. cs = [] \<or> hd cs = 10)"

definition text_end :: rx where
  "text_end = At (\<lambda>pr cs. cs = [])"

definition word_boundary :: rx where
  "word_boundary = At (\<lambda>pr cs. (pr \<noteq> [] \<and> is_word (hd pr)) \<noteq> (cs \<noteq> [] \<and> is_word (hd cs)))"

section \<open>Match, search, every match\<close>

definition groups_of :: "rx_state \<Rightarrow> (string \<times> pystr) list" where
  "groups_of st = snd (snd st)"

text \<open>\<open>match\<close>: at the start of the text; the result is the groups.\<close>

definition rx_match :: "rx \<Rightarrow> pystr \<Rightarrow> (string \<rightharpoonup> pystr) option" where
  "rx_match r s = (case run r ([], s, []) of [] \<Rightarrow> None | st # _ \<Rightarrow> Some (map_of (groups_of st)))"

text \<open>
  \<open>finditer\<close>: the start of every match, and its groups; the scan goes on where the match ended, one
  character further after an empty one. \<open>k\<close> bounds the scan by the length of the text.
\<close>

fun find_from :: "rx \<Rightarrow> pystr \<Rightarrow> pystr \<Rightarrow> pystr \<Rightarrow> (nat \<times> (string \<rightharpoonup> pystr)) list" where
  "find_from r [] pr cs = []"
| "find_from r (_ # k) pr cs =
     (case run r (pr, cs, []) of
        (pr', cs', gs) # _ \<Rightarrow>
          (length pr, map_of gs) #
          (if length cs' < length cs then find_from r k pr' cs'
           else (case cs of [] \<Rightarrow> [] | c # cs'' \<Rightarrow> find_from r k (c # pr) cs''))
      | [] \<Rightarrow> (case cs of [] \<Rightarrow> [] | c # cs'' \<Rightarrow> find_from r k (c # pr) cs''))"

definition rx_find_all :: "rx \<Rightarrow> pystr \<Rightarrow> (nat \<times> (string \<rightharpoonup> pystr)) list" where
  "rx_find_all r s = find_from r (0 # s) [] s"

definition rx_search :: "rx \<Rightarrow> pystr \<Rightarrow> (string \<rightharpoonup> pystr) option" where
  "rx_search r s = (case rx_find_all r s of [] \<Rightarrow> None | (_, gs) # _ \<Rightarrow> Some gs)"

definition group :: "(string \<rightharpoonup> pystr) \<Rightarrow> string \<Rightarrow> pystr" where
  "group gs name = (case gs name of None \<Rightarrow> [] | Some s \<Rightarrow> s)"

lemmas regex_simps = rx_match_def rx_search_def rx_find_all_def groups_of_def group_def capture_def
  seqs_def alts_def opt_def star_def lazy_star_def plus_def spaces_def non_space_def dot_def digit_def
  line_start_def line_end_def text_end_def word_boundary_def chr_def any_of_def text_rx_def itext_rx_def
  folds_to_def ascii_lower_def is_word_def is_space_def is_decimal_def ascii_alnum_def ascii_letter_def

section \<open>What a class of characters, repeated, takes\<close>

lemma repeat_test:
  "list_all p w \<Longrightarrow> s = [] \<or> \<not> p (hd s) \<Longrightarrow> length w \<le> length k \<Longrightarrow>
     repeat_rx g (run (Test p)) k (pr, w @ s, gs) =
       map (\<lambda>i. (rev (take i w) @ pr, drop i w @ s, gs)) ((if g then rev else id) [0..<Suc (length w)])"
proof (induction k arbitrary: pr w)
  case (Cons x k)
  show ?case
  proof (cases w)
    case Nil
    then have "run (Test p) (pr, s, gs) = []" using Cons.prems(2) by (cases s) auto
    then show ?thesis using Nil by simp
  next
    case w: (Cons c v)
    have "[0..<Suc (Suc (length v))] = 0 # map Suc [0..<Suc (length v)]"
      by (simp add: map_Suc_upt upt_conv_Cons del: upt_Suc)
    then show ?thesis using Cons w by (simp add: comp_def rev_map del: upt_Suc)
  qed
qed simp

lemma hd_concat_map:
  assumes "m < n" and "\<And>i. i < m \<Longrightarrow> K i = []" and "K m = y # ys"
  obtains zs where "concat (map K [0..<n]) = y # zs"
proof -
  have "[0..<n] = [0..<m] @ m # [Suc m..<n]"
    using assms(1) by (metis upt_add_eq_append upt_conv_Cons zero_le le_add_diff_inverse less_imp_le)
  then have "concat (map K [0..<n]) = concat (map K [0..<m]) @ y # ys @ concat (map K [Suc m..<n])"
    using assms(3) by simp
  moreover have "concat (map K [0..<m]) = []" using assms(2) by simp
  ultimately show thesis by (intro that) simp
qed

lemma run_literal: "run (text_rx s) (pr, lit s @ t, gs) = [(rev (lit s) @ pr, t, gs)]"
  by (induction s arbitrary: pr) (simp_all add: text_rx_def lit_Cons chr_def)

section \<open>A match consumes the text it stands on\<close>

definition stands :: "pystr \<Rightarrow> rx_state \<Rightarrow> bool" where
  "stands s st \<longleftrightarrow> rev (fst st) @ fst (snd st) = s"

lemma repeat_rx_stands:
  assumes step: "\<And>st st'. stands s st \<Longrightarrow> st' \<in> set (f st) \<Longrightarrow> stands s st'"
  shows "stands s st \<Longrightarrow> st' \<in> set (repeat_rx g f k st) \<Longrightarrow> stands s st'"
proof (induction k arbitrary: st)
  case (Cons x k)
  from Cons.prems(2) consider "st' = st"
    | st1 where "st1 \<in> set (f st)" "st' \<in> set (repeat_rx g f k st1)"
    by (cases g) (auto simp: Let_def)
  then show ?case
  proof cases
    case 2
    from step [OF Cons.prems(1) 2(1)] 2(2) show ?thesis by (rule Cons.IH)
  qed (simp add: Cons.prems(1))
qed simp

lemma run_stands: "stands s st \<Longrightarrow> st' \<in> set (run r st) \<Longrightarrow> stands s st'"
proof (induction r arbitrary: st st')
  case (Test p)
  obtain pr cs gs where st: "st = (pr, cs, gs)" by (cases st) auto
  show ?case using Test by (cases cs) (auto simp: st stands_def split: if_splits)
next
  case (Seq r1 r2)
  from Seq.prems(2) obtain st1 where "st1 \<in> set (run r1 st)" and "st' \<in> set (run r2 st1)" by auto
  then show ?case by (rule Seq.IH(2) [OF Seq.IH(1) [OF Seq.prems(1)]])
next
  case (Alt r1 r2)
  from Alt.prems(2) have "st' \<in> set (run r1 st) \<or> st' \<in> set (run r2 st)" by simp
  then show ?case using Alt.IH(1) [OF Alt.prems(1)] Alt.IH(2) [OF Alt.prems(1)] by (elim disjE)
next
  case (Star g r)
  from Star.prems(2) have "st' \<in> set (repeat_rx g (run r) (fst (snd st)) st)" by simp
  from repeat_rx_stands [of s "run r", OF Star.IH Star.prems(1) this] show ?case .
next
  case (Grp n r)
  from Grp.prems(2) obtain st1 where "st1 \<in> set (run r st)" "fst st' = fst st1" "fst (snd st') = fst (snd st1)"
    by (auto simp: capture_def)
  then show ?case using Grp.IH [OF Grp.prems(1), of st1] by (simp add: stands_def)
qed (auto split: if_splits)

lemma find_from_starts:
  "(n, gs) \<in> set (find_from r k pr cs) \<Longrightarrow> n \<le> length pr + length cs"
proof (induction r k pr cs rule: find_from.induct)
  case (2 r x k pr cs)
  show ?case
  proof (cases "run r (pr, cs, [])")
    case Nil
    with 2 show ?thesis by (fastforce split: list.splits)
  next
    case (Cons st sts)
    obtain pr' cs' gs' where st: "st = (pr', cs', gs')" by (cases st) auto
    have "stands (rev pr @ cs) (pr', cs', gs')"
      by (rule run_stands [of _ "(pr, cs, [])" _ r]) (simp_all add: stands_def Cons st)
    then have len: "length pr' + length cs' = length pr + length cs"
      by (metis length_append length_rev stands_def fst_conv snd_conv)
    with 2 Cons st show ?thesis by (fastforce split: list.splits if_splits)
  qed
qed simp

end
