(* ===== verification/Handoff.thy ===== *)
theory Handoff
  imports Regex Sessions
begin

text \<open>
  Reading a handoff (\<open>conductor/handoff.py\<close>): who acts next, from the last \<open>NEXT:\<close> line of a message and
  from the structured field beside it, with the annotations on the lines above (\<open>STOP:\<close>, \<open>TIER-C:\<close>,
  \<open>TIER-C-CHECK:\<close>, \<open>OPERATOR-TASK:\<close>), and the pull-request reference of \<open>github/client.py\<close>. Python's
  \<open>casefold\<close> beyond ASCII is the parameter \<open>cf\<close>. The prompt texts of the module are not modelled.
\<close>

section \<open>Patterns\<close>

definition decoration :: rx where
  "decoration = star (Test (\<lambda>c. (\<not> is_word c \<and> c \<noteq> 10) \<or> c = 95))"

definition not_word_continuation :: rx where
  "not_word_continuation = Ahead False (Test (\<lambda>c. is_word c \<and> c \<noteq> 95))"

definition next_line_re :: rx where
  "next_line_re = seqs
     [line_start, decoration, opt (seqs [plus digit, any_of [46, 41], decoration]),
      text_rx ''NEXT'', decoration, any_of [58, 65306], spaces,
      Grp ''token'' (Seq non_space (lazy_star dot)), spaces, line_end]"

definition ascii_alnum_rx :: rx where
  "ascii_alnum_rx = Test ascii_alnum"

definition participant_name_re :: rx where
  "participant_name_re = seqs [decoration,
     Grp ''name'' (Seq (plus ascii_alnum_rx) (star (Seq (plus (any_of [95, 45])) (plus ascii_alnum_rx))))]"

definition pr_review_re :: rx where
  "pr_review_re = seqs [decoration, itext_rx ''pr-review'', not_word_continuation, Grp ''rest'' (star dot)]"

definition operand_payload_re :: rx where
  "operand_payload_re = seqs [decoration, Grp ''payload'' (lazy_star dot), decoration, text_end]"

text \<open>The admitted labels in order, then the other spellings the parser recognises.\<close>

definition TIER_C_PARSE_LABELS :: "string list" where
  "TIER_C_PARSE_LABELS = [''cost'', ''goal'', ''irreversible'', ''billing'', ''scope'',
     ''release-cross-repo'', ''unsure:goal?'']"

definition tier_c_label_re :: rx where
  "tier_c_label_re = seqs [spaces, itext_rx ''TIER-C:'', spaces,
     Grp ''label'' (alts (map itext_rx TIER_C_PARSE_LABELS @
       [seqs [itext_rx ''other:'', spaces, non_space, lazy_star (Test (\<lambda>c. c \<noteq> 13 \<and> c \<noteq> 10))]])),
     spaces, text_end]"

definition tier_c_check_re :: rx where
  "tier_c_check_re = seqs [spaces, itext_rx ''TIER-C-CHECK:'', spaces,
     Grp ''value'' (Seq non_space (lazy_star dot)), spaces, text_end]"

definition operator_task_re :: rx where
  "operator_task_re = seqs [spaces, itext_rx ''OPERATOR-TASK'', text_rx '':'', spaces,
     Grp ''task'' (Seq non_space (lazy_star dot)), spaces, text_end]"

definition stop_decoration :: rx where
  "stop_decoration = star (Test (\<lambda>c. is_space c \<or> c \<in> {42, 95, 96, 62}))"

definition stop_keyword_re :: rx where
  "stop_keyword_re = seqs [stop_decoration, Grp ''keyword'' (itext_rx ''STOP''), Grp ''gap'' stop_decoration,
     text_rx '':'', spaces, Grp ''rest'' (lazy_star dot), spaces, text_end]"

definition STOP_TRIGGER_ARMS :: "string list" where
  "STOP_TRIGGER_ARMS = [''thread'', ''pr'', ''deploy'', ''queue-empty'']"

definition stop_blocked_on_re :: rx where
  "stop_blocked_on_re = seqs [text_rx ''blocked-on '', Grp ''arm'' (alts (map text_rx STOP_TRIGGER_ARMS)),
     text_rx '':'', Grp ''operand'' (plus non_space), text_rx '' wake:'', Grp ''wake'' (plus non_space), text_end]"

section \<open>Pull-request references\<close>

record pr_ref =
  owner :: pystr
  repo :: pystr
  pr_number :: nat

definition name_char :: "nat list \<Rightarrow> rx" where
  "name_char extra = Test (\<lambda>c. ascii_alnum c \<or> c \<in> set extra)"

definition pr_url_re :: rx where
  "pr_url_re = seqs [text_rx ''github.com/'', Grp ''1'' (plus (name_char [46, 95, 45])), text_rx ''/'',
     Grp ''2'' (plus (name_char [46, 95, 45])), text_rx ''/pull/'', Grp ''3'' (plus digit)]"

definition pr_short_re :: rx where
  "pr_short_re = seqs [word_boundary, Grp ''1'' (plus (name_char [46, 45])), text_rx ''/'',
     Grp ''2'' (plus (name_char [46, 95, 45])), text_rx ''#'', Grp ''3'' (plus digit), not_word_continuation]"

definition parse_pr_ref :: "pystr \<Rightarrow> pr_ref option" where
  "parse_pr_ref text =
     (case (case rx_search pr_url_re text of None \<Rightarrow> rx_search pr_short_re text | Some m \<Rightarrow> Some m) of
        None \<Rightarrow> None
      | Some m \<Rightarrow> Some \<lparr>owner = group m ''1'', repo = group m ''2'', pr_number = int_of_digits (group m ''3'')\<rparr>)"

definition slug :: "pr_ref \<Rightarrow> pystr" where
  "slug p = owner p @ lit ''/'' @ repo p @ lit ''#'' @ decimal (pr_number p)"

section \<open>Data\<close>

datatype handoff_kind = K_role | K_human | K_none | K_pr_review | K_absent

datatype human_ask = Operator_work

datatype operator_fault = Tier_c_conflict | No_task | No_tier_c_check

datatype mismatch_reason = Target_divergence | Field_unresolvable

datatype stop_status = Stop_absent | Stop_done | Stop_blocked_on | Stop_malformed

record stop_line =
  stop_status :: stop_status
  trigger_arm :: "pystr option"
  trigger_operand :: "pystr option"
  wake :: "pystr option"
  stop_raw :: "pystr option"

record handoff =
  kind :: handoff_kind
  identity :: "pystr option"
  handoff_role :: "role option"
  token :: "pystr option"
  tier_c_label :: "pystr option"
  mismatch_reason :: "mismatch_reason option"
  mismatch_body_token :: "pystr option"
  stop_of :: "stop_line option"
  author_requested_human :: bool
  via_role_alias :: bool
  role_alias_unresolved :: bool
  asks :: "human_ask option"
  operator_task :: "pystr option"
  fault :: "operator_fault option"

text \<open>\<open>Handoff(kind)\<close> with every default.\<close>

definition plain :: "handoff_kind \<Rightarrow> handoff" where
  "plain k = \<lparr>kind = k, identity = None, handoff_role = None, token = None, tier_c_label = None,
     mismatch_reason = None, mismatch_body_token = None, stop_of = None,
     author_requested_human = False, via_role_alias = False, role_alias_unresolved = False,
     asks = None, operator_task = None, fault = None\<rparr>"

text \<open>What \<open>__post_init__\<close> demands; it raises otherwise.\<close>

definition post_init_ok :: "handoff \<Rightarrow> bool" where
  "post_init_ok h \<longleftrightarrow>
     (author_requested_human h \<longrightarrow> kind h = K_human \<and> mismatch_reason h = None)"

type_synonym roster = "(pystr \<times> role) list"

section \<open>Participants\<close>

definition roster_lookup :: "(pystr \<Rightarrow> pystr) \<Rightarrow> roster \<Rightarrow> pystr \<Rightarrow> (pystr \<times> role) option" where
  "roster_lookup cf roster name =
     (case map_of roster name of
        Some r \<Rightarrow> Some (name, r)
      | None \<Rightarrow> find (\<lambda>(i, _). cf i = cf name) roster)"

definition role_alias :: "(pystr \<Rightarrow> pystr) \<Rightarrow> pystr \<Rightarrow> role option" where
  "role_alias cf tok = find (\<lambda>r. role_value r = cf tok) [Proposer, Naysayer, Implementer]"

definition resolve_participant :: "(pystr \<Rightarrow> pystr) \<Rightarrow> roster \<Rightarrow> pystr \<Rightarrow> handoff" where
  "resolve_participant cf roster tok =
     (case roster_lookup cf roster tok of
        Some (i, r) \<Rightarrow> (plain K_role)\<lparr>identity := Some i, handoff_role := Some r, token := Some tok\<rparr>
      | None \<Rightarrow>
          (case role_alias cf tok of
             None \<Rightarrow> (plain K_absent)\<lparr>token := Some tok\<rparr>
           | Some r \<Rightarrow>
               (case filter (\<lambda>(_, r'). r' = r) roster of
                  [(i, _)] \<Rightarrow> (plain K_role)\<lparr>identity := Some i, handoff_role := Some r, token := Some tok,
                                            via_role_alias := True\<rparr>
                | _ \<Rightarrow> (plain K_absent)\<lparr>token := Some tok, role_alias_unresolved := True\<rparr>)))"

text \<open>\<open>normalize_identity_key\<close>: runs of spaces, underscores and hyphens become one hyphen.\<close>

fun collapse_separators :: "bool \<Rightarrow> pystr \<Rightarrow> pystr" where
  "collapse_separators in_run [] = []"
| "collapse_separators in_run (c # cs) =
     (if is_space c \<or> c = 95 \<or> c = 45
      then (if in_run then collapse_separators True cs else 45 # collapse_separators True cs)
      else c # collapse_separators False cs)"

definition normalize_identity_key :: "(pystr \<Rightarrow> pystr) \<Rightarrow> pystr \<Rightarrow> pystr" where
  "normalize_identity_key cf name =
     (if name = [] then [] else cf (collapse_separators False (strip name)))"

definition wake_lookup :: "(pystr \<Rightarrow> pystr) \<Rightarrow> roster \<Rightarrow> pystr \<Rightarrow> (pystr \<times> role) option" where
  "wake_lookup cf roster w =
     (case roster_lookup cf roster w of
        Some x \<Rightarrow> Some x
      | None \<Rightarrow>
          let key = normalize_identity_key cf w
          in if key \<noteq> [] \<and> key \<noteq> w then map_option (Pair key) (map_of roster key) else None)"

section \<open>The lines of a handoff\<close>

definition last_next_raw :: "pystr \<Rightarrow> pystr option" where
  "last_next_raw text =
     (let ms = rx_find_all next_line_re text
      in if ms = [] then None
         else let s = strip (group (snd (last ms)) ''token'') in if s = [] then None else Some s)"

text \<open>The last line of a text, after its last line feed.\<close>

definition last_line :: "pystr \<Rightarrow> pystr" where
  "last_line s = rev (takeWhile (\<lambda>c. c \<noteq> 10) (rev s))"

definition line_above_last_next :: "pystr \<Rightarrow> pystr option" where
  "line_above_last_next text =
     (let ms = rx_find_all next_line_re text
      in if ms = [] then None
         else let n = fst (last ms)
              in if n = 0 then None else Some (last_line (take (n - 1) text)))"

definition declares_tier_c :: "pystr \<Rightarrow> bool" where
  "declares_tier_c text \<longleftrightarrow> (\<exists>l \<in> set (splitlines text). rx_match tier_c_label_re l \<noteq> None)"

definition declares_no_tier_c :: "(pystr \<Rightarrow> pystr) \<Rightarrow> pystr \<Rightarrow> bool" where
  "declares_no_tier_c cf text =
     (case line_above_last_next text of
        None \<Rightarrow> False
      | Some l \<Rightarrow> (case rx_match tier_c_check_re l of
                    None \<Rightarrow> False
                  | Some m \<Rightarrow> cf (group m ''value'') = lit ''none''))"

text \<open>\<open>lower\<close> on the code points a recognised label can have.\<close>

definition label_lower :: "pystr \<Rightarrow> pystr" where
  "label_lower s = concat (map (\<lambda>c. if c = 304 then [105, 775] else if c = 8490 then [107] else ascii_lower [c]) s)"

definition tier_c_label_above_last_next :: "pystr \<Rightarrow> pystr option" where
  "tier_c_label_above_last_next text =
     (case line_above_last_next text of
        None \<Rightarrow> None
      | Some l \<Rightarrow> (case rx_match tier_c_label_re l of
                    None \<Rightarrow> None
                  | Some m \<Rightarrow>
                      let label = group m ''label''
                      in if startswith (label_lower label) (lit ''other:'')
                         then Some (lit ''other:'' @ lstrip (drop 6 label))
                         else Some (label_lower label)))"

definition operator_task_line :: "pystr \<Rightarrow> pystr option" where
  "operator_task_line text =
     (let ms = rx_find_all next_line_re text
      in if ms = [] then None
         else let lines = split_char 10 (take (fst (last ms)) text)
              in if length lines < 3 then None
                 else map_option (\<lambda>m. group m ''task'') (rx_match operator_task_re (lines ! (length lines - 3))))"

section \<open>The disposition line\<close>

definition STOP_WAKE_ROLES :: "role set" where
  "STOP_WAKE_ROLES = {Proposer, Naysayer}"

definition bare_stop :: "stop_status \<Rightarrow> pystr option \<Rightarrow> stop_line" where
  "bare_stop s r = \<lparr>stop_status = s, trigger_arm = None, trigger_operand = None, wake = None, stop_raw = r\<rparr>"

definition stop_line_above_last_next :: "(pystr \<Rightarrow> pystr) \<Rightarrow> pystr \<Rightarrow> roster \<Rightarrow> stop_line" where
  "stop_line_above_last_next cf text roster =
     (case line_above_last_next text of
        None \<Rightarrow> bare_stop Stop_absent None
      | Some line \<Rightarrow>
          (case rx_match stop_keyword_re line of
             None \<Rightarrow> bare_stop Stop_absent None
           | Some k \<Rightarrow>
               let rest = group k ''rest''; malformed = bare_stop Stop_malformed (Some (strip line))
               in if group k ''keyword'' \<noteq> lit ''STOP'' \<or> group k ''gap'' \<noteq> [] then malformed
                  else if rest = lit ''done'' then bare_stop Stop_done (Some (strip line))
                  else (case rx_match stop_blocked_on_re rest of
                          None \<Rightarrow> malformed
                        | Some b \<Rightarrow>
                            let w = group b ''wake''
                            in if cf w \<in> {lit ''human'', lit ''none''} then malformed
                               else (case wake_lookup cf roster w of
                                       None \<Rightarrow> malformed
                                     | Some (i, r) \<Rightarrow>
                                         if r \<notin> STOP_WAKE_ROLES then malformed
                                         else \<lparr>stop_status = Stop_blocked_on, trigger_arm = Some (group b ''arm''),
                                               trigger_operand = Some (group b ''operand''), wake = Some i,
                                               stop_raw = Some (strip line)\<rparr>))))"

section \<open>Resolving\<close>

definition name_from_raw :: "pystr \<Rightarrow> pystr option" where
  "name_from_raw raw = map_option (\<lambda>m. group m ''name'') (rx_match participant_name_re raw)"

definition parse_next_token :: "pystr \<Rightarrow> pystr option" where
  "parse_next_token text = (case last_next_raw text of None \<Rightarrow> None | Some raw \<Rightarrow> name_from_raw raw)"

text \<open>The pull-request sentinel: the operand after it, when there is one.\<close>

definition pr_review_operand :: "pystr \<Rightarrow> pystr option" where
  "pr_review_operand raw =
     (case rx_match pr_review_re raw of
        None \<Rightarrow> None
      | Some m \<Rightarrow> let operand = strip (group m ''rest'') in if operand = [] then None else Some operand)"

definition pr_review_handoff :: "pystr \<Rightarrow> handoff" where
  "pr_review_handoff operand =
     (let ref = parse_pr_ref (case rx_match operand_payload_re operand of
                                None \<Rightarrow> operand | Some m \<Rightarrow> group m ''payload'')
      in (plain K_pr_review)\<lparr>token := Some (case ref of None \<Rightarrow> operand | Some p \<Rightarrow> slug p)\<rparr>)"

text \<open>
  What both readings share: the sentinel first, then the reserved words, then a participant; \<open>human\<close>
  makes the handoff of the word \<open>human\<close>.
\<close>

definition resolve_raw ::
    "(pystr \<Rightarrow> pystr) \<Rightarrow> (pystr \<Rightarrow> handoff) \<Rightarrow> roster \<Rightarrow> pystr \<Rightarrow> handoff" where
  "resolve_raw cf human roster raw =
     (case pr_review_operand raw of
        Some operand \<Rightarrow> pr_review_handoff operand
      | None \<Rightarrow>
          (case name_from_raw raw of
             None \<Rightarrow> (plain K_absent)\<lparr>token := Some raw\<rparr>
           | Some tok \<Rightarrow>
               if cf tok = lit ''human'' then human tok
               else if cf tok = lit ''none'' then (plain K_none)\<lparr>token := Some tok\<rparr>
               else if cf tok = lit ''operator''
                 then (plain K_human)\<lparr>token := Some tok, asks := Some Operator_work\<rparr>
               else resolve_participant cf roster tok))"

definition resolve_body :: "(pystr \<Rightarrow> pystr) \<Rightarrow> pystr \<Rightarrow> roster \<Rightarrow> handoff" where
  "resolve_body cf text roster =
     (case last_next_raw text of
        None \<Rightarrow> plain K_absent
      | Some raw \<Rightarrow> resolve_raw cf (\<lambda>tok. (plain K_human)\<lparr>token := Some tok,
            tier_c_label := tier_c_label_above_last_next text, author_requested_human := True\<rparr>) roster raw)"

definition resolve_field :: "(pystr \<Rightarrow> pystr) \<Rightarrow> pystr \<Rightarrow> roster \<Rightarrow> handoff" where
  "resolve_field cf field_value roster =
     resolve_raw cf (\<lambda>tok. (plain K_human)\<lparr>token := Some tok, author_requested_human := True\<rparr>)
       roster field_value"

definition same_target :: "handoff \<Rightarrow> handoff \<Rightarrow> bool" where
  "same_target a b =
     (if kind a \<noteq> kind b then False
      else if kind a = K_role then identity a = identity b
      else if kind a = K_pr_review then token a = token b
      else if kind a = K_human then asks a = asks b
      else True)"

definition reconcile :: "handoff \<Rightarrow> handoff \<Rightarrow> handoff" where
  "reconcile f b =
     (if kind f = K_absent
      then (plain K_human)\<lparr>token := token f, mismatch_reason := Some Field_unresolvable,
                           mismatch_body_token := token b\<rparr>
      else if kind b = K_absent then f
      else if same_target f b then f
      else (plain K_human)\<lparr>token := token f, mismatch_reason := Some Target_divergence,
                           mismatch_body_token := token b\<rparr>)"

definition operator_fault_of :: "(pystr \<Rightarrow> pystr) \<Rightarrow> pystr \<Rightarrow> operator_fault option" where
  "operator_fault_of cf text =
     (if declares_tier_c text then Some Tier_c_conflict
      else if operator_task_line text = None then Some No_task
      else if \<not> declares_no_tier_c cf text then Some No_tier_c_check
      else None)"

definition check_operator :: "(pystr \<Rightarrow> pystr) \<Rightarrow> pystr \<Rightarrow> handoff \<Rightarrow> handoff" where
  "check_operator cf text h =
     (case operator_fault_of cf text of
        Some x \<Rightarrow> (plain K_absent)\<lparr>token := token h, fault := Some x\<rparr>
      | None \<Rightarrow> h\<lparr>operator_task := operator_task_line text\<rparr>)"

definition resolve_handoff :: "(pystr \<Rightarrow> pystr) \<Rightarrow> pystr \<Rightarrow> roster \<Rightarrow> pystr option \<Rightarrow> handoff" where
  "resolve_handoff cf text roster next_participant =
     (let body_handoff = resolve_body cf text roster;
          checked = check_operator cf text body_handoff
      in if asks body_handoff = Some Operator_work \<and> fault checked \<noteq> None then checked
         else let field_value = (case next_participant of None \<Rightarrow> [] | Some v \<Rightarrow> strip v);
                  resolved = (if field_value = [] then body_handoff
                              else reconcile (resolve_field cf field_value roster) body_handoff);
                  operated = (if asks resolved = Some Operator_work then check_operator cf text resolved
                              else resolved)
              in if kind operated = K_none
                 then operated\<lparr>stop_of := Some (stop_line_above_last_next cf text roster)\<rparr>
                 else operated)"

section \<open>What each reading can give\<close>

lemma plain_fields [simp]:
  "kind (plain k) = k" "identity (plain k) = None" "handoff_role (plain k) = None" "token (plain k) = None"
  "tier_c_label (plain k) = None" "mismatch_reason (plain k) = None" "mismatch_body_token (plain k) = None"
  "stop_of (plain k) = None" "\<not> author_requested_human (plain k)" "\<not> via_role_alias (plain k)"
  "\<not> role_alias_unresolved (plain k)" "asks (plain k) = None" "operator_task (plain k) = None"
  "fault (plain k) = None"
  by (simp_all add: plain_def)

lemma roster_lookup_member: "roster_lookup cf roster n = Some (i, r) \<Longrightarrow> (i, r) \<in> set roster"
  by (auto simp: roster_lookup_def dest: map_of_SomeD find_SomeD split: option.splits)

text \<open>A handoff as the readings build it, before any reconciliation.\<close>

definition read_ok :: "roster \<Rightarrow> handoff \<Rightarrow> bool" where
  "read_ok roster h \<longleftrightarrow>
     (kind h = K_role \<longrightarrow> (\<exists>i r. identity h = Some i \<and> handoff_role h = Some r \<and> (i, r) \<in> set roster)) \<and>
     (author_requested_human h \<longrightarrow> kind h = K_human \<and> asks h = None) \<and>
     (asks h = Some Operator_work \<longrightarrow> kind h = K_human \<and> \<not> author_requested_human h) \<and>
     (kind h = K_human \<longrightarrow> author_requested_human h \<or> asks h = Some Operator_work) \<and>
     mismatch_reason h = None \<and> stop_of h = None \<and> fault h = None \<and> operator_task h = None"

lemma resolve_participant_ok: "read_ok roster (resolve_participant cf roster tok)"
proof (cases "roster_lookup cf roster tok")
  case (Some x)
  then obtain i r where "roster_lookup cf roster tok = Some (i, r)" by (cases x) auto
  then show ?thesis
    by (auto simp: resolve_participant_def read_ok_def dest: roster_lookup_member)
next
  case None
  have one: "(i, r) \<in> set roster" if "filter (\<lambda>(_, r'). r' = r) roster = [(i, r'')]" for i r r''
  proof -
    have "(i, r'') \<in> set (filter (\<lambda>(_, r'). r' = r) roster)" using that by simp
    then show ?thesis by auto
  qed
  show ?thesis
    using None one
    by (auto simp: resolve_participant_def read_ok_def split: option.splits list.splits)
qed

lemma resolve_raw_ok:
  assumes "\<And>t. read_ok roster (human t)"
  shows "read_ok roster (resolve_raw cf human roster raw)"
  using assms resolve_participant_ok [of roster cf]
  by (auto simp: resolve_raw_def pr_review_handoff_def Let_def split: option.splits)
    (auto simp: read_ok_def)

lemma resolve_body_ok: "read_ok roster (resolve_body cf text roster)"
proof (cases "last_next_raw text")
  case None
  then show ?thesis by (simp add: resolve_body_def read_ok_def)
next
  case (Some raw)
  then show ?thesis
    by (simp add: resolve_body_def, intro resolve_raw_ok) (simp add: read_ok_def)
qed

lemma resolve_field_ok: "read_ok roster (resolve_field cf v roster)"
  unfolding resolve_field_def by (intro resolve_raw_ok) (simp add: read_ok_def)

lemma check_operator_cases:
  obtains (faulty) x where "check_operator cf text h = (plain K_absent)\<lparr>token := token h, fault := Some x\<rparr>"
  | (checked) task where "check_operator cf text h = h\<lparr>operator_task := Some task\<rparr>"
      "operator_task_line text = Some task" "\<not> declares_tier_c text" "declares_no_tier_c cf text"
proof (cases "operator_fault_of cf text")
  case (Some x)
  then show thesis by (intro faulty [of x]) (simp add: check_operator_def)
next
  case None
  then obtain task where "operator_task_line text = Some task" "\<not> declares_tier_c text"
    "declares_no_tier_c cf text"
    by (auto simp: operator_fault_of_def split: if_splits)
  with None show thesis by (intro checked [of task]) (simp_all add: check_operator_def)
qed

text \<open>The candidates of a resolution, before the disposition line is read.\<close>

definition candidate :: "(pystr \<Rightarrow> pystr) \<Rightarrow> pystr \<Rightarrow> roster \<Rightarrow> pystr option \<Rightarrow> handoff" where
  "candidate cf text roster next_participant =
     (let v = (case next_participant of None \<Rightarrow> [] | Some v \<Rightarrow> strip v)
      in if v = [] then resolve_body cf text roster
         else reconcile (resolve_field cf v roster) (resolve_body cf text roster))"

lemma reconcile_cases:
  assumes "read_ok roster f" "read_ok roster b"
  obtains (field) "reconcile f b = f" "kind f \<noteq> K_absent" "kind b = K_absent \<or> same_target f b"
  | (escalated) "kind (reconcile f b) = K_human" "\<not> author_requested_human (reconcile f b)"
      "asks (reconcile f b) = None" "identity (reconcile f b) = None" "stop_of (reconcile f b) = None"
      "fault (reconcile f b) = None" "operator_task (reconcile f b) = None"
      "mismatch_reason (reconcile f b) =
         Some (if kind f = K_absent then Field_unresolvable else Target_divergence)"
      "kind f = K_absent \<or> kind b \<noteq> K_absent \<and> \<not> same_target f b"
  by (cases "kind f = K_absent"; cases "kind b = K_absent"; cases "same_target f b")
    (auto simp: reconcile_def)

lemma candidate_cases:
  obtains (read) "read_ok roster (candidate cf text roster np)"
  | (escalated) "kind (candidate cf text roster np) = K_human" "\<not> author_requested_human (candidate cf text roster np)"
      "asks (candidate cf text roster np) = None" "stop_of (candidate cf text roster np) = None"
      "fault (candidate cf text roster np) = None" "mismatch_reason (candidate cf text roster np) \<noteq> None"
proof -
  define v where "v = (case np of None \<Rightarrow> [] | Some v \<Rightarrow> strip v)"
  show thesis
  proof (cases "v = []")
    case True
    then have "candidate cf text roster np = resolve_body cf text roster"
      by (simp add: candidate_def v_def Let_def)
    then show thesis using read resolve_body_ok by simp
  next
    case False
    then have c: "candidate cf text roster np = reconcile (resolve_field cf v roster) (resolve_body cf text roster)"
      by (simp add: candidate_def v_def Let_def)
    show thesis
      by (cases rule: reconcile_cases [OF resolve_field_ok [of roster cf v] resolve_body_ok [of roster cf "text"]])
        (use read escalated resolve_field_ok [of roster cf v] in \<open>simp_all add: c\<close>)
  qed
qed

lemma candidate_operator:
  "asks (candidate cf text roster np) = Some Operator_work \<Longrightarrow>
     kind (candidate cf text roster np) = K_human \<and> fault (candidate cf text roster np) = None \<and>
     \<not> author_requested_human (candidate cf text roster np)"
  by (cases rule: candidate_cases [of roster cf "text" np]) (auto simp: read_ok_def)

lemma resolve_handoff_cases:
  obtains
    (faulty) x t where "resolve_handoff cf text roster np = (plain K_absent)\<lparr>token := t, fault := Some x\<rparr>"
  | (operator) task where "resolve_handoff cf text roster np =
        (candidate cf text roster np)\<lparr>operator_task := Some task\<rparr>"
      "asks (candidate cf text roster np) = Some Operator_work" "kind (candidate cf text roster np) = K_human"
      "operator_task_line text = Some task" "\<not> declares_tier_c text" "declares_no_tier_c cf text"
  | (settled) "resolve_handoff cf text roster np = (candidate cf text roster np)\<lparr>stop_of :=
        Some (stop_line_above_last_next cf text roster)\<rparr>"
      "kind (candidate cf text roster np) = K_none" "asks (candidate cf text roster np) = None"
  | (plainly) "resolve_handoff cf text roster np = candidate cf text roster np"
      "kind (candidate cf text roster np) \<noteq> K_none" "asks (candidate cf text roster np) = None"
proof -
  let ?b = "resolve_body cf text roster" and ?c = "candidate cf text roster np"
  have kind_c: "kind ?c = K_human" if "asks ?c = Some Operator_work"
    using candidate_operator [OF that] by simp
  show thesis
  proof (cases "asks ?b = Some Operator_work \<and> fault (check_operator cf text ?b) \<noteq> None")
    case True
    then obtain x where "check_operator cf text ?b = (plain K_absent)\<lparr>token := token ?b, fault := Some x\<rparr>"
      using resolve_body_ok [of roster cf "text"]
      by (cases rule: check_operator_cases [of cf "text" ?b]) (auto simp: read_ok_def)
    with True show thesis by (intro faulty) (simp add: resolve_handoff_def Let_def)
  next
    case False
    then have run: "resolve_handoff cf text roster np =
        (let operated = (if asks ?c = Some Operator_work then check_operator cf text ?c else ?c)
         in if kind operated = K_none
            then operated\<lparr>stop_of := Some (stop_line_above_last_next cf text roster)\<rparr> else operated)"
      by (simp only: resolve_handoff_def candidate_def Let_def if_False)
    show thesis
    proof (cases "asks ?c = Some Operator_work")
      case True
      then show thesis
        by (cases rule: check_operator_cases [of cf "text" ?c])
          (use True kind_c in \<open>auto simp: run Let_def intro: faulty operator\<close>)
    next
      case False
      then have "asks ?c = None" by (metis human_ask.exhaust not_Some_eq)
      then show thesis
        by (cases "kind ?c = K_none") (auto simp: run Let_def intro: settled plainly)
    qed
  qed
qed

section \<open>Properties of a resolved handoff\<close>

definition sample_roster :: roster where
  "sample_roster = [(lit ''Bohr'', Proposer), (lit ''Einstein'', Naysayer), (lit ''Curie'', Implementer)]"

definition sample_operator_body :: pystr where
  "sample_operator_body = lit ''OPERATOR-TASK: reboot'' @ [10] @ lit ''TIER-C-CHECK: none'' @ [10] @ lit ''NEXT: operator''"

text \<open>C23. A handoff of operator work always passed its three-line check: the task line two above the last
  \<open>NEXT:\<close>, \<open>TIER-C-CHECK: none\<close> directly above it, and no Tier-C declaration anywhere in the message;
  it parks on the human without counting as the author asking for one.\<close>

theorem operator_work_was_checked:
  assumes "asks (resolve_handoff cf text roster np) = Some Operator_work"
  shows "operator_task_line text \<noteq> None \<and>
    operator_task (resolve_handoff cf text roster np) = operator_task_line text \<and>
    \<not> declares_tier_c text \<and> declares_no_tier_c cf text \<and>
    kind (resolve_handoff cf text roster np) = K_human \<and> fault (resolve_handoff cf text roster np) = None \<and>
    \<not> author_requested_human (resolve_handoff cf text roster np)"
  using candidate_operator [of cf "text" roster np] assms
  by (cases rule: resolve_handoff_cases [of cf "text" roster np]) auto

lemmas handoff_eval = regex_simps decoration_def not_word_continuation_def next_line_re_def
  ascii_alnum_rx_def participant_name_re_def pr_review_re_def operand_payload_re_def
  TIER_C_PARSE_LABELS_def tier_c_label_re_def tier_c_check_re_def operator_task_re_def
  stop_decoration_def stop_keyword_re_def STOP_TRIGGER_ARMS_def stop_blocked_on_re_def
  last_next_raw_def line_above_last_next_def last_line_def declares_tier_c_def declares_no_tier_c_def
  operator_task_line_def name_from_raw_def parse_next_token_def pr_review_operand_def resolve_raw_def
  resolve_body_def operator_fault_of_def check_operator_def resolve_handoff_def splitlines_def
  is_line_break_def strip_def rstrip_def lstrip_def text_simps

lemma sample_operator_resolves:
  "asks (resolve_handoff ascii_lower sample_operator_body sample_roster None) = Some Operator_work"
  by (simp add: handoff_eval sample_operator_body_def)

lemma operator_work_was_checked_witness:
  "operator_task_line sample_operator_body \<noteq> None \<and> \<not> declares_tier_c sample_operator_body"
  using operator_work_was_checked [OF sample_operator_resolves] by blast

text \<open>Every resolved handoff satisfies the check of its constructor, so resolving never raises; the
  author counts as asking for the human only on a human handoff that no mismatch and no operator work
  produced; and the disposition line is read exactly on \<open>NEXT: none\<close>.\<close>

theorem resolved_handoff_consistent:
  "post_init_ok (resolve_handoff cf text roster np) \<and>
   (author_requested_human (resolve_handoff cf text roster np) \<longrightarrow> asks (resolve_handoff cf text roster np) = None) \<and>
   (stop_of (resolve_handoff cf text roster np) =
      (if kind (resolve_handoff cf text roster np) = K_none
       then Some (stop_line_above_last_next cf text roster) else None))"
proof -
  have c: "post_init_ok (candidate cf text roster np)" "stop_of (candidate cf text roster np) = None"
    "author_requested_human (candidate cf text roster np) \<longrightarrow> asks (candidate cf text roster np) = None"
    by (cases rule: candidate_cases [of roster cf "text" np]; auto simp: read_ok_def post_init_ok_def)+
  show ?thesis
    by (cases rule: resolve_handoff_cases [of cf "text" roster np])
      (use c candidate_operator [of cf "text" roster np] in \<open>auto simp: post_init_ok_def\<close>)
qed

lemma resolved_handoff_consistent_witness:
  "post_init_ok (resolve_handoff ascii_lower (lit ''NEXT: human'') sample_roster (Some (lit ''Bohr'')))"
  using resolved_handoff_consistent by blast

text \<open>C24. A handoff reaches a role only through the roster and never against the author: its identity
  holds that role, and no side of the message that named a target named a different one.\<close>

theorem dispatched_role_was_named:
  assumes "kind (resolve_handoff cf text roster np) = K_role"
  shows "\<exists>i r. identity (resolve_handoff cf text roster np) = Some i \<and>
      handoff_role (resolve_handoff cf text roster np) = Some r \<and> (i, r) \<in> set roster \<and>
      (let v = (case np of None \<Rightarrow> [] | Some v \<Rightarrow> strip v); b = resolve_body cf text roster
       in (kind b = K_role \<and> identity b = Some i \<or> v \<noteq> [] \<and> kind b = K_absent) \<and>
          (v \<noteq> [] \<longrightarrow> kind (resolve_field cf v roster) = K_role \<and> identity (resolve_field cf v roster) = Some i))"
proof -
  define v where "v = (case np of None \<Rightarrow> [] | Some v \<Rightarrow> strip v)"
  let ?b = "resolve_body cf text roster" and ?f = "resolve_field cf v roster" and ?c = "candidate cf text roster np"
  have res: "resolve_handoff cf text roster np = ?c"
    by (cases rule: resolve_handoff_cases [of cf "text" roster np]) (use assms in auto)
  then have k: "kind ?c = K_role" using assms by simp
  have c: "?c = (if v = [] then ?b else reconcile ?f ?b)" by (simp add: candidate_def v_def Let_def)
  have "read_ok roster ?c"
    by (cases rule: candidate_cases [of roster cf "text" np]) (use k in simp_all)
  then obtain i r where i: "identity ?c = Some i" "handoff_role ?c = Some r" "(i, r) \<in> set roster"
    using k by (auto simp: read_ok_def)
  have "(kind ?b = K_role \<and> identity ?b = Some i \<or> v \<noteq> [] \<and> kind ?b = K_absent) \<and>
      (v \<noteq> [] \<longrightarrow> kind ?f = K_role \<and> identity ?f = Some i)"
  proof (cases "v = []")
    case True
    then show ?thesis using c k i by simp
  next
    case False
    then have cr: "?c = reconcile ?f ?b" using c by simp
    show ?thesis
      by (rule reconcile_cases [OF resolve_field_ok [of roster cf v] resolve_body_ok [of roster cf "text"]])
        (use cr k i False in \<open>auto simp: same_target_def split: if_splits\<close>)
  qed
  then show ?thesis
    using i res unfolding Let_def v_def [symmetric] by simp
qed

lemma sample_role_resolves: "kind (resolve_handoff ascii_lower (lit ''NEXT: bohr'') sample_roster None) = K_role"
  by (simp add: handoff_eval resolve_participant_def roster_lookup_def sample_roster_def)

lemma dispatched_role_was_named_witness:
  "\<exists>i r. identity (resolve_handoff ascii_lower (lit ''NEXT: bohr'') sample_roster None) = Some i \<and>
      (i, r) \<in> set sample_roster"
  using dispatched_role_was_named [OF sample_role_resolves] by auto

text \<open>A park that names a wake names a participant of the thread who holds the proposer's or the
  naysayer's role, never the implementer and never the human.\<close>

theorem blocked_park_wakes_registered:
  assumes "stop_status (stop_line_above_last_next cf text roster) = Stop_blocked_on"
  shows "\<exists>i r. wake (stop_line_above_last_next cf text roster) = Some i \<and> (i, r) \<in> set roster \<and>
    r \<in> STOP_WAKE_ROLES"
proof -
  have wl: "(i, r) \<in> set roster" if "wake_lookup cf roster w = Some (i, r)" for w i r
    using that by (auto simp: wake_lookup_def Let_def dest: roster_lookup_member map_of_SomeD
        split: option.splits if_splits)
  show ?thesis
    using assms wl
    by (auto simp: stop_line_above_last_next_def bare_stop_def Let_def
        split: option.splits if_splits prod.splits)
qed

definition sample_park_body :: pystr where
  "sample_park_body = lit ''STOP: blocked-on pr:a/b#1 wake:bohr'' @ [10] @ lit ''NEXT: none''"

lemma sample_park: "stop_status (stop_line_above_last_next ascii_lower sample_park_body sample_roster) = Stop_blocked_on"
  by (simp add: handoff_eval stop_line_above_last_next_def sample_park_body_def bare_stop_def
      wake_lookup_def roster_lookup_def sample_roster_def STOP_WAKE_ROLES_def)

lemma blocked_park_wakes_registered_witness:
  "\<exists>i r. wake (stop_line_above_last_next ascii_lower sample_park_body sample_roster) = Some i \<and>
    (i, r) \<in> set sample_roster \<and> r \<in> {Proposer, Naysayer}"
  using blocked_park_wakes_registered [OF sample_park] by (simp add: STOP_WAKE_ROLES_def)


end
