(* ===== verification/PyTime.thy ===== *)
theory PyTime
  imports PyText
begin

text \<open>
  The calendar of Python's \<open>datetime\<close>: years 1 to 9999, proleptic Gregorian; an instant is its number
  of microseconds since 1970-01-01T00:00:00Z.
\<close>

definition leap_year :: "nat \<Rightarrow> bool" where
  "leap_year y \<longleftrightarrow> y mod 4 = 0 \<and> (y mod 100 \<noteq> 0 \<or> y mod 400 = 0)"

definition days_in_month :: "nat \<Rightarrow> nat \<Rightarrow> nat" where
  "days_in_month y m =
     (if m = 2 then (if leap_year y then 29 else 28) else if m \<in> {4, 6, 9, 11} then 30 else 31)"

definition days_before_month :: "nat \<Rightarrow> nat \<Rightarrow> nat" where
  "days_before_month y m = sum_list (map (days_in_month y) [1..<m])"

definition days_before_year :: "nat \<Rightarrow> nat" where
  "days_before_year y = (y - 1) * 365 + (y - 1) div 4 - (y - 1) div 100 + (y - 1) div 400"

definition ordinal :: "nat \<Rightarrow> nat \<Rightarrow> nat \<Rightarrow> nat" where
  "ordinal y m d = days_before_year y + days_before_month y m + d"

definition valid_date :: "nat \<Rightarrow> nat \<Rightarrow> nat \<Rightarrow> bool" where
  "valid_date y m d \<longleftrightarrow> 1 \<le> y \<and> y \<le> 9999 \<and> 1 \<le> m \<and> m \<le> 12 \<and> 1 \<le> d \<and> d \<le> days_in_month y m"

definition valid_clock :: "nat \<Rightarrow> nat \<Rightarrow> nat \<Rightarrow> bool" where
  "valid_clock h mi s \<longleftrightarrow> h < 24 \<and> mi < 60 \<and> s < 60"

text \<open>The instant of a naive date and time read as UTC; \<open>719163\<close> is the ordinal of 1970-01-01.\<close>

definition instant :: "nat \<Rightarrow> nat \<Rightarrow> nat \<Rightarrow> nat \<Rightarrow> nat \<Rightarrow> nat \<Rightarrow> nat \<Rightarrow> time" where
  "instant y m d h mi s us =
     ((int (ordinal y m d) - 719163) * 86400 + int (h * 3600 + mi * 60 + s)) * 1000000 + int us"

definition min_instant :: time where "min_instant = instant 1 1 1 0 0 0 0"
definition max_instant :: time where "max_instant = instant 9999 12 31 23 59 59 999999"

definition all_digits :: "pystr \<Rightarrow> bool" where
  "all_digits s \<longleftrightarrow> s \<noteq> [] \<and> list_all (\<lambda>c. 48 \<le> c \<and> c \<le> 57) s"

text \<open>Two or four ASCII digits at a position of the text.\<close>

definition number_at :: "nat \<Rightarrow> nat \<Rightarrow> pystr \<Rightarrow> nat option" where
  "number_at i n s =
     (let ds = take n (drop i s) in if length ds = n \<and> all_digits ds then Some (decimal_value ds) else None)"

definition char_at :: "nat \<Rightarrow> nat \<Rightarrow> pystr \<Rightarrow> bool" where
  "char_at i c s \<longleftrightarrow> i < length s \<and> s ! i = c"

text \<open>\<open>YYYY-MM-DD\<close>, as \<open>date.fromisoformat\<close> reads it.\<close>

definition read_date :: "pystr \<Rightarrow> (nat \<times> nat \<times> nat) option" where
  "read_date s =
     (case (number_at 0 4 s, number_at 5 2 s, number_at 8 2 s) of
        (Some y, Some m, Some d) \<Rightarrow>
          if char_at 4 45 s \<and> char_at 7 45 s \<and> valid_date y m d then Some (y, m, d) else None
      | _ \<Rightarrow> None)"

text \<open>\<open>HH:MM:SS\<close> at position 11.\<close>

definition read_clock :: "pystr \<Rightarrow> (nat \<times> nat \<times> nat) option" where
  "read_clock s =
     (case (number_at 11 2 s, number_at 14 2 s, number_at 17 2 s) of
        (Some h, Some mi, Some sec) \<Rightarrow>
          if char_at 13 58 s \<and> char_at 16 58 s \<and> valid_clock h mi sec then Some (h, mi, sec) else None
      | _ \<Rightarrow> None)"

text \<open>A fraction of one to six digits, in microseconds, and what follows it.\<close>

definition read_fraction :: "pystr \<Rightarrow> (nat \<times> pystr) option" where
  "read_fraction s =
     (if s = [] \<or> hd s \<noteq> 46 then Some (0, s)
      else let ds = takeWhile (\<lambda>c. 48 \<le> c \<and> c \<le> 57) (tl s)
           in if ds = [] \<or> length ds > 6 then None
              else Some (decimal_value ds * 10 ^ (6 - length ds), drop (length ds) (tl s)))"

text \<open>
  An explicit offset in seconds: \<open>Z\<close> or a sign, hours and minutes. The minutes are not bounded by 59,
  the whole must stay under a day, as for \<open>timezone\<close>.
\<close>

definition read_offset :: "pystr \<Rightarrow> int option" where
  "read_offset s =
     (if s = [90] then Some 0
      else case (number_at 1 2 s, number_at 4 2 s) of
        (Some h, Some mi) \<Rightarrow>
          if length s = 6 \<and> char_at 3 58 s \<and> (char_at 0 43 s \<or> char_at 0 45 s) \<and> h * 3600 + mi * 60 < 86400
          then Some (if char_at 0 45 s then - int (h * 3600 + mi * 60) else int (h * 3600 + mi * 60))
          else None
      | _ \<Rightarrow> None)"

text \<open>
  \<open>datetime.fromisoformat\<close> on the texts with a date, \<open>T\<close>, a time, at most six digits of fraction and an
  explicit offset: the local reading as an instant, and the offset in seconds.
\<close>

definition read_iso :: "pystr \<Rightarrow> (time \<times> int) option" where
  "read_iso s =
     (case (read_date s, read_clock s, read_fraction (drop 19 s)) of
        (Some (y, m, d), Some (h, mi, sec), Some (us, rest)) \<Rightarrow>
          if char_at 10 84 s then map_option (\<lambda>off. (instant y m d h mi sec us, off)) (read_offset rest) else None
      | _ \<Rightarrow> None)"

datatype overflow = OverflowError

definition in_calendar :: "time \<Rightarrow> bool" where
  "in_calendar t \<longleftrightarrow> min_instant \<le> t \<and> t \<le> max_instant"

text \<open>\<open>datetime + timedelta\<close> of an aware instant: the local reading must stay in the calendar.\<close>

definition shifted :: "time \<Rightarrow> duration \<Rightarrow> duration \<Rightarrow> overflow + time" where
  "shifted t off d = (if in_calendar (t + off + d) then Inr (t + d) else Inl OverflowError)"

text \<open>\<open>astimezone(UTC)\<close> of a reading with its offset: it raises outside the calendar.\<close>

definition to_utc :: "time \<times> int \<Rightarrow> overflow + time" where
  "to_utc r = (let t = fst r - snd r * 1000000
     in if min_instant \<le> t \<and> t \<le> max_instant then Inr t else Inl OverflowError)"

end
