(* ===== verification/Routing.thy ===== *)
theory Routing
  imports Prelude
begin

text \<open>
  The routing rule of \<open>routing.py\<close>: whether a handoff to the implementer may proceed (guard (i)), which
  of its conditions are closed, and whether an implementer may continue its own work. Observations
  that cost something are thunks: here functions of a state, so that what is consulted, and when, is
  visible.
\<close>

section \<open>Guard (i)\<close>

type_synonym ('w, 'a) thunk = "'w \<Rightarrow> 'a \<times> 'w"

text \<open>Python's \<open>and\<close>: the right operand is not evaluated when the left one is false.\<close>

definition andalso :: "('w, bool) thunk \<Rightarrow> ('w, bool) thunk \<Rightarrow> ('w, bool) thunk" where
  "andalso a b = (\<lambda>w. case a w of (True, w') \<Rightarrow> b w' | (False, w') \<Rightarrow> (False, w'))"

definition observed :: "bool \<Rightarrow> ('w, bool) thunk" where
  "observed b = Pair b"

definition negated :: "('w, bool) thunk \<Rightarrow> ('w, bool) thunk" where
  "negated t = (\<lambda>w. case t w of (b, w') \<Rightarrow> (\<not> b, w'))"

datatype guard_verdict = Honor | Redirect

definition carve_out_iii_admissible ::
    "bool \<Rightarrow> bool \<Rightarrow> ('w, bool) thunk \<Rightarrow> ('w, bool) thunk \<Rightarrow> ('w, bool) thunk \<Rightarrow> ('w, bool) thunk" where
  "carve_out_iii_admissible author_is_naysayer control_state_is_run message_is_attested
      segment_declares_tier_c naysayer_declared_no_tier_c =
     andalso (observed author_is_naysayer)
       (andalso (observed control_state_is_run)
         (andalso message_is_attested
           (andalso (negated segment_declares_tier_c) naysayer_declared_no_tier_c)))"

definition guard_proposer_to_implementer ::
    "bool \<Rightarrow> bool \<Rightarrow> bool \<Rightarrow> ('w, bool) thunk \<Rightarrow> ('w, bool) thunk \<Rightarrow> ('w, bool) thunk \<Rightarrow>
     ('w, bool) thunk \<Rightarrow> ('w, guard_verdict) thunk" where
  "guard_proposer_to_implementer author_is_human author_is_naysayer control_state_is_run
      message_is_attested segment_declares_tier_c naysayer_declared_no_tier_c decider_vetoes =
     (\<lambda>w. if author_is_human then (Honor, w)
          else (case andalso (carve_out_iii_admissible author_is_naysayer control_state_is_run
                    message_is_attested segment_declares_tier_c naysayer_declared_no_tier_c)
                  (negated decider_vetoes) w of
                  (True, w') \<Rightarrow> (Honor, w')
                | (False, w') \<Rightarrow> (Redirect, w')))"

datatype guard_condition =
  Not_naysayer | Not_run | Not_attested | G1 | G2 | G3_veto | G3_prefetch_missing

type_synonym closure = "guard_condition \<times> pystr list"

definition diagnose_carve_out_iii ::
    "pystr \<Rightarrow> bool \<Rightarrow> bool \<Rightarrow> ('w, bool) thunk \<Rightarrow> ('w, pystr list) thunk \<Rightarrow> ('w, bool) thunk \<Rightarrow>
     ('w, closure list) thunk" where
  "diagnose_carve_out_iii head_msg_id author_is_naysayer control_state_is_run message_is_attested
      open_tier_c_declarations naysayer_declared_no_tier_c = (\<lambda>w.
     let (unattested, w1) = andalso (observed author_is_naysayer) (negated message_is_attested) w;
         (declarations, w2) = open_tier_c_declarations w1;
         (undeclared, w3) = andalso (observed author_is_naysayer) (negated naysayer_declared_no_tier_c) w2
     in ((if \<not> author_is_naysayer then [(Not_naysayer, [head_msg_id])] else [])
         @ (if \<not> control_state_is_run then [(Not_run, [])] else [])
         @ (if unattested then [(Not_attested, [head_msg_id])] else [])
         @ (if declarations \<noteq> [] then [(G1, declarations)] else [])
         @ (if undeclared then [(G2, [head_msg_id])] else []), w3))"

section \<open>Self-continuation\<close>

datatype continue_verdict = Admit | No_chain | Cap | Dirty

definition continuation_admissible ::
    "bool \<Rightarrow> nat option \<Rightarrow> nat \<Rightarrow> ('w, bool) thunk \<Rightarrow> ('w, continue_verdict) thunk" where
  "continuation_admissible head_author_is_implementer chain_n cap clone_is_clean = (\<lambda>w.
     case chain_n of
       None \<Rightarrow> (No_chain, w)
     | Some n \<Rightarrow>
         if \<not> head_author_is_implementer then (No_chain, w)
         else (case clone_is_clean w of
                 (False, w') \<Rightarrow> (Dirty, w')
               | (True, w') \<Rightarrow> (if n > cap then Cap else Admit, w')))"

section \<open>Properties of the routing rule\<close>

datatype consultation = Attest | Segment | Declared | Decider

text \<open>A thunk that answers \<open>b\<close> and leaves a note that it was consulted.\<close>

definition noting :: "consultation \<Rightarrow> 'a \<Rightarrow> (consultation list, 'a) thunk" where
  "noting c b = (\<lambda>l. (b, l @ [c]))"

text \<open>Guard (i) lets a handoff pass exactly for a human author, or for an attested naysayer under
  \<open>run\<close> with no open declaration, an explicit none and no veto; and the costly observations are consulted
  in order, each only while everything before it held. A human author consults none of them, and the
  Decider is reached only when every offline condition is open.\<close>

theorem guard_truth_table:
  "guard_proposer_to_implementer human naysayer run
     (noting Attest attested) (noting Segment declares) (noting Declared none) (noting Decider veto) [] =
   (if human \<or> naysayer \<and> run \<and> attested \<and> \<not> declares \<and> none \<and> \<not> veto then Honor else Redirect,
    if \<not> human \<and> naysayer \<and> run
    then [Attest] @ (if attested then
         [Segment] @ (if declares then [] else
         [Declared] @ (if none then [Decider] else [])) else [])
    else [])"
  by (cases human; cases naysayer; cases run; cases attested; cases declares; cases none; cases veto)
    (simp_all add: guard_proposer_to_implementer_def carve_out_iii_admissible_def andalso_def
      observed_def negated_def noting_def)

lemma diagnose_noting:
  "diagnose_carve_out_iii head naysayer run (noting Attest attested) (noting Segment decls)
      (noting Declared none) [] =
   ((if \<not> naysayer then [(Not_naysayer, [head])] else []) @ (if \<not> run then [(Not_run, [])] else [])
      @ (if naysayer \<and> \<not> attested then [(Not_attested, [head])] else [])
      @ (if decls \<noteq> [] then [(G1, decls)] else [])
      @ (if naysayer \<and> \<not> none then [(G2, [head])] else []),
    if naysayer then [Attest, Segment, Declared] else [Segment])"
  by (cases naysayer) (simp_all add: diagnose_carve_out_iii_def andalso_def observed_def negated_def
      noting_def)

text \<open>The diagnosis names no closed condition exactly when the carve-out is admissible on the
  same observations; when it is not, each condition reported is one that is closed, the declarations
  reported are all the open ones, and the attest and the declaration of a message are read only when
  its author is the naysayer.\<close>

theorem diagnosis_agrees_with_decision:
  "(fst (diagnose_carve_out_iii head naysayer run (noting Attest attested) (noting Segment decls)
          (noting Declared none) []) = [] \<longleftrightarrow>
     fst (carve_out_iii_admissible naysayer run (noting Attest attested)
            (noting Segment (decls \<noteq> [])) (noting Declared none) [])) \<and>
   set (map fst (fst (diagnose_carve_out_iii head naysayer run (noting Attest attested)
          (noting Segment decls) (noting Declared none) []))) =
     {c. (c = Not_naysayer \<and> \<not> naysayer) \<or> (c = Not_run \<and> \<not> run) \<or>
         (c = Not_attested \<and> naysayer \<and> \<not> attested) \<or> (c = G1 \<and> decls \<noteq> []) \<or>
         (c = G2 \<and> naysayer \<and> \<not> none)} \<and>
   snd (diagnose_carve_out_iii head naysayer run (noting Attest attested) (noting Segment decls)
          (noting Declared none) []) =
     (if naysayer then [Attest, Segment, Declared] else [Segment])"
proof (intro conjI)
  show "fst (diagnose_carve_out_iii head naysayer run (noting Attest attested) (noting Segment decls)
          (noting Declared none) []) = [] \<longleftrightarrow>
     fst (carve_out_iii_admissible naysayer run (noting Attest attested)
            (noting Segment (decls \<noteq> [])) (noting Declared none) [])"
    unfolding diagnose_noting
    by (cases naysayer; cases run; cases attested; cases none; cases decls) (simp_all add:
        carve_out_iii_admissible_def andalso_def observed_def negated_def noting_def)
qed (auto simp: diagnose_noting)

text \<open>A continuation is admitted exactly for an implementer with an unbroken chain no longer than the
  cap and a clean clone; the clone is looked at only when there is a chain, and work that exists only
  in the clone wins over the cap, so a capped continuation never hands unpushed work on.\<close>

theorem continuation_truth_table:
  "continuation_admissible impl chain cap (noting Attest clean) [] =
   (case chain of
      None \<Rightarrow> (No_chain, [])
    | Some n \<Rightarrow> if \<not> impl then (No_chain, [])
        else (if \<not> clean then Dirty else if n \<le> cap then Admit else Cap, [Attest]))"
  by (auto simp: continuation_admissible_def noting_def split: option.splits)

end
