(* ===== verification/Continuation.thy ===== *)
theory Continuation
  imports PyText Routing
begin

text \<open>
  The implementer's self-continuation (\<open>conductor/continuation.py\<close>): reading the \<open>CONTINUE:\<close>
  declaration of a report, counting the chain of reports and relays, and the relay the conductor
  posts.
\<close>

section \<open>The declaration\<close>

text \<open>The decorations \<open>(?:\*\*|`|_)*\<close> that may surround \<open>NEXT\<close>.\<close>

fun skip_decoration :: "pystr \<Rightarrow> pystr" where
  "skip_decoration (c # d # cs) =
     (if c = 42 \<and> d = 42 then skip_decoration cs
      else if c = 96 \<or> c = 95 then skip_decoration (d # cs)
      else c # d # cs)"
| "skip_decoration [c] = (if c = 96 \<or> c = 95 then [] else [c])"
| "skip_decoration [] = []"

definition next_re :: "pystr \<Rightarrow> bool" where
  "next_re line \<longleftrightarrow>
     (let s = skip_decoration line
      in startswith s (lit ''NEXT'') \<and>
         (let t = skip_decoration (drop 4 s) in t \<noteq> [] \<and> (hd t = 58 \<or> hd t = 65306)))"

definition control_re :: "pystr \<Rightarrow> bool" where
  "control_re line \<longleftrightarrow>
     startswith line (lit ''TIER-C-CHECK:'') \<or> startswith line (lit ''TIER-C:'') \<or>
     startswith line (lit ''ASK:'')"

definition continue_re :: "pystr \<Rightarrow> pystr option" where
  "continue_re line =
     (if startswith line (lit ''CONTINUE:'') then Some (drop 9 line) else None)"

text \<open>
  A fence line: its character, the length of its run and the text after the run. A run of
  backticks must be followed by no other backtick.
\<close>

definition fence_re :: "pystr \<Rightarrow> (nat \<times> nat \<times> pystr) option" where
  "fence_re line =
     (let run = length (takeWhile (\<lambda>c. c = 96) line); info = drop run line;
          tilde = length (takeWhile (\<lambda>c. c = 126) line)
      in if 3 \<le> run \<and> 96 \<notin> set info then Some (96, run, info)
         else if 3 \<le> tilde then Some (126, tilde, drop tilde line)
         else None)"

definition fence_step :: "(nat \<times> nat) option \<Rightarrow> pystr \<Rightarrow> (nat \<times> nat) option" where
  "fence_step opened raw =
     (case fence_re (strip raw) of
        None \<Rightarrow> opened
      | Some (c, n, info) \<Rightarrow>
          (case opened of
             None \<Rightarrow> Some (c, n)
           | Some (c', n') \<Rightarrow>
               if c = c' \<and> n \<ge> n' \<and> strip info = [] then None else Some (c', n')))"

definition fence_open_before :: "pystr list \<Rightarrow> bool" where
  "fence_open_before before \<longleftrightarrow> foldl fence_step None before \<noteq> None"

text \<open>The walk upwards from the line above \<open>NEXT:\<close>, on the lines in that order.\<close>

fun continue_walk :: "pystr list \<Rightarrow> pystr option" where
  "continue_walk [] = None"
| "continue_walk (raw # rest) =
     (let line = strip raw
      in if line = [] \<or> control_re line then continue_walk rest
         else map_option strip (continue_re line))"

definition find_continue_declaration :: "pystr \<Rightarrow> pystr option" where
  "find_continue_declaration text =
     (case dropWhile (\<lambda>l. strip l = []) (rev (splitlines text)) of
        [] \<Rightarrow> None
      | nxt # upper \<Rightarrow>
          if \<not> next_re (strip nxt) then None
          else if fence_open_before (rev upper) then None
          else continue_walk upper)"

section \<open>Relays and chains\<close>

text \<open>The pattern \<open>\A\[continue (\d+)/(\d+)\]\<close>.\<close>

definition is_continue_relay_body :: "pystr \<Rightarrow> bool" where
  "is_continue_relay_body text \<longleftrightarrow>
     (let s = lstrip text in
      startswith s (lit ''[continue '') \<and>
      (let t = drop 10 s; n = takeWhile is_decimal t; u = dropWhile is_decimal t
       in n \<noteq> [] \<and> u \<noteq> [] \<and> hd u = 47 \<and>
          (let c = takeWhile is_decimal (tl u); v = dropWhile is_decimal (tl u)
           in c \<noteq> [] \<and> v \<noteq> [] \<and> hd v = 93)))"

text \<open>The placeholder of an empty reason, as code points.\<close>

definition EMPTY_BODY_PLACEHOLDER :: pystr where
  "EMPTY_BODY_PLACEHOLDER = [65288, 29702, 30001, 12394, 12375, 65289]"

definition render_relay :: "nat \<Rightarrow> nat \<Rightarrow> pystr \<Rightarrow> pystr \<Rightarrow> pystr" where
  "render_relay n cap continue_body implementer =
     (let text = (if strip continue_body = [] then EMPTY_BODY_PLACEHOLDER else strip continue_body)
      in lit ''[continue '' @ decimal n @ lit ''/'' @ decimal cap @ lit ''] '' @ text
         @ [10] @ lit ''NEXT: '' @ implementer)"

datatype link = Continue_report | Continue_relay | Entry | Other

text \<open>The loop of \<open>chain_count\<close> on the links from the newest, with what it expects and its count.\<close>

fun chain_walk :: "link list \<Rightarrow> link \<Rightarrow> nat \<Rightarrow> nat option" where
  "chain_walk [] expect n = None"
| "chain_walk (l # ls) expect n =
     (if l = expect
      then (if l = Continue_report then chain_walk ls Continue_relay (n + 1)
            else chain_walk ls Continue_report n)
      else if l = Entry \<and> expect = Continue_relay then Some n
      else None)"

definition chain_count :: "link list \<Rightarrow> nat option" where
  "chain_count links =
     (if links = [] \<or> last links \<noteq> Continue_report then None
      else chain_walk (rev links) Continue_report 0)"

definition relay_chain_count :: "link list \<Rightarrow> nat option" where
  "relay_chain_count links =
     (if length links < 2 \<or> last links \<noteq> Continue_relay then None
      else chain_count (butlast links))"

record continue_plan =
  plan_n :: nat
  plan_cap :: nat
  plan_body :: pystr
  plan_implementer :: pystr

definition plan_relay :: "continue_plan \<Rightarrow> pystr" where
  "plan_relay p = render_relay (plan_n p) (plan_cap p) (plan_body p) (plan_implementer p)"

section \<open>The shape of a chain\<close>

lemma no_chain_start:
  "l # ls = concat (replicate k [Continue_relay, Continue_report]) @ Entry # rest \<Longrightarrow>
     l = Entry \<or> l = Continue_relay"
  by (cases k) auto

lemma chain_walk_relay_iff:
  "chain_walk ls Continue_relay n = Some m \<longleftrightarrow>
     (\<exists>k rest. m = n + k \<and> ls = concat (replicate k [Continue_relay, Continue_report]) @ Entry # rest)"
proof (induction "length ls" arbitrary: ls n rule: less_induct)
  case less
  show ?case
  proof (cases ls)
    case Nil
    then show ?thesis by simp
  next
    case (Cons l ls')
    show ?thesis
    proof (cases l)
      case Entry
      have "ls = concat (replicate k [Continue_relay, Continue_report]) @ Entry # rest \<longleftrightarrow>
          k = 0 \<and> rest = ls'" for k rest
        using Cons Entry by (cases k) auto
      then show ?thesis using Cons Entry by auto
    next
      case Continue_relay
      have none: "ls \<noteq> concat (replicate 0 [Continue_relay, Continue_report]) @ Entry # rest" for rest
        using Cons Continue_relay by simp
      show ?thesis
      proof (cases "\<exists>ls''. ls' = Continue_report # ls''")
        case True
        then obtain ls'' where ls'': "ls' = Continue_report # ls''" by blast
        have "chain_walk ls Continue_relay n = chain_walk ls'' Continue_relay (n + 1)"
          using Cons Continue_relay ls'' by simp
        also have "\<dots> = Some m \<longleftrightarrow> (\<exists>k rest. m = n + 1 + k \<and>
            ls'' = concat (replicate k [Continue_relay, Continue_report]) @ Entry # rest)"
          by (rule less.hyps) (use Cons ls'' in simp)
        also have "\<dots> \<longleftrightarrow> (\<exists>k rest. m = n + k \<and>
            ls = concat (replicate k [Continue_relay, Continue_report]) @ Entry # rest)" (is "?L \<longleftrightarrow> ?R")
        proof
          assume ?L
          then obtain k rest where "m = n + 1 + k"
            "ls'' = concat (replicate k [Continue_relay, Continue_report]) @ Entry # rest" by blast
          then show ?R using Cons Continue_relay ls''
            by (intro exI [of _ "Suc k"] exI [of _ rest]) simp
        next
          assume ?R
          then obtain k rest where k: "m = n + k"
            "ls = concat (replicate k [Continue_relay, Continue_report]) @ Entry # rest" by blast
          with none obtain k' where "k = Suc k'" by (cases k) auto
          with k show ?L using Cons Continue_relay ls''
            by (intro exI [of _ k'] exI [of _ rest]) simp
        qed
        finally show ?thesis .
      next
        case False
        then have "chain_walk ls Continue_relay n = None"
          using Cons Continue_relay by (cases ls') auto
        moreover have "ls \<noteq> concat (replicate k [Continue_relay, Continue_report]) @ Entry # rest" for k rest
          using none False Cons by (cases k) auto
        ultimately show ?thesis by simp
      qed
    qed (use Cons in \<open>auto dest: no_chain_start\<close>)
  qed
qed

lemma rev_rounds: "rev (concat (replicate k [a, b])) = concat (replicate k [b, a])"
  by (simp add: rev_concat)

section \<open>Properties of self-continuation\<close>

text \<open>C26. A chain counts \<open>n\<close> exactly when the thread ends in a guarded entry, then \<open>n - 1\<close> rounds of a
  report and its relay, then a report: any other message in between, or no entry at all, is no
  chain.\<close>

theorem chain_count_iff:
  "chain_count links = Some n \<longleftrightarrow>
     1 \<le> n \<and> (\<exists>pre. links = pre @ Entry # concat (replicate (n - 1) [Continue_report, Continue_relay])
                        @ [Continue_report])"
proof (cases "\<exists>xs. links = xs @ [Continue_report]")
  case True
  then obtain xs where xs: "links = xs @ [Continue_report]" by blast
  have "chain_count links = chain_walk (rev xs) Continue_relay 1"
    by (simp add: chain_count_def xs)
  also have "\<dots> = Some n \<longleftrightarrow> (\<exists>k rest. n = 1 + k \<and>
      rev xs = concat (replicate k [Continue_relay, Continue_report]) @ Entry # rest)"
    by (rule chain_walk_relay_iff)
  also have "\<dots> \<longleftrightarrow> (\<exists>k rest. n = 1 + k \<and>
      xs = rest @ Entry # concat (replicate k [Continue_report, Continue_relay]))" (is "?L \<longleftrightarrow> ?R")
  proof
    assume ?L
    then obtain k rest where n: "n = 1 + k" and r: "rev xs = concat (replicate k [Continue_relay, Continue_report]) @ Entry # rest"
      by blast
    from r have "xs = rev (concat (replicate k [Continue_relay, Continue_report]) @ Entry # rest)"
      by (metis rev_rev_ident)
    then have "xs = rev rest @ Entry # concat (replicate k [Continue_report, Continue_relay])"
      by (simp add: rev_rounds)
    with n show ?R by blast
  next
    assume ?R
    then obtain k rest where n: "n = 1 + k" and r: "xs = rest @ Entry # concat (replicate k [Continue_report, Continue_relay])"
      by blast
    then have "rev xs = concat (replicate k [Continue_relay, Continue_report]) @ Entry # rev rest"
      by (simp add: rev_rounds)
    with n show ?L by blast
  qed
  also have "\<dots> \<longleftrightarrow> 1 \<le> n \<and> (\<exists>pre. links = pre @ Entry #
      concat (replicate (n - 1) [Continue_report, Continue_relay]) @ [Continue_report])"
    using xs by (cases n) auto
  finally show ?thesis .
next
  case False
  then have "links = [] \<or> last links \<noteq> Continue_report" by (metis append_butlast_last_id)
  then have "chain_count links = None" by (auto simp: chain_count_def)
  with False show ?thesis by auto
qed

lemma continue_walk_iff:
  "continue_walk ls = Some d \<longleftrightarrow>
     (\<exists>ctrl cont rest r. ls = ctrl @ cont # rest \<and> (\<forall>l \<in> set ctrl. strip l = [] \<or> control_re (strip l)) \<and>
        strip cont = lit ''CONTINUE:'' @ r \<and> d = strip r)"
proof (induction ls)
  case Nil
  then show ?case by simp
next
  case (Cons l ls)
  have not_ctrl: "\<not> (strip l = [] \<or> control_re (strip l))" if "strip l = lit ''CONTINUE:'' @ r" for r
    using that by (simp add: control_re_def startswith_def text_simps)
  show ?case
  proof (cases "strip l = [] \<or> control_re (strip l)")
    case True
    then have "continue_walk (l # ls) = continue_walk ls" by (simp add: Let_def)
    moreover have "(\<exists>ctrl cont rest r. l # ls = ctrl @ cont # rest \<and>
        (\<forall>l \<in> set ctrl. strip l = [] \<or> control_re (strip l)) \<and> strip cont = lit ''CONTINUE:'' @ r \<and> d = strip r) \<longleftrightarrow>
      (\<exists>ctrl cont rest r. ls = ctrl @ cont # rest \<and>
        (\<forall>l \<in> set ctrl. strip l = [] \<or> control_re (strip l)) \<and> strip cont = lit ''CONTINUE:'' @ r \<and> d = strip r)"
      (is "?L \<longleftrightarrow> ?R")
    proof
      assume ?L
      then obtain ctrl cont rest r where *: "l # ls = ctrl @ cont # rest"
        "\<forall>l \<in> set ctrl. strip l = [] \<or> control_re (strip l)" "strip cont = lit ''CONTINUE:'' @ r" "d = strip r"
        by blast
      with True not_ctrl obtain ctrl' where "ctrl = l # ctrl'" by (cases ctrl) auto
      with * show ?R by auto
    next
      assume ?R
      then obtain ctrl cont rest r where "ls = ctrl @ cont # rest"
        "\<forall>l \<in> set ctrl. strip l = [] \<or> control_re (strip l)" "strip cont = lit ''CONTINUE:'' @ r" "d = strip r"
        by blast
      then show ?L using True
        by (intro exI [of _ "l # ctrl"], intro exI [of _ cont] exI [of _ rest] exI [of _ r]) auto
    qed
    ultimately show ?thesis using Cons.IH by simp
  next
    case False
    have "continue_walk (l # ls) = Some d \<longleftrightarrow> (\<exists>r. strip l = lit ''CONTINUE:'' @ r \<and> d = strip r)"
      using False by (auto simp: Let_def continue_re_def startswith_iff)
    also have "\<dots> \<longleftrightarrow> (\<exists>ctrl cont rest r. l # ls = ctrl @ cont # rest \<and>
        (\<forall>l \<in> set ctrl. strip l = [] \<or> control_re (strip l)) \<and> strip cont = lit ''CONTINUE:'' @ r \<and> d = strip r)"
      (is "?L \<longleftrightarrow> ?R")
    proof
      assume ?L
      then obtain r where "strip l = lit ''CONTINUE:'' @ r" "d = strip r" by blast
      then show ?R
        by - (rule exI [of _ "[]"], rule exI [of _ l], rule exI [of _ ls], rule exI [of _ r], simp)
    next
      assume ?R
      then obtain ctrl cont rest r where *: "l # ls = ctrl @ cont # rest"
        "\<forall>l \<in> set ctrl. strip l = [] \<or> control_re (strip l)" "strip cont = lit ''CONTINUE:'' @ r" "d = strip r"
        by blast
      with False have "ctrl = []" by (cases ctrl) auto
      with * show ?L by auto
    qed
    finally show ?thesis .
  qed
qed

text \<open>A report declares a continuation exactly when its last non-blank line is a \<open>NEXT:\<close> line with
  no code fence open above it, and above that line, past blank and control lines only, stands a
  \<open>CONTINUE:\<close> line; its text is the declared reason.\<close>

theorem continue_declaration_iff:
  "find_continue_declaration text = Some d \<longleftrightarrow>
     (\<exists>body cont ctrl nxt blanks r.
        splitlines text = body @ [cont] @ ctrl @ [nxt] @ blanks \<and>
        (\<forall>l \<in> set blanks. strip l = []) \<and> next_re (strip nxt) \<and>
        (\<forall>l \<in> set ctrl. strip l = [] \<or> control_re (strip l)) \<and>
        strip cont = lit ''CONTINUE:'' @ r \<and> \<not> fence_open_before (body @ [cont] @ ctrl) \<and> d = strip r)"
  (is "?L \<longleftrightarrow> ?R")
proof
  let ?P = "\<lambda>l. strip l = []"
  assume ?L
  then obtain nxt upper where up: "dropWhile ?P (rev (splitlines text)) = nxt # upper"
    and nxt: "next_re (strip nxt)" and closed: "\<not> fence_open_before (rev upper)"
    and walk: "continue_walk upper = Some d"
    by (auto simp: find_continue_declaration_def split: list.splits if_splits)
  obtain ctrl cont rest r where c: "upper = ctrl @ cont # rest"
    "\<forall>l \<in> set ctrl. strip l = [] \<or> control_re (strip l)" "strip cont = lit ''CONTINUE:'' @ r" "d = strip r"
    using walk unfolding continue_walk_iff by blast
  have "rev (splitlines text) = takeWhile ?P (rev (splitlines text)) @ nxt # upper"
    using up takeWhile_dropWhile_id [of ?P "rev (splitlines text)"] by simp
  then have "splitlines text = rev upper @ [nxt] @ rev (takeWhile ?P (rev (splitlines text)))"
    by (metis append.assoc append_Cons append_Nil rev.simps(2) rev_append rev_rev_ident)
  then have "splitlines text = rev rest @ [cont] @ rev ctrl @ [nxt] @ rev (takeWhile ?P (rev (splitlines text)))"
    using c by simp
  moreover have "\<forall>l \<in> set (rev (takeWhile ?P (rev (splitlines text)))). strip l = []"
    by (auto dest: set_takeWhileD)
  moreover have "\<not> fence_open_before (rev rest @ [cont] @ rev ctrl)"
    using closed c by simp
  ultimately show ?R
    using nxt c by (intro exI [of _ "rev rest"], intro exI [of _ cont], intro exI [of _ "rev ctrl"],
        intro exI [of _ nxt], intro exI [of _ "rev (takeWhile ?P (rev (splitlines text)))"],
        intro exI [of _ r]) simp
next
  let ?P = "\<lambda>l. strip l = []"
  assume ?R
  then obtain body cont ctrl nxt blanks r where
    s: "splitlines text = body @ [cont] @ ctrl @ [nxt] @ blanks" "\<forall>l \<in> set blanks. strip l = []"
    and nxt: "next_re (strip nxt)" and c: "\<forall>l \<in> set ctrl. strip l = [] \<or> control_re (strip l)"
    "strip cont = lit ''CONTINUE:'' @ r" "d = strip r"
    and closed: "\<not> fence_open_before (body @ [cont] @ ctrl)"
    by blast
  have ne: "strip nxt \<noteq> []" using nxt by (auto simp: next_re_def startswith_def text_simps)
  have "dropWhile ?P (rev (splitlines text)) = nxt # rev ctrl @ cont # rev body"
    using s ne by (simp add: dropWhile_append3 dropWhile_append1 dropWhile_append2)
  moreover have "continue_walk (rev ctrl @ cont # rev body) = Some d"
    unfolding continue_walk_iff using c
    by (intro exI [of _ "rev ctrl"], intro exI [of _ cont], intro exI [of _ "rev body"], intro exI [of _ r]) simp
  ultimately show ?L using nxt closed by (simp add: find_continue_declaration_def)
qed

lemma continue_declaration_iff_witness:
  "find_continue_declaration (lit ''CONTINUE: more'' @ [10] @ lit ''NEXT: ada'') = Some (lit ''more'')"
proof -
  let ?c = "lit ''CONTINUE: more''" and ?n = "lit ''NEXT: ada''"
  have lines: "splitlines (?c @ [10] @ ?n) = [] @ [?c] @ [] @ [?n] @ []"
    by (simp add: splitlines_def is_line_break_def text_simps)
  have strips: "strip ?c = lit ''CONTINUE:'' @ lit '' more''" "strip ?n = ?n" "lit ''more'' = strip (lit '' more'')"
    by (simp_all add: strip_def lstrip_def rstrip_def is_space_def text_simps)
  have "next_re (strip ?n)" "\<not> fence_open_before ([] @ [?c] @ [])"
    by (simp_all add: next_re_def fence_open_before_def fence_step_def fence_re_def startswith_def
        strip_def lstrip_def rstrip_def is_space_def Let_def text_simps)
  then show ?thesis
    unfolding continue_declaration_iff
    by - (rule exI [of _ "[]"], rule exI [of _ ?c], rule exI [of _ "[]"], rule exI [of _ ?n],
        rule exI [of _ "[]"], rule exI [of _ "lit '' more''"], simp add: lines [simplified] strips)
qed

lemma decimal_is_decimal: "d \<in> set (decimal n) \<Longrightarrow> is_decimal d"
  by (auto simp: is_decimal_def dest: decimal_digits)

lemma takeWhile_decimal_stop:
  "\<not> is_decimal c \<Longrightarrow> takeWhile is_decimal (decimal n @ c # cs) = decimal n \<and>
     dropWhile is_decimal (decimal n @ c # cs) = c # cs"
  using decimal_is_decimal by (simp add: takeWhile_append2 dropWhile_append2)

text \<open>Every relay the conductor posts is recognised as a relay, whatever the reason and the
  implementer.\<close>

theorem relay_recognised: "is_continue_relay_body (plan_relay p)"
proof -
  have bracket: "lstrip (lit ''[continue '' @ s) = lit ''[continue '' @ s" for s
    by (rule lstrip_fixed) (simp add: text_simps is_space_def)
  have stop: "\<not> is_decimal 47" "\<not> is_decimal 93" by (simp_all add: is_decimal_def)
  obtain t where "plan_relay p = lit ''[continue '' @ decimal (plan_n p) @ 47 # decimal (plan_cap p) @ 93 # t"
    by (simp add: plan_relay_def render_relay_def Let_def text_simps)
  then show ?thesis
    using stop takeWhile_decimal_stop [OF stop(1), of "plan_n p" "decimal (plan_cap p) @ 93 # t"]
      takeWhile_decimal_stop [OF stop(2), of "plan_cap p" t]
    by (simp add: is_continue_relay_body_def bracket Let_def)
qed

end
