(* ===== verification/Segments.thy ===== *)
theory Segments
  imports Handoff PyTime Routing Continuation
begin

text \<open>
  What the loop reads off the posts of a thread beside the handoff: who wrote them
  (\<open>conductor/core.py\<close>, \<open>conductor/human_identity.py\<close>, \<open>conductor/roster.py\<close>,
  \<open>identity/embodiment.py\<close>), the attestation stamp (\<open>source_marker.py\<close>), the open Tier-C declarations
  of the running segment (\<open>conductor/tier_c_segment.py\<close>) and the bounce notices
  (\<open>conductor/tierc_gate.py\<close>). \<open>cf\<close> is Python's \<open>casefold\<close>.
\<close>

section \<open>Posts and identities\<close>

record chat_msg =
  chat_id :: pystr
  chat_author :: pystr
  chat_content :: pystr
  chat_field :: "pystr option"

text \<open>The field as it is used: a blank one counts as absent.\<close>

definition next_participant :: "chat_msg \<Rightarrow> pystr option" where
  "next_participant m = (case chat_field m of None \<Rightarrow> None | Some v \<Rightarrow> if strip v = [] then None else Some v)"

definition roster_role :: "(pystr \<Rightarrow> pystr) \<Rightarrow> roster \<Rightarrow> pystr \<Rightarrow> role option" where
  "roster_role cf roster author =
     (case map_of roster author of
        Some r \<Rightarrow> Some r
      | None \<Rightarrow> map_option snd (find (\<lambda>(i, _). cf i = cf author) roster))"

definition is_human_identity :: "(pystr \<Rightarrow> pystr) \<Rightarrow> pystr \<Rightarrow> pystr \<Rightarrow> bool" where
  "is_human_identity cf author human_identity \<longleftrightarrow> human_identity \<noteq> [] \<and> cf author = cf human_identity"

text \<open>\<open>derive_identity_by_role\<close>: \<open>None\<close> is \<open>RoleResolutionError\<close>.\<close>

definition derive_identity_by_role :: "roster \<Rightarrow> role \<Rightarrow> pystr option" where
  "derive_identity_by_role roster r =
     (case filter (\<lambda>(_, r'). r' = r) roster of [(i, _)] \<Rightarrow> Some i | _ \<Rightarrow> None)"

definition SPAWNABLE_EMBODIMENT :: pystr where
  "SPAWNABLE_EMBODIMENT = lit ''terminal_coding_agent''"

definition DEFAULT_IDENTITY_EMBODIMENT :: "(pystr \<times> pystr) list" where
  "DEFAULT_IDENTITY_EMBODIMENT = [(lit ''Fermi'', lit ''web_ai_chat'')]"

definition normalize_embodiment_table :: "(pystr \<Rightarrow> pystr) \<Rightarrow> (pystr \<times> pystr) list \<Rightarrow> bool \<Rightarrow> (pystr \<times> pystr) list" where
  "normalize_embodiment_table cf raw include_defaults =
     (let table = (if include_defaults
                   then foldl (\<lambda>t (name, e). dict_set (normalize_identity_key cf name) e t) []
                          DEFAULT_IDENTITY_EMBODIMENT else [])
      in foldl (\<lambda>t (name, e). let key = normalize_identity_key cf name
                              in if key = [] then t else dict_set key e t) table raw)"

definition blocked_embodiment :: "(pystr \<Rightarrow> pystr) \<Rightarrow> pystr \<Rightarrow> (pystr \<times> pystr) list \<Rightarrow> pystr option" where
  "blocked_embodiment cf name table =
     (if name = [] then None
      else case map_of table (normalize_identity_key cf name) of
             None \<Rightarrow> None
           | Some e \<Rightarrow> if e = SPAWNABLE_EMBODIMENT then None else Some e)"

section \<open>The attestation stamp\<close>

datatype attestation_scope = Turn_scope | Probe_scope

record attestation_record =
  att_tier :: pystr
  att_backend :: pystr
  att_expected :: pystr
  att_route :: pystr
  att_probe :: pystr
  att_scope :: attestation_scope
  att_at :: time

definition attest_prefix :: pystr where "attest_prefix = lit ''<!-- attest:''"
definition attest_suffix :: pystr where "attest_suffix = lit ''-->''"

text \<open>The separator: a middle dot between spaces.\<close>

definition field_sep :: pystr where "field_sep = [32, 183, 32]"

text \<open>\<open>s.split(sep)\<close> for a text separator; the pieces are shorter than the text, which is the fuel.\<close>

fun split_text_from :: "pystr \<Rightarrow> pystr \<Rightarrow> pystr \<Rightarrow> pystr list" where
  "split_text_from sep [] s = [s]"
| "split_text_from sep (_ # k) s =
     (case split_at sep s of None \<Rightarrow> [s] | Some (a, b) \<Rightarrow> a # split_text_from sep k b)"

definition split_text :: "pystr \<Rightarrow> pystr \<Rightarrow> pystr list" where
  "split_text sep s = split_text_from sep (0 # s) s"

definition split_backends :: "pystr \<Rightarrow> pystr set" where
  "split_backends value = set (filter (\<lambda>p. p \<noteq> []) (map strip (split_char 124 value)))"

definition attestation_agrees :: "attestation_record \<Rightarrow> bool" where
  "attestation_agrees r \<longleftrightarrow>
     split_backends (att_backend r) \<noteq> {} \<and> split_backends (att_backend r) \<subseteq> split_backends (att_expected r)"

text \<open>\<open>strptime(s, "%Y-%m-%dT%H:%M:%SZ")\<close>: the pattern that format stands for, letters in any case.\<close>

definition digit_in :: "nat \<Rightarrow> nat \<Rightarrow> rx" where
  "digit_in a b = Test (\<lambda>c. 48 + a \<le> c \<and> c \<le> 48 + b)"

definition at_format_re :: rx where
  "at_format_re = seqs [
     Grp ''Y'' (seqs [digit, digit, digit, digit]), text_rx ''-'',
     Grp ''m'' (alts [Seq (text_rx ''1'') (digit_in 0 2), Seq (text_rx ''0'') (digit_in 1 9), digit_in 1 9]), text_rx ''-'',
     Grp ''d'' (alts [Seq (text_rx ''3'') (digit_in 0 1), Seq (digit_in 1 2) digit, Seq (text_rx ''0'') (digit_in 1 9),
                  digit_in 1 9, Seq (text_rx '' '') (digit_in 1 9)]), itext_rx ''T'',
     Grp ''H'' (alts [Seq (text_rx ''2'') (digit_in 0 3), Seq (digit_in 0 1) digit, digit]), text_rx '':'',
     Grp ''M'' (alts [Seq (digit_in 0 5) digit, digit]), text_rx '':'',
     Grp ''S'' (alts [Seq (text_rx ''6'') (digit_in 0 1), Seq (digit_in 0 5) digit, digit]), itext_rx ''Z'']"

definition read_at_format :: "pystr \<Rightarrow> time option" where
  "read_at_format s =
     (case run at_format_re ([], s, []) of
        (_, rest, gs) # _ \<Rightarrow>
          (let n = (\<lambda>g. int_of_digits (dropWhile is_space (group (map_of gs) g)))
           in if rest = [] \<and> n ''Y'' \<ge> 1 \<and> valid_date (n ''Y'') (n ''m'') (n ''d'') \<and> valid_clock (n ''H'') (n ''M'') (n ''S'')
              then Some (instant (n ''Y'') (n ''m'') (n ''d'') (n ''H'') (n ''M'') (n ''S'') 0) else None)
      | [] \<Rightarrow> None)"

definition attestation_fields :: "pystr list" where
  "attestation_fields = map lit [''tier'', ''backend'', ''expected'', ''route'', ''probe'', ''scope'', ''at'']"

definition legacy_attestation_fields :: "pystr list" where
  "legacy_attestation_fields = map lit [''tier'', ''backend'', ''expected'', ''route'', ''probe'', ''at'']"

text \<open>The \<open>key=value\<close> parts; a part without \<open>=\<close> refuses the whole.\<close>

fun read_parts :: "pystr list \<Rightarrow> (pystr \<times> pystr) list \<Rightarrow> (pystr \<times> pystr) list option" where
  "read_parts [] kvs = Some kvs"
| "read_parts (p # ps) kvs =
     (case partition [61] p of
        (key, True, value) \<Rightarrow> read_parts ps (dict_set (strip key) (strip value) kvs)
      | _ \<Rightarrow> None)"

definition read_scope :: "(pystr \<times> pystr) list \<Rightarrow> attestation_scope option" where
  "read_scope kvs =
     (if fst ` set kvs = set attestation_fields
      then (if map_of kvs (lit ''scope'') = Some (lit ''turn'') then Some Turn_scope
            else if map_of kvs (lit ''scope'') = Some (lit ''probe'') then Some Probe_scope else None)
      else if fst ` set kvs = set legacy_attestation_fields then Some Probe_scope else None)"

definition parse_attestation_marker :: "pystr \<Rightarrow> attestation_record option" where
  "parse_attestation_marker body =
     (case rev (filter (\<lambda>l. strip l \<noteq> []) (splitlines body)) of
        [] \<Rightarrow> None
      | last_one # _ \<Rightarrow>
          (let line = strip last_one in
           if \<not> startswith line attest_prefix \<or> \<not> endswith line attest_suffix then None
           else let inner = strip (drop (length attest_prefix) (take (length line - length attest_suffix) line))
                in case read_parts (split_text field_sep inner) [] of
                     None \<Rightarrow> None
                   | Some kvs \<Rightarrow>
                       if \<not> list_all (\<lambda>(_, v). v \<noteq> []) kvs then None
                       else (let f = (\<lambda>k. case map_of kvs (lit k) of None \<Rightarrow> [] | Some v \<Rightarrow> v) in
                         case (read_scope kvs, read_at_format (f ''at'')) of
                           (Some scope, Some at) \<Rightarrow>
                             Some \<lparr>att_tier = f ''tier'', att_backend = f ''backend'', att_expected = f ''expected'',
                                   att_route = f ''route'', att_probe = f ''probe'', att_scope = scope, att_at = at\<rparr>
                         | _ \<Rightarrow> None)))"

definition attested :: "chat_msg \<Rightarrow> bool" where
  "attested m = (case parse_attestation_marker (chat_content m) of None \<Rightarrow> False | Some r \<Rightarrow> attestation_agrees r)"

section \<open>Tier-C declarations of the running segment\<close>

definition AUTONOMOUS_LOOP_ROLES :: "role set" where
  "AUTONOMOUS_LOOP_ROLES = {Proposer, Naysayer, Implementer}"

definition resolved_attempt_re :: rx where
  "resolved_attempt_re = seqs [spaces, itext_rx ''TIER-C-RESOLVED'', spaces, text_rx '':'']"

definition resolved_re :: rx where
  "resolved_re = seqs [spaces, text_rx ''TIER-C-RESOLVED: '', Grp ''msg_id'' (Seq (text_rx ''msg-'') (plus digit)),
     text_rx '' decided-by='', Grp ''by'' (plus non_space), text_rx '' on='',
     Grp ''on'' (seqs [digit, digit, digit, digit, text_rx ''-'', digit, digit, text_rx ''-'', digit, digit]),
     spaces, text_end]"

record tier_c_resolution =
  target_msg_id :: pystr
  decided_by :: pystr
  decided_on :: "nat \<times> nat \<times> nat"

record segment_scan =
  open_declarations :: "pystr list"
  resolved_declarations :: "pystr list"
  boundary_msg_id :: "pystr option"
  unmatched :: "pystr list"
  malformed :: "pystr list"
  ignored_non_recorder :: "pystr list"
  recorder_holds_loop_role :: "(pystr \<times> pystr \<times> role) list"
  roster_unknown :: "pystr list"

definition segment_declares_tier_c :: "segment_scan \<Rightarrow> bool" where
  "segment_declares_tier_c s \<longleftrightarrow> open_declarations s \<noteq> []"

definition is_recorder :: "(pystr \<Rightarrow> pystr) \<Rightarrow> pystr \<Rightarrow> pystr list \<Rightarrow> bool" where
  "is_recorder cf author recorders \<longleftrightarrow>
     cf author \<noteq> [] \<and> list_ex (\<lambda>r. r \<noteq> [] \<and> cf author = cf r) recorders"

text \<open>One line: no attempt, a malformed one, or a resolution.\<close>

definition read_resolution :: "(pystr \<Rightarrow> bool) \<Rightarrow> pystr \<Rightarrow> tier_c_resolution option option" where
  "read_resolution is_human line =
     (if rx_match resolved_attempt_re line = None then None
      else case rx_match resolved_re line of
             None \<Rightarrow> Some None
           | Some m \<Rightarrow>
               if \<not> is_human (group m ''by'') then Some None
               else Some (map_option (\<lambda>on. \<lparr>target_msg_id = group m ''msg_id'', decided_by = group m ''by'',
                                            decided_on = on\<rparr>) (read_date (group m ''on''))))"

definition parse_resolution_lines :: "(pystr \<Rightarrow> bool) \<Rightarrow> pystr \<Rightarrow> tier_c_resolution list \<times> bool" where
  "parse_resolution_lines is_human body =
     (let rs = List.map_filter (read_resolution is_human) (splitlines body)
      in (List.map_filter id rs, None \<in> set rs))"

definition has_resolution_attempt :: "pystr \<Rightarrow> bool" where
  "has_resolution_attempt body \<longleftrightarrow>
     list_ex (\<lambda>line. rx_match resolved_attempt_re line \<noteq> None) (splitlines body)"

text \<open>
  The walk from the newest post back to the last human one. \<open>pending\<close> holds, in order, the posts
  that resolutions met so far name, \<open>matched\<close> those found.
\<close>

record scan_state =
  pending :: "pystr list"
  matched :: "pystr list"
  found :: segment_scan

definition add_pending :: "pystr list \<Rightarrow> pystr list \<Rightarrow> pystr list" where
  "add_pending ps ts = foldl (\<lambda>qs t. if t \<in> set qs then qs else qs @ [t]) ps ts"

definition scan_declaration :: "chat_msg \<Rightarrow> scan_state \<Rightarrow> scan_state" where
  "scan_declaration m s =
     (if \<not> declares_tier_c (chat_content m) then s
      else if chat_id m \<noteq> [] \<and> chat_id m \<in> set (pending s)
      then s\<lparr>matched := chat_id m # matched s,
             found := (found s)\<lparr>resolved_declarations := chat_id m # resolved_declarations (found s)\<rparr>\<rparr>
      else s\<lparr>found := (found s)\<lparr>open_declarations := chat_id m # open_declarations (found s)\<rparr>\<rparr>)"

definition scan_resolutions ::
    "(pystr \<Rightarrow> bool) \<Rightarrow> (pystr \<Rightarrow> bool) \<Rightarrow> (pystr \<Rightarrow> role option) option \<Rightarrow> chat_msg \<Rightarrow> scan_state \<Rightarrow> scan_state" where
  "scan_resolutions is_human recorder role_of m s =
     (if \<not> has_resolution_attempt (chat_content m) then s
      else if \<not> recorder (chat_author m)
      then s\<lparr>found := (found s)\<lparr>ignored_non_recorder := chat_id m # ignored_non_recorder (found s)\<rparr>\<rparr>
      else case role_of of
        None \<Rightarrow> s\<lparr>found := (found s)\<lparr>roster_unknown := chat_id m # roster_unknown (found s)\<rparr>\<rparr>
      | Some f \<Rightarrow>
          (if f (chat_author m) \<in> Some ` AUTONOMOUS_LOOP_ROLES
           then s\<lparr>found := (found s)\<lparr>recorder_holds_loop_role :=
                  (chat_id m, chat_author m, the (f (chat_author m))) # recorder_holds_loop_role (found s)\<rparr>\<rparr>
           else (let (rs, bad) = parse_resolution_lines is_human (chat_content m);
                     s' = (if bad then s\<lparr>found := (found s)\<lparr>malformed := chat_id m # malformed (found s)\<rparr>\<rparr> else s)
                 in s'\<lparr>pending := add_pending (pending s') (map target_msg_id rs)\<rparr>)))"

fun scan_back ::
    "(pystr \<Rightarrow> bool) \<Rightarrow> (pystr \<Rightarrow> bool) \<Rightarrow> (pystr \<Rightarrow> role option) option \<Rightarrow> chat_msg list \<Rightarrow> scan_state \<Rightarrow> scan_state" where
  "scan_back is_human recorder role_of [] s = s"
| "scan_back is_human recorder role_of (m # ms) s =
     (if is_human (chat_author m)
      then s\<lparr>found := (found s)\<lparr>boundary_msg_id := (if chat_id m = [] then None else Some (chat_id m))\<rparr>\<rparr>
      else scan_back is_human recorder role_of ms
             (scan_resolutions is_human recorder role_of m (scan_declaration m s)))"

definition scan_start :: scan_state where
  "scan_start = \<lparr>pending = [], matched = [], found = \<lparr>open_declarations = [], resolved_declarations = [],
     boundary_msg_id = None, unmatched = [], malformed = [], ignored_non_recorder = [],
     recorder_holds_loop_role = [], roster_unknown = []\<rparr>\<rparr>"

definition scan_tier_c_segment ::
    "(pystr \<Rightarrow> pystr) \<Rightarrow> (pystr \<Rightarrow> bool) \<Rightarrow> pystr list \<Rightarrow> (pystr \<Rightarrow> role option) option \<Rightarrow>
     chat_msg list \<Rightarrow> segment_scan" where
  "scan_tier_c_segment cf is_human recorders role_of messages =
     (let s = scan_back is_human (\<lambda>author. is_recorder cf author recorders) role_of (rev messages) scan_start
      in (found s)\<lparr>unmatched := filter (\<lambda>t. t \<notin> set (matched s)) (pending s)\<rparr>)"

section \<open>Bounce notices\<close>

definition TIERC_BOUNCE_HEADER :: pystr where
  "TIERC_BOUNCE_HEADER = lit ''Conductor bounce '' @ [8212] @ lit '' Tier-C admission gate''"

definition is_bounce_notice :: "pystr \<Rightarrow> bool" where
  "is_bounce_notice content \<longleftrightarrow> startswith (lstrip content) TIERC_BOUNCE_HEADER"

definition bounced_line_re :: rx where
  "bounced_line_re = seqs [line_start, text_rx ''bounced: '', chr 96,
     Grp ''msg_id'' (plus (Test (\<lambda>c. c \<noteq> 96 \<and> \<not> is_space c))), chr 96, opt (chr 13), line_end]"

definition bounced_msg_id :: "pystr \<Rightarrow> pystr option" where
  "bounced_msg_id content =
     (if \<not> is_bounce_notice content then None
      else map_option (\<lambda>m. group m ''msg_id'') (rx_search bounced_line_re content))"

section \<open>What the scan finds\<close>

text \<open>The posts a post resolves: its resolution lines, when a recorder outside the loop roles wrote them.\<close>

definition resolves ::
    "(pystr \<Rightarrow> bool) \<Rightarrow> (pystr \<Rightarrow> bool) \<Rightarrow> (pystr \<Rightarrow> role option) option \<Rightarrow> chat_msg \<Rightarrow> pystr set" where
  "resolves is_human recorder role_of m =
     (case role_of of
        Some f \<Rightarrow>
          if has_resolution_attempt (chat_content m) \<and> recorder (chat_author m) \<and>
             f (chat_author m) \<notin> Some ` AUTONOMOUS_LOOP_ROLES
          then target_msg_id ` set (fst (parse_resolution_lines is_human (chat_content m))) else {}
      | None \<Rightarrow> {})"

lemma set_add_pending: "set (add_pending ps ts) = set ps \<union> set ts"
  unfolding add_pending_def by (induction ts arbitrary: ps) auto

lemma scan_resolutions_pending:
  "set (pending (scan_resolutions is_human recorder role_of m s)) = set (pending s) \<union> resolves is_human recorder role_of m"
  by (simp add: scan_resolutions_def resolves_def set_add_pending Let_def split: option.split prod.split)

lemma scan_resolutions_open [simp]:
  "open_declarations (found (scan_resolutions is_human recorder role_of m s)) = open_declarations (found s)"
  by (simp add: scan_resolutions_def Let_def split: option.split prod.split)

lemma scan_declaration_pending [simp]: "pending (scan_declaration m s) = pending s"
  by (simp add: scan_declaration_def)

lemma scan_declaration_open:
  "open_declarations (found (scan_declaration m s)) = [] \<longleftrightarrow>
   open_declarations (found s) = [] \<and>
   (declares_tier_c (chat_content m) \<longrightarrow> chat_id m \<noteq> [] \<and> chat_id m \<in> set (pending s))"
  by (auto simp: scan_declaration_def)

lemma split_Cons_iff: "(\<exists>later m earlier. x # xs = later @ m # earlier \<and> P m later) \<longleftrightarrow>
   P x [] \<or> (\<exists>later m earlier. xs = later @ m # earlier \<and> P m (x # later))"
  by (auto simp: Cons_eq_append_conv)

lemma scan_back_open:
  "open_declarations (found (scan_back is_human recorder role_of ms s)) \<noteq> [] \<longleftrightarrow>
   open_declarations (found s) \<noteq> [] \<or>
   (\<exists>later m earlier. takeWhile (\<lambda>m. \<not> is_human (chat_author m)) ms = later @ m # earlier \<and>
      declares_tier_c (chat_content m) \<and>
      (chat_id m = [] \<or> chat_id m \<notin> set (pending s) \<union> (\<Union>r\<in>set later. resolves is_human recorder role_of r)))"
proof (induction ms arbitrary: s)
  case (Cons x ms)
  show ?case
  proof (cases "is_human (chat_author x)")
    case False
    then show ?thesis
      unfolding takeWhile.simps(2) if_P [OF False] split_Cons_iff
      by (simp add: Cons.IH scan_resolutions_pending scan_declaration_open Un_assoc)
  qed simp
qed simp

text \<open>C39. The scan reports an open Tier-C declaration exactly when some post after the last human one declares a Tier-C
  decision and no later post of the segment, written by a recorder that holds no loop role, resolves it by its id; a
  declaration without an id stays open, and without a roster nothing is resolved.\<close>

theorem segment_open_iff:
  "segment_declares_tier_c (scan_tier_c_segment cf is_human recorders role_of messages) \<longleftrightarrow>
   (\<exists>later m earlier. takeWhile (\<lambda>m. \<not> is_human (chat_author m)) (rev messages) = later @ m # earlier \<and>
      declares_tier_c (chat_content m) \<and>
      \<not> (chat_id m \<noteq> [] \<and>
         chat_id m \<in> (\<Union>r\<in>set later. resolves is_human (\<lambda>a. is_recorder cf a recorders) role_of r)))"
  by (simp add: segment_declares_tier_c_def scan_tier_c_segment_def scan_back_open scan_start_def Let_def)

end
