(* ===== verification/HeadSkip.thy ===== *)
theory HeadSkip
  imports Handoff
begin

text \<open>
  When the sweep starts a run on a thread: \<open>conductor/head_skip.py\<close> (the stop tokens, the decision with
  its backoff, the records it keeps per thread), the step of \<open>scripts/head_skip_decide.py\<close> around it,
  and the watchdog of \<open>conductor/stall.py\<close>. \<open>cf\<close> is Python's \<open>casefold\<close>.
\<close>

section \<open>Constants\<close>

definition BASE :: duration where "BASE = minutes 15"
definition CAP :: duration where "CAP = minutes 60"
definition HEAD_CACHE_TTL :: duration where "HEAD_CACHE_TTL = minutes 60"

definition STOP_TOKENS :: "pystr list" where
  "STOP_TOKENS = map lit [''none'', ''human'', ''operator'']"

definition BODY_DEPENDENT_STOP_TOKENS :: "pystr list" where
  "BODY_DEPENDENT_STOP_TOKENS = [lit ''operator'']"

definition TERMINAL_STOP_REASONS :: "pystr list" where
  "TERMINAL_STOP_REASONS = map lit [''no_handoff_to_human'', ''no_progress_to_human'',
     ''self_handoff_to_human'', ''stalled_to_human'']"

definition FINISHED_STATUSES :: "pystr list" where
  "FINISHED_STATUSES = map lit [''resolved'', ''superseded'']"

definition is_terminal_status :: "pystr \<Rightarrow> bool" where
  "is_terminal_status status \<longleftrightarrow> status \<in> set FINISHED_STATUSES"

section \<open>Stop tokens\<close>

definition normalize_token :: "(pystr \<Rightarrow> pystr) \<Rightarrow> pystr \<Rightarrow> pystr" where
  "normalize_token cf name = (if name = [] then [] else cf (collapse_separators False (strip name)))"

definition parse_head_token :: "(pystr \<Rightarrow> pystr) \<Rightarrow> pystr \<Rightarrow> pystr" where
  "parse_head_token cf body = (case parse_next_token body of None \<Rightarrow> [] | Some raw \<Rightarrow> normalize_token cf raw)"

definition is_parked_operator :: "(pystr \<Rightarrow> pystr) \<Rightarrow> pystr \<Rightarrow> bool" where
  "is_parked_operator cf head_body \<longleftrightarrow> asks (resolve_handoff cf head_body [] None) = Some Operator_work"

definition stage1_skips :: "(pystr \<Rightarrow> pystr) \<Rightarrow> pystr \<Rightarrow> bool" where
  "stage1_skips cf head_body =
     (let tok = parse_head_token cf head_body
      in tok \<in> set STOP_TOKENS \<and> (tok \<noteq> lit ''operator'' \<or> is_parked_operator cf head_body))"

section \<open>The decision\<close>

datatype decision = Launch | Skip | Delay

record head_verdict =
  v_decision :: decision
  v_reason :: pystr
  v_token :: pystr
  v_token_raw :: "pystr option"
  v_progressed :: bool
  v_attempts_before :: int
  v_attempts_after :: int
  v_delay :: duration
  v_eligible_at :: "time option"

record launch_record =
  last_launch_at :: "time option"
  nomination_at_launch :: pystr
  control_at_launch :: pystr
  head_msg_id_at_launch :: pystr
  launch_attempts :: int
  head_observed_at :: "time option"
  last_observed_head_msg_id :: pystr
  last_observed_nomination :: pystr
  terminal_stop_reason :: pystr
  terminal_head_msg_id :: pystr
  last_observed_status :: pystr
  launches_same_head :: int

text \<open>\<open>Record()\<close>.\<close>

definition empty_record :: launch_record where
  "empty_record = \<lparr>last_launch_at = None, nomination_at_launch = [], control_at_launch = [],
     head_msg_id_at_launch = [], launch_attempts = 0, head_observed_at = None,
     last_observed_head_msg_id = [], last_observed_nomination = [], terminal_stop_reason = [],
     terminal_head_msg_id = [], last_observed_status = [], launches_same_head = 0\<rparr>"

definition backoff_delay :: "int \<Rightarrow> duration" where
  "backoff_delay attempts =
     (if attempts \<le> 0 then 0
      else let delay = BASE * 2 ^ nat (min (attempts - 1) 32) in if delay < CAP then delay else CAP)"

definition skip_verdict :: "pystr \<Rightarrow> pystr \<Rightarrow> pystr option \<Rightarrow> int \<Rightarrow> head_verdict" where
  "skip_verdict why tok raw attempts =
     \<lparr>v_decision = Skip, v_reason = why, v_token = tok, v_token_raw = raw, v_progressed = False,
      v_attempts_before = attempts, v_attempts_after = attempts, v_delay = 0, v_eligible_at = None\<rparr>"

definition record_attempts :: "launch_record option \<Rightarrow> int" where
  "record_attempts r = (case r of None \<Rightarrow> 0 | Some rec \<Rightarrow> launch_attempts rec)"

definition terminal_here :: "pystr \<Rightarrow> pystr \<Rightarrow> launch_record \<Rightarrow> bool" where
  "terminal_here head_msg_id tok rec \<longleftrightarrow>
     terminal_stop_reason rec \<in> set TERMINAL_STOP_REASONS \<and> terminal_head_msg_id rec \<noteq> [] \<and>
     terminal_head_msg_id rec = head_msg_id \<and>
     (last_launch_at rec = None \<or> tok = [] \<or> tok = nomination_at_launch rec)"

definition has_progressed :: "pystr \<Rightarrow> pystr \<Rightarrow> launch_record \<Rightarrow> bool" where
  "has_progressed tok control_state rec \<longleftrightarrow>
     tok \<noteq> nomination_at_launch rec \<or> control_state \<noteq> control_at_launch rec \<or>
     tok \<noteq> [] \<and> last_observed_nomination rec \<noteq> [] \<and> tok \<noteq> last_observed_nomination rec"

definition decide ::
    "(pystr \<Rightarrow> pystr) \<Rightarrow> time \<Rightarrow> pystr \<Rightarrow> pystr \<Rightarrow> pystr \<Rightarrow> launch_record option \<Rightarrow> pystr \<Rightarrow> head_verdict" where
  "decide cf now head_msg_id head_body control_state r thread_status =
     (let tok = parse_head_token cf head_body; raw = parse_next_token head_body
      in if is_terminal_status thread_status
         then skip_verdict (lit ''thread-'' @ thread_status) tok raw (record_attempts r)
         else if stage1_skips cf head_body
         then skip_verdict (lit ''stop-token'') tok raw (record_attempts r)
         else if (case r of None \<Rightarrow> False | Some rec \<Rightarrow> terminal_here head_msg_id tok rec)
         then skip_verdict (lit ''terminal-stop:'' @ terminal_stop_reason (the r)) tok raw (record_attempts r)
         else case (case r of None \<Rightarrow> None | Some rec \<Rightarrow> map_option (Pair rec) (last_launch_at rec)) of
           None \<Rightarrow> \<lparr>v_decision = Launch, v_reason = lit ''no-prior-record'', v_token = tok, v_token_raw = raw,
                    v_progressed = False, v_attempts_before = 0, v_attempts_after = 1, v_delay = 0,
                    v_eligible_at = Some now\<rparr>
         | Some (rec, launched) \<Rightarrow>
             (let progressed = has_progressed tok control_state rec;
                  before = launch_attempts rec;
                  next_series = (if progressed then 0 else before);
                  delay = backoff_delay next_series;
                  ready_at = launched + delay
              in if delay > 0 \<and> now < ready_at
                 then \<lparr>v_decision = Delay, v_reason = lit ''backoff'', v_token = tok, v_token_raw = raw,
                       v_progressed = progressed, v_attempts_before = before, v_attempts_after = before,
                       v_delay = delay, v_eligible_at = Some ready_at\<rparr>
                 else \<lparr>v_decision = Launch,
                       v_reason = (if progressed then lit ''progressed'' else lit ''backoff-elapsed''),
                       v_token = tok, v_token_raw = raw, v_progressed = progressed,
                       v_attempts_before = before, v_attempts_after = next_series + 1, v_delay = delay,
                       v_eligible_at = Some now\<rparr>))"

section \<open>The records\<close>

text \<open>\<open>None\<close> is the \<open>ValueError\<close> for a verdict that does not launch.\<close>

definition commit_launch ::
    "time \<Rightarrow> pystr \<Rightarrow> head_verdict \<Rightarrow> pystr \<Rightarrow> bool \<Rightarrow> launch_record option \<Rightarrow> pystr \<Rightarrow> launch_record option" where
  "commit_launch now head_msg_id v control_state head_fetched prior thread_status =
     (if v_decision v \<noteq> Launch then None
      else let p = (case prior of None \<Rightarrow> empty_record | Some rec \<Rightarrow> rec)
           in Some \<lparr>last_launch_at = Some now, nomination_at_launch = v_token v,
                control_at_launch = control_state, head_msg_id_at_launch = head_msg_id,
                launch_attempts = v_attempts_after v,
                head_observed_at = (if head_fetched then Some now else head_observed_at p),
                last_observed_head_msg_id = (if head_fetched then head_msg_id else last_observed_head_msg_id p),
                last_observed_nomination = (if head_fetched then v_token v else last_observed_nomination p),
                terminal_stop_reason = [], terminal_head_msg_id = [],
                last_observed_status = (if head_fetched then thread_status else last_observed_status p),
                launches_same_head =
                  (if prior \<noteq> None \<and> head_msg_id \<noteq> [] \<and> head_msg_id_at_launch p = head_msg_id
                   then launches_same_head p + 1 else 1)\<rparr>)"

definition commit_observation ::
    "time \<Rightarrow> pystr \<Rightarrow> pystr \<Rightarrow> launch_record option \<Rightarrow> pystr \<Rightarrow> launch_record" where
  "commit_observation now head_msg_id tok r thread_status =
     (case r of None \<Rightarrow> empty_record | Some rec \<Rightarrow> rec)
       \<lparr>head_observed_at := Some now, last_observed_head_msg_id := head_msg_id,
        last_observed_nomination := tok, last_observed_status := thread_status\<rparr>"

definition commit_terminal :: "pystr \<Rightarrow> pystr \<Rightarrow> launch_record option \<Rightarrow> launch_record" where
  "commit_terminal why head_msg_id r =
     (let terminal = why \<in> set TERMINAL_STOP_REASONS
      in (case r of None \<Rightarrow> empty_record | Some rec \<Rightarrow> rec)
           \<lparr>terminal_stop_reason := (if terminal then why else []),
            terminal_head_msg_id := (if terminal \<and> head_msg_id \<noteq> [] then head_msg_id else [])\<rparr>)"

definition needs_head_reparse :: "launch_record option \<Rightarrow> time \<Rightarrow> bool" where
  "needs_head_reparse r now =
     (case r of None \<Rightarrow> True
      | Some rec \<Rightarrow> (case head_observed_at rec of None \<Rightarrow> True | Some t \<Rightarrow> now - t \<ge> HEAD_CACHE_TTL))"

definition can_reuse_cached_parse :: "launch_record option \<Rightarrow> pystr \<Rightarrow> time \<Rightarrow> bool" where
  "can_reuse_cached_parse r head_msg_id now =
     (case r of None \<Rightarrow> False
      | Some rec \<Rightarrow>
          if head_msg_id = [] \<or> last_observed_head_msg_id rec = [] then False
          else if last_observed_head_msg_id rec \<noteq> head_msg_id then False
          else if last_observed_nomination rec \<in> set BODY_DEPENDENT_STOP_TOKENS then False
          else \<not> needs_head_reparse r now)"

section \<open>One candidate of a tick\<close>

text \<open>
  What the step reads for a candidate: the head the body belongs to, the body, whether it was
  fetched, and the status. \<open>fetched\<close> is the answer of the chatroom service, \<open>None\<close> when it failed.
\<close>

definition read_head ::
    "launch_record option \<Rightarrow> pystr \<Rightarrow> time \<Rightarrow> (pystr \<times> pystr \<times> pystr) option \<Rightarrow> pystr \<times> pystr \<times> bool \<times> pystr" where
  "read_head r head_msg_id now fetched =
     (if can_reuse_cached_parse r head_msg_id now
      then (head_msg_id, lit ''NEXT: '' @ last_observed_nomination (the r), False, last_observed_status (the r))
      else case fetched of
        None \<Rightarrow> (head_msg_id, [], False,
                 (case r of None \<Rightarrow> []
                  | Some rec \<Rightarrow> if head_msg_id \<noteq> [] \<and> last_observed_head_msg_id rec = head_msg_id
                                then last_observed_status rec else []))
      | Some (actual, body, status) \<Rightarrow> (actual, body, True, status))"

record tick_result =
  tick_verdict :: head_verdict
  tick_head :: pystr
  tick_fetched :: bool
  tick_status :: pystr
  tick_record :: "launch_record option"

definition decide_one ::
    "(pystr \<Rightarrow> pystr) \<Rightarrow> bool \<Rightarrow> time \<Rightarrow> pystr \<Rightarrow> pystr \<Rightarrow> launch_record option \<Rightarrow>
     (pystr \<times> pystr \<times> pystr) option \<Rightarrow> tick_result" where
  "decide_one cf is_live now head_msg_id control_state r fetched =
     (let (actual, body, was_fetched, status) = read_head r head_msg_id now fetched;
          v = decide cf now actual body control_state r status
      in \<lparr>tick_verdict = v, tick_head = actual, tick_fetched = was_fetched, tick_status = status,
          tick_record = (if is_live \<and> was_fetched
                         then Some (commit_observation now actual (parse_head_token cf body) r status) else r)\<rparr>)"

section \<open>The stall watchdog\<close>

definition STALL_THRESHOLD :: int where "STALL_THRESHOLD = 3"

definition is_stalled :: "int \<Rightarrow> pystr option \<Rightarrow> pystr \<Rightarrow> bool" where
  "is_stalled launches launch_head_msg_id head_msg_id =
     (if launches < STALL_THRESHOLD then False
      else if launch_head_msg_id = None \<or> launch_head_msg_id = Some [] \<or> head_msg_id = [] then False
      else launch_head_msg_id = Some head_msg_id)"

text \<open>
  A launch whose session never started is undone: the record it replaced comes back, or none, if the
  record is still the one it committed; otherwise the revert is refused (\<open>None\<close>).
\<close>

definition revert_launch ::
    "launch_record option \<Rightarrow> launch_record \<Rightarrow> launch_record option \<Rightarrow> launch_record option option" where
  "revert_launch current committed prior = (if current \<noteq> Some committed then None else Some prior)"

section \<open>A thread under the sweep\<close>

text \<open>
  The record of one thread and its launches that were not undone, newest first: the instant of the
  launch, the head it was launched on, and whether the decision saw progress. A tick decides, and saves
  what it observed; a launch is committed later, on the record the tick left, and is reverted when its
  session never started; a run may report a terminal stop. The sweep is the one writer of the record.
\<close>

type_synonym launches = "(time \<times> pystr \<times> bool) list"

inductive sweep :: "(pystr \<Rightarrow> pystr) \<Rightarrow> launch_record option \<Rightarrow> launches \<Rightarrow> bool" for cf where
  sweep_start: "sweep cf None []"
| sweep_tick: "sweep cf r log \<Longrightarrow> sweep cf (tick_record (decide_one cf is_live now head control r fetched)) log"
| sweep_launch: "sweep cf r log \<Longrightarrow> res = decide_one cf is_live now head control r fetched \<Longrightarrow>
    commit_launch committed (tick_head res) (tick_verdict res) control (tick_fetched res) (tick_record res)
      (tick_status res) = Some r' \<Longrightarrow> now \<le> committed \<Longrightarrow>
    sweep cf (Some r') ((committed, tick_head res, v_progressed (tick_verdict res)) # log)"
| sweep_revert: "sweep cf r log \<Longrightarrow> res = decide_one cf is_live now head control r fetched \<Longrightarrow>
    commit_launch committed (tick_head res) (tick_verdict res) control (tick_fetched res) (tick_record res)
      (tick_status res) = Some r' \<Longrightarrow>
    revert_launch (Some r') r' (tick_record res) = Some restored \<Longrightarrow> sweep cf restored log"
| sweep_terminal: "sweep cf r log \<Longrightarrow> sweep cf (Some (commit_terminal why head r)) log"

text \<open>How many launches the running series without progress has, and how many in a row found the same head.\<close>

fun series :: "launches \<Rightarrow> int" where
  "series [] = 0"
| "series ((t, h, progressed) # log) = (if progressed then 1 else series log + 1)"

fun same_head :: "launches \<Rightarrow> int" where
  "same_head [] = 0"
| "same_head ((t, h, p) # log) =
     (case log of (t', h', p') # _ \<Rightarrow> if h \<noteq> [] \<and> h' = h then same_head log + 1 else 1 | [] \<Rightarrow> 1)"

fun spaced :: "launches \<Rightarrow> bool" where
  "spaced ((t, h, progressed) # (t', e') # log) \<longleftrightarrow>
     (progressed \<or> t' + backoff_delay (series ((t', e') # log)) \<le> t) \<and> spaced ((t', e') # log)"
| "spaced log = True"

text \<open>What the record says of the launches.\<close>

definition tells :: "launch_record \<Rightarrow> launches \<Rightarrow> bool" where
  "tells r log \<longleftrightarrow> launch_attempts r = series log \<and> launches_same_head r = same_head log \<and>
     last_launch_at r = (case log of [] \<Rightarrow> None | e # _ \<Rightarrow> Some (fst e)) \<and>
     head_msg_id_at_launch r = (case log of [] \<Rightarrow> [] | e # _ \<Rightarrow> fst (snd e))"

lemma tells_observation [simp]:
  "tells (commit_observation now head tok r st) log \<longleftrightarrow> tells (case r of None \<Rightarrow> empty_record | Some rec \<Rightarrow> rec) log"
  "tells (commit_terminal why head r) log \<longleftrightarrow> tells (case r of None \<Rightarrow> empty_record | Some rec \<Rightarrow> rec) log"
  by (simp_all add: tells_def commit_observation_def commit_terminal_def Let_def)

lemma tells_empty: "tells empty_record log \<Longrightarrow> log = []"
  by (auto simp: tells_def empty_record_def split: list.splits)

lemma decide_attempts:
  assumes v: "v = decide cf now h body control r st" and launch: "v_decision v = Launch"
    and r: "tells (case r of None \<Rightarrow> empty_record | Some rec \<Rightarrow> rec) log"
  shows "v_attempts_after v = (if v_progressed v then 1 else series log + 1)"
    and "(log = [] \<or> v_progressed v \<or> fst (hd log) + backoff_delay (series log) \<le> now \<or>
       backoff_delay (series log) = 0)"
proof -
  have "r = None \<or> (\<exists>rec. r = Some rec \<and> last_launch_at rec = None \<and> log = []) \<or>
    (\<exists>rec t. r = Some rec \<and> last_launch_at rec = Some t \<and> log \<noteq> [] \<and> fst (hd log) = t \<and>
       launch_attempts rec = series log)"
    using r by (cases r) (auto simp: tells_def split: list.splits)
  moreover have "log = []" if "r = None" using r that tells_empty by simp
  ultimately show "v_attempts_after v = (if v_progressed v then 1 else series log + 1)"
    and "(log = [] \<or> v_progressed v \<or> fst (hd log) + backoff_delay (series log) \<le> now \<or>
       backoff_delay (series log) = 0)"
    using launch unfolding v
    by (auto simp: decide_def Let_def skip_verdict_def backoff_delay_def BASE_def CAP_def minutes_def seconds_def
        split: if_splits)
qed

lemma series_pos: "log \<noteq> [] \<Longrightarrow> 1 \<le> series log"
proof (induction log)
  case (Cons e log)
  then show ?case by (cases e; cases "log = []") auto
qed simp

lemma backoff_table:
  "backoff_delay n = (if n \<le> 0 then 0 else if n = 1 then minutes 15 else if n = 2 then minutes 30 else minutes 60)"
proof (cases "n \<le> 2")
  case True
  then have "n \<le> 0 \<or> n = 1 \<or> n = 2" by linarith
  then show ?thesis by (auto simp: backoff_delay_def BASE_def CAP_def minutes_def seconds_def)
next
  case False
  define k where "k = nat (min (n - 1) 32)"
  have "2 \<le> k" using False by (simp add: k_def)
  then have "(2::int) ^ 2 \<le> 2 ^ k" by (rule power_increasing) simp
  then have "4 \<le> (2::int) ^ k" by simp
  then have "\<not> BASE * 2 ^ k < CAP" by (simp add: BASE_def CAP_def minutes_def seconds_def)
  then show ?thesis using False by (simp add: backoff_delay_def Let_def k_def [symmetric] CAP_def)
qed

abbreviation known :: "launch_record option \<Rightarrow> launch_record" where
  "known r \<equiv> case r of None \<Rightarrow> empty_record | Some rec \<Rightarrow> rec"

lemma tells_tick: "tells (known r) log \<Longrightarrow> tells (known (tick_record (decide_one cf is_live now head control r fetched))) log"
  by (auto simp: decide_one_def Let_def split: prod.split)

lemma tells_launch:
  assumes prior: "tells (known r) log" and commit: "commit_launch at h v control fetched r st = Some r'"
    and attempts: "v_attempts_after v = (if v_progressed v then 1 else series log + 1)"
  shows "tells r' ((at, h, v_progressed v) # log)"
proof (cases log)
  case Nil
  then show ?thesis
    using assms by (auto simp: commit_launch_def tells_def Let_def split: if_splits option.splits)
next
  case (Cons e es)
  then obtain rec where r: "r = Some rec" using prior tells_empty by (cases r) auto
  obtain t' h' p' where e: "e = (t', h', p')" by (cases e)
  have "launches_same_head r' = (if h \<noteq> [] \<and> h' = h then same_head log + 1 else 1)"
    using commit prior unfolding Cons r e
    by (auto simp: commit_launch_def tells_def Let_def split: if_splits simp del: same_head.simps)
  moreover have "same_head ((at, h, v_progressed v) # log) = (if h \<noteq> [] \<and> h' = h then same_head log + 1 else 1)"
    by (simp add: Cons e)
  ultimately show ?thesis
    using commit attempts by (auto simp: commit_launch_def tells_def Let_def split: if_splits)
qed

lemma sweep_tells: "sweep cf r log \<Longrightarrow> tells (known r) log"
proof (induction rule: sweep.induct)
  case sweep_start
  show ?case by (simp add: tells_def empty_record_def)
next
  case (sweep_tick r log is_live now head control fetched)
  show ?case by (rule tells_tick [OF sweep_tick.IH])
next
  case (sweep_launch r log res is_live now head control fetched committed r')
  have launch: "v_decision (tick_verdict res) = Launch"
    using sweep_launch.hyps(3) by (auto simp: commit_launch_def split: if_splits)
  obtain actual body f st where "read_head r head now fetched = (actual, body, f, st)" by (metis prod_cases4)
  then have v: "tick_verdict res = decide cf now actual body control r st"
    using sweep_launch.hyps(2) by (simp add: decide_one_def)
  have "tells (known (tick_record res)) log"
    using sweep_launch.IH sweep_launch.hyps(2) by (simp add: tells_tick)
  then show ?case
    using tells_launch [OF _ sweep_launch.hyps(3) decide_attempts(1) [OF v launch sweep_launch.IH]] by simp
next
  case (sweep_revert r log res is_live now head control fetched committed r' restored)
  then show ?case using tells_tick [OF sweep_revert.IH] by (auto simp: revert_launch_def)
next
  case (sweep_terminal r log why head)
  then show ?case by simp
qed

lemma sweep_spaced: "sweep cf r log \<Longrightarrow> spaced log"
proof (induction rule: sweep.induct)
  case (sweep_launch r log res is_live now head control fetched committed r')
  have launch: "v_decision (tick_verdict res) = Launch"
    using sweep_launch.hyps(3) by (auto simp: commit_launch_def split: if_splits)
  obtain actual body f st where "read_head r head now fetched = (actual, body, f, st)" by (metis prod_cases4)
  then have v: "tick_verdict res = decide cf now actual body control r st"
    using sweep_launch.hyps(2) by (simp add: decide_one_def)
  have "log = [] \<or> v_progressed (tick_verdict res) \<or> fst (hd log) + backoff_delay (series log) \<le> now"
    using decide_attempts(2) [OF v launch sweep_tells [OF sweep_launch.hyps(1)]] series_pos [of log]
    by (auto simp: backoff_table minutes_def seconds_def split: if_splits)
  then show ?case
    using sweep_launch.IH sweep_launch.hyps(4) by (cases log) auto
qed simp_all

lemma same_head_pos: "log \<noteq> [] \<Longrightarrow> 1 \<le> same_head log"
proof (induction log)
  case (Cons e log)
  obtain t h p where "e = (t, h, p)" by (cases e)
  then show ?case using Cons.IH by (cases log) auto
qed simp

lemma same_head_steps:
  "same_head [(t, h, p)] = 1"
  "same_head ((t, h, p) # (t', h', p') # log) = (if h \<noteq> [] \<and> h' = h then same_head ((t', h', p') # log) + 1 else 1)"
  by simp_all

declare same_head.simps(2) [simp del]

lemma same_head_2: "2 \<le> same_head ((t, h, p) # log) \<longleftrightarrow> h \<noteq> [] \<and> (\<exists>t1 p1 rest. log = (t1, h, p1) # rest)"
  using same_head_pos [of log] by (cases log) (auto simp: same_head_steps split: if_splits)

lemma same_head_3:
  "3 \<le> same_head ((t, h, p) # log) \<longleftrightarrow> h \<noteq> [] \<and> (\<exists>t1 p1 t2 p2 rest. log = (t1, h, p1) # (t2, h, p2) # rest)"
proof (cases log)
  case (Cons e es)
  obtain t1 h1 p1 where e: "e = (t1, h1, p1)" by (cases e)
  have "3 \<le> same_head ((t, h, p) # log) \<longleftrightarrow> h \<noteq> [] \<and> h1 = h \<and> 2 \<le> same_head ((t1, h1, p1) # es)"
    by (simp add: Cons e same_head_steps)
  then show ?thesis unfolding same_head_2 by (auto simp: Cons e)
qed (simp add: same_head_steps)

text \<open>A thread whose head cannot be read, launched again and again on it.\<close>

definition quiet_record :: "time \<Rightarrow> int \<Rightarrow> launch_record" where
  "quiet_record t n = empty_record\<lparr>last_launch_at := Some t, head_msg_id_at_launch := [1],
     launch_attempts := n, launches_same_head := n\<rparr>"

lemma no_token [simp]: "parse_head_token cf [] = []" "parse_next_token [] = None"
  by (simp_all add: parse_head_token_def parse_next_token_def last_next_raw_def next_line_re_def decoration_def
      not_word_continuation_def regex_simps)

lemma silent_head [simp]: "\<not> is_terminal_status []" "\<not> stage1_skips cf []"
  "\<not> [] \<in> set TERMINAL_STOP_REASONS"
  by (simp_all add: is_terminal_status_def FINISHED_STATUSES_def stage1_skips_def STOP_TOKENS_def
      TERMINAL_STOP_REASONS_def lit_Cons)

lemma quiet_launches: "sweep id (Some (quiet_record 0 1)) [(0, [1], False)]"
  "sweep id (Some (quiet_record t n)) log \<Longrightarrow> 1 \<le> n \<Longrightarrow> t + backoff_delay n \<le> t' \<Longrightarrow>
     sweep id (Some (quiet_record t' (n + 1))) ((t', [1], False) # log)"
proof -
  show "sweep id (Some (quiet_record 0 1)) [(0, [1], False)]"
    using sweep_launch [OF sweep_start refl, where cf = id and is_live = True and now = 0 and head = "[1]" and control = "[]"
        and fetched = None and committed = 0 and r' = "quiet_record 0 1"]
    by (simp add: decide_one_def read_head_def can_reuse_cached_parse_def decide_def commit_launch_def quiet_record_def empty_record_def)
next
  assume "sweep id (Some (quiet_record t n)) log" "1 \<le> n" "t + backoff_delay n \<le> t'"
  then show "sweep id (Some (quiet_record t' (n + 1))) ((t', [1], False) # log)"
    using sweep_launch [OF _ refl, where cf = id and r = "Some (quiet_record t n)" and log = log and is_live = True
        and now = t' and head = "[1]" and control = "[]" and fetched = None and committed = t'
        and r' = "quiet_record t' (n + 1)"]
    by (simp add: decide_one_def read_head_def can_reuse_cached_parse_def decide_def commit_launch_def quiet_record_def empty_record_def
        terminal_here_def has_progressed_def Let_def)
qed

lemma quiet_thrice: "sweep id (Some (quiet_record (minutes 45) 3))
    [(minutes 45, [1], False), (minutes 15, [1], False), (0, [1], False)]"
  using quiet_launches(2) [OF quiet_launches(2) [OF quiet_launches(1)], of "minutes 15" "minutes 45"]
  by (simp add: backoff_table minutes_def seconds_def)

section \<open>Properties\<close>

text \<open>C40. The launches of one thread that saw no progress back off: before a launch whose decision saw no progress (the
  nomination and the control state are those of the last launch, and a nomination observed since did not change) at least 15, 30
  or 60 minutes have passed since the launch before it, as that one was the first, the second or a later one of its series of
  launches without progress. Heads, cache hits, failed reads, terminal stops and reverted launches may come in between;
  a reverted launch does not count.\<close>

theorem relaunches_back_off:
  assumes "sweep cf r (later @ (t2, h2, False) # (t1, e1) # earlier)"
  shows "t1 + (let n = series ((t1, e1) # earlier)
               in if n = 1 then minutes 15 else if n = 2 then minutes 30 else minutes 60) \<le> t2"
proof -
  have "spaced (later @ (t2, h2, False) # (t1, e1) # earlier)" by (rule sweep_spaced [OF assms])
  then have "spaced ((t2, h2, False) # (t1, e1) # earlier)"
  proof (induction later)
    case (Cons e es)
    then show ?case by (cases e; cases es) auto
  qed simp
  then show ?thesis
    using series_pos [of "(t1, e1) # earlier"] by (cases e1) (auto simp: backoff_table Let_def split: if_splits)
qed

lemma relaunches_back_off_witness:
  "0 + minutes 15 \<le> minutes 15 \<and> minutes 15 + minutes 30 \<le> minutes 45"
  using relaunches_back_off [of id "Some (quiet_record (minutes 45) 3)" "[]" "minutes 45" "[1]" "minutes 15"
      "([1], False)" "[(0, [1], False)]"]
    relaunches_back_off [of id "Some (quiet_record (minutes 45) 3)" "[(minutes 45, [1], False)]" "minutes 15" "[1]" 0
      "([1], False)" "[]"]
    quiet_thrice by (simp add: Let_def)

text \<open>The watchdog of a run stands it down exactly when this launch is the third in a row, or a later one, that was
  started on the head the run finds.\<close>

theorem stalled_on_third_launch:
  assumes "sweep cf (Some r) ((t, launch_head, p) # earlier)"
  shows "is_stalled (launches_same_head r) (Some (head_msg_id_at_launch r)) head \<longleftrightarrow>
    head \<noteq> [] \<and> head = launch_head \<and>
    (\<exists>t1 p1 t2 p2 rest. earlier = (t1, head, p1) # (t2, head, p2) # rest)"
proof -
  have "tells r ((t, launch_head, p) # earlier)" using sweep_tells [OF assms] by simp
  then have "launches_same_head r = same_head ((t, launch_head, p) # earlier)" "head_msg_id_at_launch r = launch_head"
    by (simp_all add: tells_def)
  then show ?thesis
    using same_head_3 [of t launch_head p earlier] unfolding is_stalled_def STALL_THRESHOLD_def
    by auto
qed


lemma stalled_on_third_launch_witness: "is_stalled 3 (Some [1]) [1] \<and> \<not> is_stalled 3 (Some [1]) [2]"
  using stalled_on_third_launch [OF quiet_thrice, of "[1]"] stalled_on_third_launch [OF quiet_thrice, of "[2]"]
  by (auto simp: quiet_record_def intro: exI [of _ False])

end
