(* ===== verification/Gate.thy ===== *)
theory Gate
  imports Prelude
begin

text \<open>
  The admission of the pull request gate (\<open>gate_admission.py\<close>): may the gate review a head now, must
  the loop wait for its checks, or does somebody else speak next; and the route of a relayed verdict
  (\<open>conductor/gate_records.py\<close>).
\<close>

section \<open>The check rollup\<close>

datatype admission_verdict = Invoke | Defer | Route_implementer | Route_human | Already_reviewed

datatype clock = Check_clock | Commit_clock

record check_row =
  check_name :: pystr
  check_status :: pystr
  conclusion :: "pystr option"
  started_at :: "time option"
  check_created_at :: "time option"

record clock_start =
  clock_at :: time
  clock_source :: clock

datatype admission_rule = R0_override | R1a | R1b | R2 | R3 | R4 | R5 | R6 | R7

text \<open>The facts the one-line reason of a result prints.\<close>

datatype admission_reason =
    Manual_override pystr
  | Empty_within_grace pystr duration
  | Empty_past_grace pystr duration
  | Checks_incomplete pystr clock_start
  | Checks_stuck pystr "(pystr \<times> pystr) list" clock_start
  | Red_twice pystr
  | Red_once pystr
  | Verdict_exists pystr
  | Checks_green pystr

record admission_result =
  admission :: admission_verdict
  rule :: admission_rule
  reason :: admission_reason

definition COMPLETED :: pystr where
  "COMPLETED = lit ''completed''"

definition RED_CONCLUSIONS :: "pystr list" where
  "RED_CONCLUSIONS = map lit [''failure'', ''timed_out'', ''cancelled'', ''action_required'', ''startup_failure'']"

definition CAP_CHECK :: duration where "CAP_CHECK = hours 6"
definition CAP_NOCLOCK :: duration where "CAP_NOCLOCK = hours 12"
definition CAP_EMPTY_RACE :: duration where "CAP_EMPTY_RACE = minutes 5"

definition concluded :: "check_row list \<Rightarrow> bool" where
  "concluded rollup = (if rollup = [] then False else list_all (\<lambda>c. check_status c = COMPLETED) rollup)"

definition row_is_red :: "check_row \<Rightarrow> bool" where
  "row_is_red c \<longleftrightarrow> (case conclusion c of None \<Rightarrow> [] | Some s \<Rightarrow> s) \<in> set RED_CONCLUSIONS"

definition rollup_is_red :: "check_row list \<Rightarrow> bool" where
  "rollup_is_red rollup \<longleftrightarrow> concluded rollup \<and> list_ex row_is_red rollup"

text \<open>The time a row contributes to the clock: when it started, else when it was created.\<close>

definition row_time :: "check_row \<Rightarrow> time option" where
  "row_time c = (case started_at c of Some t \<Rightarrow> Some t | None \<Rightarrow> check_created_at c)"

definition ci_clock_start :: "check_row list \<Rightarrow> time \<Rightarrow> clock_start" where
  "ci_clock_start rollup head_committed_date =
     (case List.map_filter row_time rollup of
        t # ts \<Rightarrow> \<lparr>clock_at = foldl min t ts, clock_source = Check_clock\<rparr>
      | [] \<Rightarrow> \<lparr>clock_at = head_committed_date, clock_source = Commit_clock\<rparr>)"

definition r3_escalation :: "check_row list \<Rightarrow> clock_start \<Rightarrow> pystr \<Rightarrow> admission_reason" where
  "r3_escalation rollup clk head_sha =
     Checks_stuck (take 12 head_sha)
       (map (\<lambda>c. (check_name c, check_status c)) (filter (\<lambda>c. check_status c \<noteq> COMPLETED) rollup)) clk"

section \<open>The admission\<close>

definition gate_admission ::
    "check_row list \<Rightarrow> pystr \<Rightarrow> time \<Rightarrow> time \<Rightarrow> time \<Rightarrow> bool \<Rightarrow> pystr set \<Rightarrow> pystr set \<Rightarrow> admission_result" where
  "gate_admission rollup head_sha head_committed_date head_pushed_at now nomination_is_self
       verdict_heads ci_red_routed_heads =
     (let short = take 12 head_sha
      in if \<not> nomination_is_self
         then \<lparr>admission = Invoke, rule = R0_override, reason = Manual_override short\<rparr>
         else if rollup = []
         then (let push_age = now - head_pushed_at
               in if push_age \<le> CAP_EMPTY_RACE
                  then \<lparr>admission = Defer, rule = R1a, reason = Empty_within_grace short push_age\<rparr>
                  else \<lparr>admission = Invoke, rule = R1b, reason = Empty_past_grace short push_age\<rparr>)
         else if \<not> concluded rollup
         then (let clk = ci_clock_start rollup head_committed_date;
                   cap = (if clock_source clk = Check_clock then CAP_CHECK else CAP_NOCLOCK)
               in if now - clock_at clk \<le> cap
                  then \<lparr>admission = Defer, rule = R2, reason = Checks_incomplete short clk\<rparr>
                  else \<lparr>admission = Route_human, rule = R3, reason = r3_escalation rollup clk head_sha\<rparr>)
         else if rollup_is_red rollup
         then (if head_sha \<in> ci_red_routed_heads
               then \<lparr>admission = Route_human, rule = R5, reason = Red_twice short\<rparr>
               else \<lparr>admission = Route_implementer, rule = R4, reason = Red_once short\<rparr>)
         else if head_sha \<in> verdict_heads
         then \<lparr>admission = Already_reviewed, rule = R6, reason = Verdict_exists short\<rparr>
         else \<lparr>admission = Invoke, rule = R7, reason = Checks_green short\<rparr>)"

section \<open>The route of a verdict\<close>

datatype review_event = Approve | Request_changes | Comment

datatype objection_parse = Objections_ok | Objections_empty | Objections_missing | Objections_unknown | Objections_no_evidence

datatype ci_state = Ci_success | Ci_failure | Ci_pending | Ci_unknown

datatype relay_route = To_implementer | To_human | To_merge

definition AUTO_MERGE_BASES :: "pystr set" where
  "AUTO_MERGE_BASES = {lit ''develop''}"

definition carries_advisory :: "review_event \<Rightarrow> objection_parse \<Rightarrow> bool" where
  "carries_advisory verdict objections \<longleftrightarrow>
     verdict = Approve \<and> objections \<notin> {Objections_empty, Objections_missing}"

definition decide_relay_route ::
    "review_event \<Rightarrow> objection_parse \<Rightarrow> nat option \<Rightarrow> pystr option \<Rightarrow> pystr option \<Rightarrow> ci_state option \<Rightarrow>
     relay_route" where
  "decide_relay_route verdict objections prior_advisory_approvals implementer base_ref ci =
     (let last_row = (if (case base_ref of None \<Rightarrow> False | Some b \<Rightarrow> b \<in> AUTO_MERGE_BASES) \<and> ci = Some Ci_success
                      then To_merge else To_human)
      in if implementer = None \<or> implementer = Some [] then To_human
         else if verdict = Request_changes then To_implementer
         else if verdict \<noteq> Approve then To_human
         else if carries_advisory verdict objections
         then (case prior_advisory_approvals of
                 None \<Rightarrow> To_human
               | Some n \<Rightarrow> if n = 0 then To_implementer else last_row)
         else last_row)"

section \<open>What the admission promises\<close>

text \<open>Where a result comes from, each row of the table by itself.\<close>

lemmas admission_simps = gate_admission_def rollup_is_red_def Let_def

lemma admission_rule_agrees:
  "admission (gate_admission rollup sha dc dp now self vh rh) =
     (case rule (gate_admission rollup sha dc dp now self vh rh) of
        R0_override \<Rightarrow> Invoke | R1a \<Rightarrow> Defer | R1b \<Rightarrow> Invoke | R2 \<Rightarrow> Defer | R3 \<Rightarrow> Route_human
      | R4 \<Rightarrow> Route_implementer | R5 \<Rightarrow> Route_human | R6 \<Rightarrow> Already_reviewed | R7 \<Rightarrow> Invoke)"
  by (simp add: admission_simps)

text \<open>The last instant at which the gate still waits for an observation, when it waits at all.\<close>

definition wait_deadline :: "check_row list \<Rightarrow> time \<Rightarrow> time \<Rightarrow> time" where
  "wait_deadline rollup head_committed_date head_pushed_at =
     (if rollup = [] then head_pushed_at + minutes 5
      else if List.map_filter row_time rollup = [] then head_committed_date + hours 12
      else Min (set (List.map_filter row_time rollup)) + hours 6)"

lemma foldl_min_Min: "foldl min t ts = Min (insert t (set ts))" for t :: time
proof (induction ts arbitrary: t)
  case (Cons u ts)
  show ?case
  proof (cases "ts = []")
    case False
    then show ?thesis
      using Cons [of "min t u"] by (simp add: Min_insert2 min.assoc Min.insert min.commute)
  qed simp
qed simp

lemma clock_deadline:
  assumes "rollup \<noteq> []"
  shows "now - clock_at (ci_clock_start rollup dc) \<le>
      (if clock_source (ci_clock_start rollup dc) = Check_clock then CAP_CHECK else CAP_NOCLOCK) \<longleftrightarrow>
    now \<le> wait_deadline rollup dc dp"
  using assms
  by (auto simp: ci_clock_start_def wait_deadline_def CAP_CHECK_def CAP_NOCLOCK_def foldl_min_Min
      split: list.split)

lemma defer_iff:
  "admission (gate_admission rollup sha dc dp now self vh rh) = Defer \<longleftrightarrow>
     self \<and> \<not> concluded rollup \<and> now \<le> wait_deadline rollup dc dp"
proof (cases "rollup = []")
  case True
  then show ?thesis
    by (auto simp: admission_simps wait_deadline_def CAP_EMPTY_RACE_def concluded_def)
next
  case False
  then show ?thesis
    using clock_deadline [OF False, of now dc dp] by (auto simp: admission_simps)
qed

lemma after_the_wait:
  assumes "now > wait_deadline rollup dc dp" and "now' > wait_deadline rollup dc dp"
  shows "admission (gate_admission rollup sha dc dp now self vh rh) =
    admission (gate_admission rollup sha dc dp now' self vh rh)"
proof (cases "rollup = []")
  case True
  then show ?thesis
    using assms by (auto simp: admission_simps wait_deadline_def CAP_EMPTY_RACE_def)
next
  case False
  then show ?thesis
    using clock_deadline [OF False, of now dc dp] clock_deadline [OF False, of now' dc dp] assms
    by (auto simp: admission_simps)
qed

end
