(* ===== verification/Json.thy ===== *)
theory Json
  imports PyText
begin

text \<open>
  The part of Python's \<open>json\<close> that the program uses: \<open>dumps\<close> with compact separators and ASCII
  escapes, and \<open>loads\<close>, with the theorem that reading gives back what was written, and which of the two
  \<open>ValueError\<close>s a refusal is. The \<open>RecursionError\<close> of very deep nesting is not modelled.
\<close>

section \<open>Values\<close>

text \<open>A float is kept as its text. An object keeps its keys in insertion order.\<close>

datatype json =
    Null
  | Bool bool
  | Number int
  | Float pystr
  | Str pystr
  | Arr "json list"
  | Obj "(pystr \<times> json) list"

text \<open>\<open>payload.get(key)\<close>: a missing key and a null are the same.\<close>

fun json_get :: "pystr \<Rightarrow> (pystr \<times> json) list \<Rightarrow> json" where
  "json_get key fields = (case map_of fields key of None \<Rightarrow> Null | Some v \<Rightarrow> v)"

declare json_get.simps [simp del]

section \<open>Writing\<close>

definition hex_digit :: "nat \<Rightarrow> nat" where
  "hex_digit d = (if d < 10 then 48 + d else 87 + d)"

definition hex4 :: "nat \<Rightarrow> pystr" where
  "hex4 u = [hex_digit (u div 4096), hex_digit (u div 256 mod 16), hex_digit (u div 16 mod 16), hex_digit (u mod 16)]"

text \<open>The two-character escapes.\<close>

definition short_escapes :: "(nat \<times> nat) list" where
  "short_escapes = [(34, 34), (92, 92), (10, 110), (13, 114), (9, 116), (12, 102), (8, 98)]"

text \<open>\<open>raw\<close> are the characters written as they are; Python writes the printable ASCII ones.\<close>

definition ascii_printable :: "nat \<Rightarrow> bool" where
  "ascii_printable c \<longleftrightarrow> 32 \<le> c \<and> c \<le> 126"

definition escape_char :: "(nat \<Rightarrow> bool) \<Rightarrow> nat \<Rightarrow> pystr" where
  "escape_char raw c =
     (case map_of short_escapes c of
        Some e \<Rightarrow> [92, e]
      | None \<Rightarrow> if raw c then [c]
          else if c < 65536 then [92, 117] @ hex4 c
          else [92, 117] @ hex4 (55296 + (c - 65536) div 1024) @ [92, 117] @ hex4 (56320 + (c - 65536) mod 1024))"

definition json_string :: "(nat \<Rightarrow> bool) \<Rightarrow> pystr \<Rightarrow> pystr" where
  "json_string raw s = [34] @ concat (map (escape_char raw) s) @ [34]"

definition int_text :: "int \<Rightarrow> pystr" where
  "int_text i = (if i < 0 then [45] @ decimal (nat (- i)) else decimal (nat i))"

fun json_text :: "pystr \<Rightarrow> (nat \<Rightarrow> bool) \<Rightarrow> json \<Rightarrow> pystr" where
  "json_text gap raw Null = lit ''null''"
| "json_text gap raw (Bool b) = lit (if b then ''true'' else ''false'')"
| "json_text gap raw (Number i) = int_text i"
| "json_text gap raw (Float t) = t"
| "json_text gap raw (Str s) = json_string raw s"
| "json_text gap raw (Arr vs) = [91] @ join (44 # gap) (map (json_text gap raw) vs) @ [93]"
| "json_text gap raw (Obj fields) =
     [123] @ join (44 # gap) (map (\<lambda>(k, v). json_string raw k @ 58 # gap @ json_text gap raw v) fields) @ [125]"

text \<open>Compact separators and ASCII only, and one line of a log: spaces after the separators, other characters as they are.\<close>

definition dumps :: "json \<Rightarrow> pystr" where
  "dumps v = json_text [] ascii_printable v"

definition line_char :: "nat \<Rightarrow> bool" where "line_char c \<longleftrightarrow> 32 \<le> c"

definition dumps_line :: "json \<Rightarrow> pystr" where
  "dumps_line v = json_text [32] line_char v"

section \<open>Reading\<close>

definition hex_value :: "nat \<Rightarrow> nat option" where
  "hex_value c = (if 48 \<le> c \<and> c \<le> 57 then Some (c - 48)
                  else if 97 \<le> c \<and> c \<le> 102 then Some (c - 87)
                  else if 65 \<le> c \<and> c \<le> 70 then Some (c - 55) else None)"

definition hex4_value :: "nat \<Rightarrow> nat \<Rightarrow> nat \<Rightarrow> nat \<Rightarrow> nat option" where
  "hex4_value a b c d =
     (case (hex_value a, hex_value b, hex_value c, hex_value d) of
        (Some w, Some x, Some y, Some z) \<Rightarrow> Some (4096 * w + 256 * x + 16 * y + z)
      | _ \<Rightarrow> None)"

definition unescapes :: "(nat \<times> nat) list" where
  "unescapes = (47, 47) # map (\<lambda>(c, e). (e, c)) short_escapes"

definition push_char :: "nat \<Rightarrow> (pystr \<times> pystr) option \<Rightarrow> (pystr \<times> pystr) option" where
  "push_char c r = map_option (\<lambda>(s, rest). (c # s, rest)) r"

text \<open>The second half of a surrogate pair, when the text has one here.\<close>

fun low_surrogate :: "pystr \<Rightarrow> nat option" where
  "low_surrogate (x # y # a # b # c # d # _) =
     (if x = 92 \<and> y = 117 then
        (case hex4_value a b c d of
           None \<Rightarrow> None
         | Some u \<Rightarrow> if 56320 \<le> u \<and> u \<le> 57343 then Some u else None)
      else None)"
| "low_surrogate _ = None"

text \<open>The rest of a string literal after its opening quote, and what follows it.\<close>

function scan_string :: "pystr \<Rightarrow> (pystr \<times> pystr) option" where
  "scan_string s =
     (case s of
        [] \<Rightarrow> None
      | c # cs \<Rightarrow>
          if c = 34 then Some ([], cs)
          else if c = 92
          then (case cs of
                  [] \<Rightarrow> None
                | e # ds \<Rightarrow>
                    if e = 117
                    then (case ds of
                            p # q # r # t # rest \<Rightarrow>
                              (case hex4_value p q r t of
                                 None \<Rightarrow> None
                               | Some u \<Rightarrow>
                                   if 55296 \<le> u \<and> u \<le> 56319 \<and> low_surrogate rest \<noteq> None
                                   then push_char (65536 + (u - 55296) * 1024 + (the (low_surrogate rest) - 56320))
                                          (scan_string (drop 6 rest))
                                   else push_char u (scan_string rest))
                          | _ \<Rightarrow> None)
                    else (case map_of unescapes e of
                            None \<Rightarrow> None
                          | Some x \<Rightarrow> push_char x (scan_string ds)))
          else if c < 32 then None
          else push_char c (scan_string cs))"
  by pat_completeness auto
termination by (relation "measure length") auto

declare scan_string.simps [simp del]

definition skip_ws :: "pystr \<Rightarrow> pystr" where
  "skip_ws s = dropWhile (\<lambda>c. c \<in> {32, 9, 10, 13}) s"

definition ascii_digit :: "nat \<Rightarrow> bool" where
  "ascii_digit c \<longleftrightarrow> 48 \<le> c \<and> c \<le> 57"

text \<open>
  The longest number here: its text, whether it is an integer, and what follows. A part that is not
  complete (\<open>1.\<close>, \<open>1e\<close>) is not taken.
\<close>

definition fraction_part :: "pystr \<Rightarrow> pystr \<times> pystr" where
  "fraction_part s =
     (case s of
        [] \<Rightarrow> ([], s)
      | c # cs \<Rightarrow>
          if c = 46 \<and> takeWhile ascii_digit cs \<noteq> []
          then (46 # takeWhile ascii_digit cs, dropWhile ascii_digit cs)
          else ([], s))"

definition exponent_part :: "pystr \<Rightarrow> pystr \<times> pystr" where
  "exponent_part s =
     (case s of
        [] \<Rightarrow> ([], s)
      | e # cs \<Rightarrow>
          (let sign = (if cs \<noteq> [] \<and> hd cs \<in> {43, 45} then [hd cs] else []);
               ds = drop (length sign) cs
           in if e \<in> {69, 101} \<and> takeWhile ascii_digit ds \<noteq> []
              then (e # sign @ takeWhile ascii_digit ds, dropWhile ascii_digit ds)
              else ([], s)))"

text \<open>\<open>0|[1-9][0-9]*\<close>.\<close>

definition leading_digits :: "pystr \<Rightarrow> pystr" where
  "leading_digits cs = (if cs \<noteq> [] \<and> hd cs = 48 then [48] else takeWhile ascii_digit cs)"

text \<open>\<open>int\<close> refuses a numeral of more than 4300 digits.\<close>

definition scan_number :: "pystr \<Rightarrow> (json \<times> pystr) option" where
  "scan_number s =
     (let sign = (if s \<noteq> [] \<and> hd s = 45 then [45] else []);
          cs = drop (length sign) s;
          digits = leading_digits cs;
          (frac, after_frac) = fraction_part (drop (length digits) cs);
          (expo, rest) = exponent_part after_frac
      in if digits = [] then None
         else if frac \<noteq> [] \<or> expo \<noteq> [] then Some (Float (sign @ digits @ frac @ expo), rest)
         else if length digits > 4300 then None
         else Some (Number (if sign = [] then int (decimal_value digits) else - int (decimal_value digits)), rest))"

definition json_words :: "(pystr \<times> json) list" where
  "json_words = [(lit ''null'', Null), (lit ''true'', Bool True), (lit ''false'', Bool False),
     (lit ''NaN'', Float (lit ''NaN'')), (lit ''Infinity'', Float (lit ''Infinity'')),
     (lit ''-Infinity'', Float (lit ''-Infinity''))]"

definition scan_atom :: "pystr \<Rightarrow> (json \<times> pystr) option" where
  "scan_atom s =
     (case find (\<lambda>(w, _). startswith s w) json_words of
        Some (w, v) \<Rightarrow> Some (v, drop (length w) s)
      | None \<Rightarrow> scan_number s)"

text \<open>
  Values, the rest of an array (after \<open>[\<close> or a comma) and the rest of an object (after the opening
  quote of a key); \<open>k\<close> bounds the calls, and twice the length of the text is always enough. A key
  written twice keeps its place and takes the last value.
\<close>

fun parse_value :: "nat \<Rightarrow> pystr \<Rightarrow> (json \<times> pystr) option"
  and parse_elems :: "nat \<Rightarrow> json list \<Rightarrow> pystr \<Rightarrow> (json \<times> pystr) option"
  and parse_members :: "nat \<Rightarrow> (pystr \<times> json) list \<Rightarrow> pystr \<Rightarrow> (json \<times> pystr) option" where
  "parse_value 0 s = None"
| "parse_value (Suc k) s =
     (case s of
        [] \<Rightarrow> None
      | c # cs \<Rightarrow>
          if c = 34 then map_option (\<lambda>(t, rest). (Str t, rest)) (scan_string cs)
          else if c = 123
          then (case skip_ws cs of
                  [] \<Rightarrow> None
                | d # ds \<Rightarrow> if d = 125 then Some (Obj [], ds) else if d = 34 then parse_members k [] ds else None)
          else if c = 91
          then (case skip_ws cs of
                  [] \<Rightarrow> None
                | d # ds \<Rightarrow> if d = 93 then Some (Arr [], ds) else parse_elems k [] (d # ds))
          else scan_atom s)"
| "parse_elems 0 acc s = None"
| "parse_elems (Suc k) acc s =
     (case parse_value k s of
        None \<Rightarrow> None
      | Some (v, rest) \<Rightarrow>
          (case skip_ws rest of
             [] \<Rightarrow> None
           | d # ds \<Rightarrow>
               if d = 93 then Some (Arr (acc @ [v]), ds)
               else if d = 44 then parse_elems k (acc @ [v]) (skip_ws ds) else None))"
| "parse_members 0 acc s = None"
| "parse_members (Suc k) acc s =
     (case scan_string s of
        None \<Rightarrow> None
      | Some (key, after) \<Rightarrow>
          (case skip_ws after of
             [] \<Rightarrow> None
           | d # ds \<Rightarrow>
               if d \<noteq> 58 then None
               else (case parse_value k (skip_ws ds) of
                       None \<Rightarrow> None
                     | Some (v, rest) \<Rightarrow>
                         (case skip_ws rest of
                            [] \<Rightarrow> None
                          | e # es \<Rightarrow>
                              if e = 125 then Some (Obj (dict_set key v acc), es)
                              else if e = 44
                              then (case skip_ws es of
                                      [] \<Rightarrow> None
                                    | q # qs \<Rightarrow> if q = 34 then parse_members k (dict_set key v acc) qs else None)
                              else None))))"

declare parse_value.simps [simp del] parse_elems.simps [simp del] parse_members.simps [simp del]

text \<open>\<open>json.loads\<close>; \<open>None\<close> is a \<open>ValueError\<close>.\<close>

definition loads :: "pystr \<Rightarrow> json option" where
  "loads s =
     (if startswith s [65279] then None
      else (case parse_value (2 * length s + 2) (skip_ws s) of
              None \<Rightarrow> None
            | Some (v, rest) \<Rightarrow> if skip_ws rest = [] then Some v else None))"

text \<open>
  Which \<open>ValueError\<close>: what \<open>loads\<close> refuses is a \<open>JSONDecodeError\<close>, unless the scan meets a numeral that \<open>int\<close> refuses
  before anything else is wrong; that is the plain \<open>ValueError\<close> of \<open>int\<close>. The scan is the one of \<open>parse_value\<close>.
\<close>

definition long_number :: "pystr \<Rightarrow> bool" where
  "long_number s =
     (let cs = (if s \<noteq> [] \<and> hd s = 45 then tl s else s);
          digits = leading_digits cs;
          (frac, after_frac) = fraction_part (drop (length digits) cs)
      in find (\<lambda>(w, _). startswith s w) json_words = None \<and> frac = [] \<and> fst (exponent_part after_frac) = [] \<and>
         length digits > 4300)"

fun long_value :: "nat \<Rightarrow> pystr \<Rightarrow> bool"
  and long_elems :: "nat \<Rightarrow> pystr \<Rightarrow> bool"
  and long_members :: "nat \<Rightarrow> pystr \<Rightarrow> bool" where
  "long_value 0 s = False"
| "long_value (Suc k) s =
     (case s of
        [] \<Rightarrow> False
      | c # cs \<Rightarrow>
          if c = 34 then False
          else if c = 123
          then (case skip_ws cs of [] \<Rightarrow> False | d # ds \<Rightarrow> d = 34 \<and> long_members k ds)
          else if c = 91
          then (case skip_ws cs of [] \<Rightarrow> False | d # ds \<Rightarrow> d \<noteq> 93 \<and> long_elems k (d # ds))
          else long_number s)"
| "long_elems 0 s = False"
| "long_elems (Suc k) s =
     (case parse_value k s of
        None \<Rightarrow> long_value k s
      | Some (v, rest) \<Rightarrow>
          (case skip_ws rest of [] \<Rightarrow> False | d # ds \<Rightarrow> d = 44 \<and> long_elems k (skip_ws ds)))"
| "long_members 0 s = False"
| "long_members (Suc k) s =
     (case scan_string s of
        None \<Rightarrow> False
      | Some (key, after) \<Rightarrow>
          (case skip_ws after of
             [] \<Rightarrow> False
           | d # ds \<Rightarrow>
               d = 58 \<and>
               (case parse_value k (skip_ws ds) of
                  None \<Rightarrow> long_value k (skip_ws ds)
                | Some (v, rest) \<Rightarrow>
                    (case skip_ws rest of
                       [] \<Rightarrow> False
                     | e # es \<Rightarrow>
                         e = 44 \<and> (case skip_ws es of [] \<Rightarrow> False | q # qs \<Rightarrow> q = 34 \<and> long_members k qs)))))"

declare long_value.simps [simp del] long_elems.simps [simp del] long_members.simps [simp del]

definition value_error :: "pystr \<Rightarrow> bool" where
  "value_error s \<longleftrightarrow> \<not> startswith s [65279] \<and> long_value (2 * length s + 2) (skip_ws s)"

text \<open>The values Python cannot put into a set or use as a key.\<close>

definition unhashable :: "json \<Rightarrow> bool" where
  "unhashable v = (case v of Arr _ \<Rightarrow> True | Obj _ \<Rightarrow> True | _ \<Rightarrow> False)"

text \<open>\<open>str(value)\<close>; \<open>rp\<close> spells floats, lists and dictionaries.\<close>

definition py_str :: "(json \<Rightarrow> pystr) \<Rightarrow> json \<Rightarrow> pystr" where
  "py_str rp v = (case v of Str s \<Rightarrow> s | Null \<Rightarrow> lit ''None'' | Bool b \<Rightarrow> lit (if b then ''True'' else ''False'')
     | Number i \<Rightarrow> int_text i | _ \<Rightarrow> rp v)"

definition get_str :: "(json \<Rightarrow> pystr) \<Rightarrow> string \<Rightarrow> (pystr \<times> json) list \<Rightarrow> pystr" where
  "get_str rp k r = (case map_of r (lit k) of None \<Rightarrow> [] | Some v \<Rightarrow> py_str rp v)"

text \<open>\<open>str(value or "")\<close>; \<open>rp\<close> gives the empty text for a float that is zero.\<close>

definition or_empty :: "(json \<Rightarrow> pystr) \<Rightarrow> json \<Rightarrow> pystr" where
  "or_empty rp v = (if v \<in> {Null, Bool False, Number 0, Arr [], Obj []} then [] else py_str rp v)"

section \<open>Reading what was written\<close>

definition scalar :: "nat \<Rightarrow> bool" where
  "scalar c \<longleftrightarrow> c < 1114112 \<and> \<not> (55296 \<le> c \<and> c \<le> 57343)"

definition printable_only :: "(nat \<Rightarrow> bool) \<Rightarrow> bool" where
  "printable_only raw \<longleftrightarrow> (\<forall>c. raw c \<longrightarrow> 32 \<le> c)"

text \<open>
  The values that are read back: no lone surrogates, no floats (their text is not normalised), no
  numerals that \<open>int\<close> refuses, no repeated keys.
\<close>

fun json_ok :: "json \<Rightarrow> bool" where
  "json_ok Null = True"
| "json_ok (Bool b) = True"
| "json_ok (Number i) = (length (decimal (nat \<bar>i\<bar>)) \<le> 4300)"
| "json_ok (Float t) = False"
| "json_ok (Str s) = list_all scalar s"
| "json_ok (Arr vs) = list_all json_ok vs"
| "json_ok (Obj fields) =
     (distinct (map fst fields) \<and> list_all (\<lambda>(k, v). list_all scalar k \<and> json_ok v) fields)"

lemma hex_value_digit: "d < 16 \<Longrightarrow> hex_value (hex_digit d) = Some d"
  by (simp add: hex_value_def hex_digit_def)

lemma hex4_round: "4096 * (u div 4096) + 256 * (u div 256 mod 16) + 16 * (u div 16 mod 16) + u mod 16 = (u :: nat)"
proof -
  have "u = 16 * (u div 16) + u mod 16" by simp
  moreover have "u div 16 = 16 * (u div 256) + u div 16 mod 16"
    using div_mult_mod_eq [of "u div 16" 16] by (simp add: div_mult2_eq [symmetric])
  moreover have "u div 256 = 16 * (u div 4096) + u div 256 mod 16"
    using div_mult_mod_eq [of "u div 256" 16] by (simp add: div_mult2_eq [symmetric])
  ultimately show ?thesis by linarith
qed

lemma hex4_value_hex4:
  assumes "u < 65536"
  shows "hex4_value (hex_digit (u div 4096)) (hex_digit (u div 256 mod 16)) (hex_digit (u div 16 mod 16))
    (hex_digit (u mod 16)) = Some u"
proof -
  have "u div 4096 < 16" using assms by (simp add: less_mult_imp_div_less)
  then show ?thesis using hex4_round [of u] by (simp add: hex4_value_def hex_value_digit)
qed

lemma low_surrogate_hex4:
  "u < 65536 \<Longrightarrow> low_surrogate (92 # 117 # hex4 u @ t) = (if 56320 \<le> u \<and> u \<le> 57343 then Some u else None)"
  by (simp only: hex4_def append_Cons append_Nil low_surrogate.simps hex4_value_hex4) simp

lemma scan_string_u:
  "hex4_value p q r d = Some u \<Longrightarrow> scan_string (92 # 117 # p # q # r # d # t) =
     (if 55296 \<le> u \<and> u \<le> 56319 \<and> low_surrogate t \<noteq> None
      then push_char (65536 + (u - 55296) * 1024 + (the (low_surrogate t) - 56320)) (scan_string (drop 6 t))
      else push_char u (scan_string t))"
  by (subst scan_string.simps) simp

lemma scan_u:
  assumes "u < 65536" and "\<not> (55296 \<le> u \<and> u \<le> 56319 \<and> low_surrogate t \<noteq> None)"
  shows "scan_string (92 # 117 # hex4 u @ t) = push_char u (scan_string t)"
  using assms(2)
  by (simp only: hex4_def append_Cons append_Nil scan_string_u [OF hex4_value_hex4 [OF assms(1)]] if_False)

lemma scan_pair_parts:
  assumes "q < 1024" "r < 1024"
  shows "scan_string (92 # 117 # hex4 (55296 + q) @ 92 # 117 # hex4 (56320 + r) @ t) =
    push_char (65536 + q * 1024 + r) (scan_string t)"
proof -
  let ?h = "55296 + q" and ?l = "56320 + r"
  have low: "low_surrogate (92 # 117 # hex4 ?l @ t) = Some ?l"
    using assms by (simp add: low_surrogate_hex4)
  have high: "hex4_value (hex_digit (?h div 4096)) (hex_digit (?h div 256 mod 16)) (hex_digit (?h div 16 mod 16))
    (hex_digit (?h mod 16)) = Some ?h"
    by (rule hex4_value_hex4) (use assms in simp)
  have rest: "drop 6 (92 # 117 # hex4 ?l @ t) = t" by (simp add: hex4_def)
  have "scan_string (92 # 117 # hex4 ?h @ u) =
      push_char (65536 + q * 1024 + (the (low_surrogate u) - 56320)) (scan_string (drop 6 u))"
    if "low_surrogate u \<noteq> None" for u
    using that assms by (simp only: hex4_def append_Cons append_Nil scan_string_u [OF high]) simp
  from this [of "92 # 117 # hex4 ?l @ t"] show ?thesis
    by (simp only: low rest option.sel) simp
qed

lemma scan_pair:
  assumes "65536 \<le> c" "c < 1114112"
  shows "scan_string (92 # 117 # hex4 (55296 + (c - 65536) div 1024) @
    92 # 117 # hex4 (56320 + (c - 65536) mod 1024) @ t) = push_char c (scan_string t)"
proof -
  have "(c - 65536) div 1024 < 1024" using assms by (simp add: less_mult_imp_div_less)
  moreover have "65536 + (c - 65536) div 1024 * 1024 + (c - 65536) mod 1024 = c"
    by (simp only: add.assoc div_mult_mod_eq le_add_diff_inverse [OF assms(1)])
  ultimately show ?thesis by (simp only: scan_pair_parts mod_less_divisor zero_less_numeral)
qed

lemma scan_escaped:
  assumes raw: "printable_only raw" and c: "scalar c"
  shows "scan_string (escape_char raw c @ t) = push_char c (scan_string t)"
proof (cases "map_of short_escapes c")
  case (Some e)
  then have "c \<in> {34, 92, 10, 13, 9, 12, 8}"
    by (auto simp: short_escapes_def split: if_splits)
  then show ?thesis
    by (auto simp: escape_char_def short_escapes_def scan_string.simps [of "92 # _"] unescapes_def)
next
  case None
  then have n: "c \<noteq> 34" "c \<noteq> 92" by (auto simp: short_escapes_def)
  consider "raw c" | "\<not> raw c" "c < 65536" | "\<not> raw c" "65536 \<le> c" by linarith
  then show ?thesis
  proof cases
    case 1
    then have "32 \<le> c" using raw by (auto simp: printable_only_def)
    then show ?thesis
      using None n 1 by (simp add: escape_char_def scan_string.simps [of "c # _"])
  next
    case 2
    then show ?thesis
      using None c scan_u [of c t] by (auto simp: escape_char_def scalar_def)
  next
    case 3
    then show ?thesis
      using None c scan_pair [of c t] by (simp add: escape_char_def scalar_def)
  qed
qed

lemma scan_json_string:
  assumes "printable_only raw" and "list_all scalar s"
  shows "scan_string (concat (map (escape_char raw) s) @ 34 # rest) = Some (s, rest)"
  using assms(2)
proof (induction s)
  case Nil
  show ?case by (simp add: scan_string.simps [of "34 # _"])
next
  case (Cons c s)
  then show ?case by (simp add: scan_escaped [OF assms(1)] push_char_def)
qed

subsection \<open>Numerals\<close>

text \<open>What may follow a numeral without being taken into it.\<close>

definition ends_number :: "pystr \<Rightarrow> bool" where
  "ends_number t \<longleftrightarrow> t = [] \<or> \<not> ascii_digit (hd t) \<and> hd t \<notin> {46, 69, 101}"

lemma fraction_ends: "ends_number t \<Longrightarrow> fraction_part t = ([], t)"
  by (cases t) (auto simp: ends_number_def fraction_part_def)

lemma exponent_ends: "ends_number t \<Longrightarrow> exponent_part t = ([], t)"
  by (cases t) (auto simp: ends_number_def exponent_part_def Let_def)

lemma digits_taken:
  assumes "list_all ascii_digit ds" and "ends_number t"
  shows "takeWhile ascii_digit (ds @ t) = ds"
  using assms by (induction ds) (cases t; auto simp: ends_number_def)+

lemma decimal_ascii: "list_all ascii_digit (decimal n)"
  using decimal_digits [of _ n] by (auto simp: list_all_iff ascii_digit_def)

lemma hd_decimal: "0 < n \<Longrightarrow> hd (decimal n) \<noteq> 48"
proof (induction n rule: decimal.induct)
  case (1 n)
  show ?case
  proof (cases "n < 10")
    case True
    then show ?thesis using "1.prems" by (simp add: decimal.simps [of n])
  next
    case False
    then have "hd (decimal (n div 10)) \<noteq> 48" by (intro "1.IH") auto
    then show ?thesis using False by (simp add: decimal.simps [of n] hd_append)
  qed
qed

lemma leading_digits_decimal:
  assumes t: "ends_number t"
  shows "leading_digits (decimal n @ t) = decimal n"
proof (cases n)
  case 0
  then show ?thesis by (simp add: decimal.simps [of 0] leading_digits_def)
next
  case (Suc m)
  then have "hd (decimal n @ t) \<noteq> 48" using hd_decimal [of n] by (simp add: hd_append)
  then show ?thesis using digits_taken [OF decimal_ascii t, of n] by (simp add: leading_digits_def)
qed

lemma scan_number_int_text:
  assumes t: "ends_number t" and l: "length (decimal (nat \<bar>i\<bar>)) \<le> 4300"
  shows "scan_number (int_text i @ t) = Some (Number i, t)"
proof -
  have hd45: "hd (decimal n) \<noteq> 45" for n
    using decimal_ascii [of n] by (cases "decimal n") (auto simp: ascii_digit_def)
  show ?thesis
  proof (cases "i < 0")
    case True
    then have n: "nat \<bar>i\<bar> = nat (- i)" by simp
    show ?thesis
      using True l
      by (simp add: scan_number_def int_text_def Let_def fraction_ends [OF t] exponent_ends [OF t]
        leading_digits_decimal [OF t] n)
  next
    case False
    then have n: "nat \<bar>i\<bar> = nat i" by simp
    show ?thesis
      using False l hd45 [of "nat i"]
      by (simp add: scan_number_def int_text_def Let_def fraction_ends [OF t] exponent_ends [OF t]
        leading_digits_decimal [OF t] n hd_append)
  qed
qed

lemma int_text_start:
  obtains c cs where "int_text i = c # cs" "ascii_digit c \<or> c = 45 \<and> cs \<noteq> [] \<and> ascii_digit (hd cs)"
proof -
  have d: "decimal n \<noteq> []" "ascii_digit (hd (decimal n))" for n
    using decimal_ascii [of n] by (cases "decimal n"; simp)+
  show thesis
  proof (cases "i < 0")
    case True
    then show ?thesis using that [of 45 "decimal (nat (- i))"] d by (simp add: int_text_def)
  next
    case False
    then show ?thesis
      using that [of "hd (decimal (nat i))" "tl (decimal (nat i))"] d by (simp add: int_text_def)
  qed
qed

lemma word_codes:
  "lit ''null'' = [110, 117, 108, 108]" "lit ''true'' = [116, 114, 117, 101]"
  "lit ''false'' = [102, 97, 108, 115, 101]" "lit ''NaN'' = [78, 97, 78]"
  "lit ''Infinity'' = [73, 110, 102, 105, 110, 105, 116, 121]"
  "lit ''-Infinity'' = [45, 73, 110, 102, 105, 110, 105, 116, 121]"
  by (simp_all add: lit_Cons)

lemma startswith_Cons: "startswith (c # s) (d # p) \<longleftrightarrow> c = d \<and> startswith s p" "startswith s []"
  by (simp_all add: startswith_def)

lemma scan_atom_int_text:
  assumes t: "ends_number t" and l: "length (decimal (nat \<bar>i\<bar>)) \<le> 4300"
  shows "scan_atom (int_text i @ t) = Some (Number i, t)"
proof -
  obtain c cs where c: "int_text i = c # cs" "ascii_digit c \<or> c = 45 \<and> cs \<noteq> [] \<and> ascii_digit (hd cs)"
    by (rule int_text_start)
  from c(2) have "find (\<lambda>(w, _). startswith (int_text i @ t) w) json_words = None"
  proof
    assume "ascii_digit c"
    then have "c \<noteq> 110 \<and> c \<noteq> 116 \<and> c \<noteq> 102 \<and> c \<noteq> 78 \<and> c \<noteq> 73 \<and> c \<noteq> 45"
      by (auto simp: ascii_digit_def)
    then show ?thesis by (simp add: c(1) json_words_def startswith_Cons word_codes)
  next
    assume n: "c = 45 \<and> cs \<noteq> [] \<and> ascii_digit (hd cs)"
    then obtain d ds where "cs = d # ds" by (cases cs) simp_all
    moreover have "hd cs \<noteq> 73" using n by (auto simp: ascii_digit_def)
    ultimately show ?thesis using n by (simp add: c(1) json_words_def startswith_Cons word_codes)
  qed
  then show ?thesis
    using scan_number_int_text [OF t l] by (simp add: scan_atom_def)
qed

subsection \<open>Values\<close>

definition json_white :: "nat \<Rightarrow> bool" where
  "json_white c \<longleftrightarrow> c \<in> {32, 9, 10, 13}"

lemma skip_ws_fixed: "s = [] \<or> \<not> json_white (hd s) \<Longrightarrow> skip_ws s = s"
  by (cases s) (auto simp: skip_ws_def json_white_def)

lemma skip_ws_gap: "list_all json_white gap \<Longrightarrow> skip_ws (gap @ s) = skip_ws s"
  by (induction gap) (auto simp: skip_ws_def json_white_def)

lemma json_text_start:
  assumes "json_ok v"
  obtains c cs where "json_text gap raw v = c # cs" "\<not> json_white c" "c \<noteq> 93" "c < 128"
proof (cases v)
  case (Bool b)
  then show ?thesis using that by (cases b) (simp_all add: word_codes json_white_def)
next
  case (Number i)
  obtain c cs where "int_text i = c # cs" "ascii_digit c \<or> c = 45 \<and> cs \<noteq> [] \<and> ascii_digit (hd cs)"
    by (rule int_text_start)
  then show ?thesis using Number that by (auto simp: json_white_def ascii_digit_def)
qed (use assms that in \<open>auto simp: word_codes json_string_def json_white_def\<close>)

lemma scan_atom_words:
  "scan_atom (lit ''null'' @ t) = Some (Null, t)"
  "scan_atom (lit ''true'' @ t) = Some (Bool True, t)"
  "scan_atom (lit ''false'' @ t) = Some (Bool False, t)"
  by (simp_all add: scan_atom_def json_words_def word_codes startswith_Cons)

text \<open>A value is read back from its text, whatever follows, with fuel for its length.\<close>

definition reads_back :: "pystr \<Rightarrow> (nat \<Rightarrow> bool) \<Rightarrow> json \<Rightarrow> bool" where
  "reads_back gap raw v \<longleftrightarrow> (\<forall>k t. 2 * length (json_text gap raw v) \<le> k \<longrightarrow> ends_number t \<longrightarrow>
     parse_value k (json_text gap raw v @ t) = Some (v, t))"

lemma reads_backD:
  "reads_back gap raw v \<Longrightarrow> 2 * length (json_text gap raw v) \<le> k \<Longrightarrow> ends_number t \<Longrightarrow>
     parse_value k (json_text gap raw v @ t) = Some (v, t)"
  by (simp add: reads_back_def)

text \<open>A text that starts like a value and is read as one, and the rest of an array or object around such texts.\<close>

definition reads :: "pystr \<Rightarrow> json \<Rightarrow> bool" where
  "reads s v \<longleftrightarrow> (\<exists>c cs. s = c # cs \<and> \<not> json_white c \<and> c \<noteq> 93 \<and> c < 128) \<and>
     (\<forall>k t. 2 * length s \<le> k \<longrightarrow> ends_number t \<longrightarrow> parse_value k (s @ t) = Some (v, t))"

lemma readsD: "reads s v \<Longrightarrow> 2 * length s \<le> k \<Longrightarrow> ends_number t \<Longrightarrow> parse_value k (s @ t) = Some (v, t)"
  by (simp add: reads_def)

lemma reads_start:
  assumes "reads s v"
  obtains c cs where "s = c # cs" "\<not> json_white c" "c \<noteq> 93" "c < 128"
  using assms by (auto simp: reads_def)

lemma reads_json_text: "reads_back gap raw v \<Longrightarrow> json_ok v \<Longrightarrow> reads (json_text gap raw v) v"
  by (rule json_text_start [of v gap raw]) (auto simp: reads_def reads_back_def)

lemma ends_white: "list_all json_white w \<Longrightarrow> ends_number (w @ c # t) \<longleftrightarrow> w \<noteq> [] \<or> ends_number (c # t)"
  by (cases w) (auto simp: ends_number_def json_white_def ascii_digit_def)

lemma parse_elems_spelt:
  assumes sep: "list_all json_white sep" and cl: "list_all json_white cl" and "list_all2 reads ss vs" and "ss \<noteq> []"
    and "2 * length (join (44 # sep) ss) + 1 \<le> k"
  shows "parse_elems k acc (join (44 # sep) ss @ cl @ 93 # t) = Some (Arr (acc @ vs), t)"
  using assms(3-)
proof (induction ss arbitrary: k acc vs)
  case (Cons s ss)
  obtain v vs' where vs: "vs = v # vs'" "reads s v" "list_all2 reads ss vs'" using Cons.prems(1) by (auto simp: list_all2_Cons1)
  obtain j where k: "k = Suc j" using Cons.prems(3) by (cases k) auto
  show ?case
  proof (cases ss)
    case Nil
    have "parse_value j (s @ cl @ 93 # t) = Some (v, cl @ 93 # t)"
      by (rule readsD [OF vs(2)]) (use Cons.prems(3) k Nil ends_white [OF cl] in \<open>simp_all add: ends_number_def ascii_digit_def\<close>)
    then show ?thesis
      using Nil vs by (simp add: k parse_elems.simps skip_ws_gap [OF cl] skip_ws_fixed json_white_def)
  next
    case (Cons s' ss')
    let ?more = "join (44 # sep) ss @ cl @ 93 # t"
    have whole: "join (44 # sep) (s # ss) @ cl @ 93 # t = s @ 44 # sep @ ?more"
      using Cons by simp
    have len: "2 * length s \<le> j" "2 * length (join (44 # sep) ss) + 1 \<le> j"
      using Cons.prems(3) k Cons by auto
    have one: "parse_value j (s @ 44 # sep @ ?more) = Some (v, 44 # sep @ ?more)"
      by (rule readsD [OF vs(2) len(1)]) (simp add: ends_number_def ascii_digit_def)
    obtain v' where "reads s' v'" using vs(3) Cons by (auto simp: list_all2_Cons1)
    then obtain c cs where c: "s' = c # cs" "\<not> json_white c" "c \<noteq> 93" by (rule reads_start)
    have "skip_ws ?more = ?more"
      by (rule skip_ws_fixed) (use Cons c in \<open>cases ss'; simp\<close>)
    moreover have "parse_elems j (acc @ [v]) ?more = Some (Arr ((acc @ [v]) @ vs'), t)"
      by (rule Cons.IH) (use vs Cons len in auto)
    ultimately show ?thesis
      unfolding whole by (simp add: k parse_elems.simps one skip_ws_fixed [of "44 # _"] json_white_def skip_ws_gap [OF sep] vs(1))
  qed
qed simp

lemma parse_elems_text:
  assumes gap: "list_all json_white gap" and "list_all (reads_back gap raw) vs" and "list_all json_ok vs" and "vs \<noteq> []"
    and "2 * length (join (44 # gap) (map (json_text gap raw) vs)) + 1 \<le> k"
  shows "parse_elems k acc (join (44 # gap) (map (json_text gap raw) vs) @ 93 # t) = Some (Arr (acc @ vs), t)"
  using parse_elems_spelt [OF gap, of "[]" "map (json_text gap raw) vs" vs k acc t] assms(2-)
  by (auto simp: list_all_iff list.rel_map list.rel_refl_strong reads_json_text)

definition member_text :: "pystr \<Rightarrow> (nat \<Rightarrow> bool) \<Rightarrow> pystr \<times> json \<Rightarrow> pystr" where
  "member_text gap raw f = json_string raw (fst f) @ 58 # gap @ json_text gap raw (snd f)"

lemma member_text_start: "member_text gap raw f = 34 # concat (map (escape_char raw) (fst f)) @ 34 # 58 # gap @ json_text gap raw (snd f)"
  by (simp add: member_text_def json_string_def)

text \<open>A member of an object: its key and the text of its value.\<close>

definition spelt_member :: "pystr \<Rightarrow> (nat \<Rightarrow> bool) \<Rightarrow> pystr \<times> pystr \<Rightarrow> pystr" where
  "spelt_member gap raw f = json_string raw (fst f) @ 58 # gap @ snd f"

lemma spelt_member_start: "spelt_member gap raw f = 34 # concat (map (escape_char raw) (fst f)) @ 34 # 58 # gap @ snd f"
  by (simp add: spelt_member_def json_string_def)

lemma parse_members_spelt:
  assumes gap: "list_all json_white gap" and sep: "list_all json_white sep" and cl: "list_all json_white cl" and raw: "printable_only raw"
    and "list_all2 (\<lambda>m f. fst m = fst f \<and> list_all scalar (fst f) \<and> reads (snd m) (snd f)) ms fs" and "ms \<noteq> []"
    and "distinct (map fst (acc @ fs))"
    and "2 * length (join (44 # sep) (map (spelt_member gap raw) ms)) + 1 \<le> k"
  shows "parse_members k acc (tl (join (44 # sep) (map (spelt_member gap raw) ms) @ cl @ 125 # t)) = Some (Obj (acc @ fs), t)"
  using assms(5-)
proof (induction ms arbitrary: k acc fs)
  case (Cons m ms)
  obtain key s where m: "m = (key, s)" by (cases m)
  obtain v fs' where fs: "fs = (key, v) # fs'" "list_all scalar key" "reads s v"
      "list_all2 (\<lambda>m f. fst m = fst f \<and> list_all scalar (fst f) \<and> reads (snd m) (snd f)) ms fs'"
    using Cons.prems(1) m by (auto simp: list_all2_Cons1)
  obtain j where k: "k = Suc j" using Cons.prems(4) by (cases k) auto
  have fresh: "dict_set key v acc = acc @ [(key, v)]"
    using Cons.prems(3) fs(1) by (induction acc) auto
  have string: "scan_string (concat (map (escape_char raw) key) @ 34 # u) = Some (key, u)" for u
    by (rule scan_json_string [OF raw fs(2)])
  obtain c cs where c: "s = c # cs" "\<not> json_white c" "c \<noteq> 93" by (rule reads_start [OF fs(3)])
  have skip: "skip_ws (58 # u) = 58 # u" "skip_ws (s @ u) = s @ u"
    "skip_ws (125 # u) = 125 # u" "skip_ws (44 # u) = 44 # u" "skip_ws (34 # u) = 34 # u"
    "skip_ws (gap @ u) = skip_ws u" "skip_ws (sep @ u) = skip_ws u" "skip_ws (cl @ u) = skip_ws u" for u
    using c by (simp_all add: skip_ws_fixed json_white_def skip_ws_gap [OF gap] skip_ws_gap [OF sep] skip_ws_gap [OF cl])
  show ?case
  proof (cases ms)
    case Nil
    have "parse_value j (s @ cl @ 125 # t) = Some (v, cl @ 125 # t)"
      by (rule readsD [OF fs(3)])
        (use Cons.prems(4) k Nil m ends_white [OF cl] in \<open>simp_all add: spelt_member_start ends_number_def ascii_digit_def\<close>)
    then show ?thesis
      using Nil fs by (simp add: k m spelt_member_start parse_members.simps string skip fresh)
  next
    case (Cons m' ms')
    let ?more = "join (44 # sep) (map (spelt_member gap raw) ms) @ cl @ 125 # t"
    have whole: "tl (join (44 # sep) (map (spelt_member gap raw) (m # ms)) @ cl @ 125 # t) =
        concat (map (escape_char raw) key) @ 34 # 58 # gap @ s @ 44 # sep @ ?more"
      using Cons m by (simp add: spelt_member_start)
    have "length (join (44 # sep) (map (spelt_member gap raw) (m # ms))) =
        length (spelt_member gap raw m) + 1 + length sep + length (join (44 # sep) (map (spelt_member gap raw) ms))"
      using Cons by simp
    moreover have "length s \<le> length (spelt_member gap raw m)" using m by (simp add: spelt_member_def)
    ultimately have len: "2 * length s \<le> j" "2 * length (join (44 # sep) (map (spelt_member gap raw) ms)) + 1 \<le> j"
      using Cons.prems(4) unfolding k by linarith+
    have one: "parse_value j (s @ 44 # sep @ ?more) = Some (v, 44 # sep @ ?more)"
      by (rule readsD [OF fs(3) len(1)]) (simp add: ends_number_def ascii_digit_def)
    have more: "?more = 34 # tl ?more"
      using Cons by (cases ms') (simp_all add: spelt_member_start)
    have "parse_members j (acc @ [(key, v)]) (tl ?more) = Some (Obj ((acc @ [(key, v)]) @ fs'), t)"
      by (rule Cons.IH) (use Cons.prems fs Cons len in auto)
    moreover have "skip_ws ?more = 34 # tl ?more"
      using skip(5) [of "tl ?more"] more by simp
    ultimately show ?thesis
      unfolding whole by (simp add: k parse_members.simps string skip one fresh fs(1))
  qed
qed simp

lemma parse_members_text:
  assumes gap: "list_all json_white gap" and raw: "printable_only raw"
    and "list_all (\<lambda>f. reads_back gap raw (snd f)) fs"
    and "list_all (\<lambda>f. list_all scalar (fst f) \<and> json_ok (snd f)) fs" and "fs \<noteq> []"
    and "distinct (map fst (acc @ fs))"
    and "2 * length (join (44 # gap) (map (member_text gap raw) fs)) + 1 \<le> k"
  shows "parse_members k acc (tl (join (44 # gap) (map (member_text gap raw) fs) @ 125 # t)) = Some (Obj (acc @ fs), t)"
proof -
  let ?spell = "\<lambda>f. (fst f, json_text gap raw (snd f))"
  have eq: "member_text gap raw = spelt_member gap raw \<circ> ?spell"
    by (simp add: fun_eq_iff member_text_def spelt_member_def)
  have "list_all2 (\<lambda>m f. fst m = fst f \<and> list_all scalar (fst f) \<and> reads (snd m) (snd f)) (map ?spell fs) fs"
    using assms(3,4) by (auto simp: list_all_iff list.rel_map intro!: list.rel_refl_strong reads_json_text)
  then show ?thesis
    using parse_members_spelt [OF gap gap, of "[]" raw "map ?spell fs" fs acc k t] raw assms(5-) unfolding eq by simp
qed

lemma reads_back_json:
  assumes gap: "list_all json_white gap" and raw: "printable_only raw"
  shows "json_ok v \<Longrightarrow> reads_back gap raw v"
proof (induction v rule: json_ok.induct)
  case 1
  show ?case
    unfolding reads_back_def
  proof (intro allI impI)
    fix k and t :: pystr
    assume k: "2 * length (json_text gap raw Null) \<le> k"
    then obtain j where "k = Suc j" by (cases k) auto
    then show "parse_value k (json_text gap raw Null @ t) = Some (Null, t)"
      using scan_atom_words(1) [of t] by (simp add: parse_value.simps word_codes)
  qed
next
  case (2 b)
  show ?case
    unfolding reads_back_def
  proof (intro allI impI)
    fix k and t :: pystr
    assume k: "2 * length (json_text gap raw (Bool b)) \<le> k"
    then obtain j where "k = Suc j" by (cases k; cases b) auto
    then show "parse_value k (json_text gap raw (Bool b) @ t) = Some (Bool b, t)"
      using scan_atom_words(2,3) [of t] by (cases b) (simp_all add: parse_value.simps word_codes)
  qed
next
  case (3 i)
  obtain c cs where c: "int_text i = c # cs" "ascii_digit c \<or> c = 45 \<and> cs \<noteq> [] \<and> ascii_digit (hd cs)"
    by (rule int_text_start)
  show ?case
    unfolding reads_back_def
  proof (intro allI impI)
    fix k t
    assume k: "2 * length (json_text gap raw (Number i)) \<le> k" and t: "ends_number t"
    then obtain j where "k = Suc j" using c by (cases k) auto
    then show "parse_value k (json_text gap raw (Number i) @ t) = Some (Number i, t)"
      using scan_atom_int_text [OF t, of i] 3 c by (auto simp: parse_value.simps ascii_digit_def)
  qed
next
  case (5 s)
  show ?case
    unfolding reads_back_def
  proof (intro allI impI)
    fix k and t :: pystr
    assume k: "2 * length (json_text gap raw (Str s)) \<le> k"
    then obtain j where "k = Suc j" by (cases k) (auto simp: json_string_def)
    then show "parse_value k (json_text gap raw (Str s) @ t) = Some (Str s, t)"
      using scan_json_string [OF raw, of s t] 5 by (simp add: parse_value.simps json_string_def)
  qed
next
  case (6 vs)
  have ok: "list_all json_ok vs" using 6 by simp
  have each: "list_all (reads_back gap raw) vs" using 6 by (auto simp: list_all_iff)
  show ?case
    unfolding reads_back_def
  proof (intro allI impI)
    fix k and t :: pystr
    assume k: "2 * length (json_text gap raw (Arr vs)) \<le> k"
    then obtain j where j: "k = Suc j" by (cases k) auto
    show "parse_value k (json_text gap raw (Arr vs) @ t) = Some (Arr vs, t)"
    proof (cases vs)
      case Nil
      then show ?thesis by (simp add: j parse_value.simps skip_ws_fixed json_white_def)
    next
      case (Cons u us)
      let ?body = "join (44 # gap) (map (json_text gap raw) vs) @ 93 # t"
      have "json_ok u" using ok Cons by simp
      then obtain c cs where c: "json_text gap raw u = c # cs" "\<not> json_white c" "c \<noteq> 93"
        by (rule json_text_start)
      obtain ds where body: "?body = c # ds" using Cons c by (cases us) simp_all
      have "parse_elems j [] ?body = Some (Arr ([] @ vs), t)"
        by (rule parse_elems_text [OF gap each ok]) (use Cons k j in auto)
      moreover have "skip_ws (c # ds) = c # ds" using c(2) by (simp add: skip_ws_fixed)
      ultimately show ?thesis
        using c(3) body by (simp add: j parse_value.simps)
    qed
  qed
next
  case (7 fs)
  have ok: "list_all (\<lambda>f. list_all scalar (fst f) \<and> json_ok (snd f)) fs" and d: "distinct (map fst fs)"
    using 7 by (auto simp: list_all_iff)
  have each: "list_all (\<lambda>f. reads_back gap raw (snd f)) fs" using 7 by (auto simp: list_all_iff)
  have members: "json_text gap raw (Obj fs) = [123] @ join (44 # gap) (map (member_text gap raw) fs) @ [125]"
  proof -
    have "(\<lambda>(k, v). json_string raw k @ 58 # gap @ json_text gap raw v) = member_text gap raw"
      by (auto simp: member_text_def fun_eq_iff)
    then show ?thesis by simp
  qed
  show ?case
    unfolding reads_back_def
  proof (intro allI impI)
    fix k and t :: pystr
    assume k: "2 * length (json_text gap raw (Obj fs)) \<le> k"
    then obtain j where j: "k = Suc j" by (cases k) auto
    have fuel: "2 * length (join (44 # gap) (map (member_text gap raw) fs)) + 1 \<le> j"
      using k unfolding members j by simp
    show "parse_value k (json_text gap raw (Obj fs) @ t) = Some (Obj fs, t)"
    proof (cases fs)
      case Nil
      then show ?thesis unfolding members by (simp add: j parse_value.simps skip_ws_fixed json_white_def)
    next
      case (Cons g gs)
      let ?body = "join (44 # gap) (map (member_text gap raw) fs) @ 125 # t"
      obtain ds where body: "?body = 34 # ds" using Cons by (cases gs) (simp_all add: member_text_start)
      have "parse_members j [] (tl ?body) = Some (Obj ([] @ fs), t)"
        by (rule parse_members_text [OF gap raw each ok]) (use Cons fuel d in simp_all)
      moreover have "skip_ws (34 # ds) = 34 # ds" by (simp add: skip_ws_fixed json_white_def)
      ultimately show ?thesis
        using body unfolding members by (simp add: j parse_value.simps)
    qed
  qed
qed simp

lemma loads_json_text:
  assumes "list_all json_white gap" and "printable_only raw" and "json_ok v"
  shows "loads (json_text gap raw v) = Some v"
proof -
  obtain c cs where c: "json_text gap raw v = c # cs" "\<not> json_white c" "c < 128"
    by (rule json_text_start [OF assms(3)])
  have "parse_value (2 * length (json_text gap raw v) + 2) (json_text gap raw v @ []) = Some (v, [])"
    by (rule reads_backD [OF reads_back_json [OF assms]]) (simp_all add: ends_number_def)
  moreover have "skip_ws (json_text gap raw v) = json_text gap raw v" using c by (simp add: skip_ws_fixed)
  moreover have "\<not> startswith (json_text gap raw v) [65279]" using c by (simp add: startswith_def)
  ultimately show ?thesis by (simp add: loads_def skip_ws_def)
qed

lemma printable_ascii: "printable_only ascii_printable"
  by (simp add: printable_only_def ascii_printable_def)

lemma loads_dumps_line: "json_ok v \<Longrightarrow> loads (dumps_line v) = Some v"
  unfolding dumps_line_def by (rule loads_json_text) (simp_all add: json_white_def printable_only_def line_char_def)

lemma json_get_Cons: "json_get k ((k', v) # r) = (if k = k' then v else json_get k r)"
  by (simp add: json_get.simps)

lemma scalar_lit: "list_all scalar (lit s)"
proof -
  have "scalar (of_char c)" for c
    using nat_of_char_less_256 [of c] by (simp only: scalar_def) linarith
  then show ?thesis by (induction s) (simp_all add: lit_Cons)
qed

section \<open>A value that was read has no repeated keys\<close>

fun keys_distinct :: "json \<Rightarrow> bool" where
  "keys_distinct (Arr vs) = list_all keys_distinct vs"
| "keys_distinct (Obj fields) = (distinct (map fst fields) \<and> list_all (\<lambda>(k, v). keys_distinct v) fields)"
| "keys_distinct v = True"

lemma keys_distinct_set:
  "list_all (\<lambda>(k, v). keys_distinct v) d \<Longrightarrow> keys_distinct v \<Longrightarrow> list_all (\<lambda>(k, v). keys_distinct v) (dict_set key v d)"
  by (induction key v d rule: dict_set.induct) auto

lemma scan_atom_keys: "scan_atom s = Some (v, rest) \<Longrightarrow> keys_distinct v"
  by (auto simp: scan_atom_def json_words_def scan_number_def Let_def split: if_splits option.splits prod.splits)

lemma parse_keys_distinct:
  "parse_value n s = Some (v, rest) \<Longrightarrow> keys_distinct v"
  "parse_elems n acc s = Some (v, rest) \<Longrightarrow> list_all keys_distinct acc \<Longrightarrow> keys_distinct v"
  "parse_members n facc s = Some (v, rest) \<Longrightarrow> distinct (map fst facc) \<Longrightarrow> list_all (\<lambda>(k, v). keys_distinct v) facc \<Longrightarrow> keys_distinct v"
proof (induction n s and n acc s and n facc s arbitrary: v rest and v rest and v rest
    rule: parse_value_parse_elems_parse_members.induct)
  case (2 k s)
  then show ?case
    by (subst (asm) parse_value.simps) (auto split: list.splits if_splits option.splits prod.splits dest: scan_atom_keys)
next
  case (4 k acc s)
  have tail: "keys_distinct v" if "parse_value k s = Some (x, t)" "skip_ws t = 44 # u"
      "parse_elems k (acc @ [x]) (skip_ws u) = Some (v, rest)" for x t u
    using "4.IH"(2) [OF that(1) refl that(2) _ refl that(3)] "4.IH"(1) [OF that(1)] "4.prems" by simp
  from "4.prems" show ?case
    by (subst (asm) parse_elems.simps)
       (auto split: list.splits if_splits option.splits prod.splits dest: "4.IH"(1); erule (2) tail)
next
  case (6 k acc s)
  have val: "keys_distinct x" if "scan_string s = Some (key, after)" "skip_ws after = 58 # ds"
      "parse_value k (skip_ws ds) = Some (x, t)" for key after ds x t
    using "6.IH"(1) [OF that(1) refl that(2) _ that(3)] by simp
  have tail: "keys_distinct v" if "scan_string s = Some (key, after)" "skip_ws after = 58 # ds"
      "parse_value k (skip_ws ds) = Some (x, t)" "skip_ws t = 44 # es" "skip_ws es = 34 # qs"
      "parse_members k (dict_set key x acc) qs = Some (v, rest)" for key after ds x t es qs
    using "6.IH"(2) [OF that(1) refl that(2) _ that(3) refl that(4) _ refl that(5) refl that(6)] val [OF that(1,2,3)]
      "6.prems" by (simp add: keys_distinct_set distinct_dict_set)
  have last: "keys_distinct (Obj (dict_set key x acc))" if "scan_string s = Some (key, after)" "skip_ws after = 58 # ds"
      "parse_value k (skip_ws ds) = Some (x, t)" for key after ds x t
    using val [OF that] "6.prems" by (simp add: keys_distinct_set distinct_dict_set)
  from "6.prems"(1) show ?case
    by (subst (asm) parse_members.simps)
       (auto split: list.splits if_splits option.splits prod.splits simp del: keys_distinct.simps;
         (erule (2) last | erule (5) tail))
qed (simp_all add: parse_value.simps parse_elems.simps parse_members.simps)

lemma loads_keys_distinct: "loads s = Some v \<Longrightarrow> keys_distinct v"
  by (auto simp: loads_def split: if_splits option.splits prod.splits dest: parse_keys_distinct(1))

lemma scan_atom_short: "scan_atom s = Some r \<Longrightarrow> \<not> long_number s"
  by (auto simp: scan_atom_def scan_number_def long_number_def Let_def drop_Suc split: prod.splits option.splits if_splits)

lemma parsed_not_long:
  "parse_value k s = Some r \<Longrightarrow> \<not> long_value k s"
  "parse_elems k acc s = Some r \<Longrightarrow> \<not> long_elems k s"
  "parse_members k acc' s = Some r \<Longrightarrow> \<not> long_members k s"
proof (induction k s and k acc s and k acc' s arbitrary: r and r and r
    rule: parse_value_parse_elems_parse_members.induct)
  case (2 k s)
  then show ?case
    by (auto simp: parse_value.simps long_value.simps dest: scan_atom_short split: list.splits if_splits)
next
  case (4 k acc s)
  then show ?case
    by (auto simp: parse_elems.simps long_elems.simps split: option.splits list.splits if_splits prod.splits)
next
  case (6 k acc s)
  from "6.prems" obtain key after ds x t e es where s: "scan_string s = Some (key, after)" "skip_ws after = 58 # ds"
      "parse_value k (skip_ws ds) = Some (x, t)" "skip_ws t = e # es"
    and tail: "e = 125 \<or> e = 44 \<and> (\<exists>qs. skip_ws es = 34 # qs \<and> parse_members k (dict_set key x acc) qs = Some r)"
    by (subst (asm) parse_members.simps) (auto split: list.splits if_splits option.splits prod.splits)
  have "\<not> long_members k qs" if "e = 44" "skip_ws es = 34 # qs" "parse_members k (dict_set key x acc) qs = Some r" for qs
    using "6.IH"(2) [OF s(1) refl s(2) _ s(3) refl s(4) _ that(1) that(2) refl that(3)] that(1) by simp
  then show ?case using s tail by (auto simp: long_members.simps)
qed (simp_all add: parse_value.simps parse_elems.simps parse_members.simps)

lemma loads_no_error: "loads s = Some v \<Longrightarrow> \<not> value_error s"
  using parsed_not_long(1) by (fastforce simp: loads_def value_error_def split: if_splits option.splits)

lemma long_numeral_error: "4300 < n \<Longrightarrow> value_error (replicate n 49)"
proof -
  assume n: "4300 < n"
  then obtain m where m: "replicate n 49 = 49 # replicate m (49 :: nat)" "n = Suc m" by (cases n) simp_all
  have digits: "leading_digits (replicate n 49) = replicate n 49"
    using m by (simp add: leading_digits_def ascii_digit_def takeWhile_replicate)
  have "long_number (replicate n 49)"
    using n digits unfolding long_number_def Let_def m(1)
    by (simp add: fraction_part_def exponent_part_def json_words_def lit_Cons startswith_Cons m(2))
  moreover have "skip_ws (replicate n 49) = replicate n 49" unfolding m(1) by (simp add: skip_ws_def)
  ultimately show ?thesis
    unfolding value_error_def m(1) by (simp add: startswith_Cons long_value.simps)
qed

section \<open>Indented texts\<close>

text \<open>\<open>dumps(value, ensure_ascii=False, indent=2)\<close>.\<close>

definition new_line :: "nat \<Rightarrow> pystr" where
  "new_line n = 10 # replicate (2 * n) 32"

fun indent_text :: "nat \<Rightarrow> json \<Rightarrow> pystr" where
  "indent_text n Null = lit ''null''"
| "indent_text n (Bool b) = lit (if b then ''true'' else ''false'')"
| "indent_text n (Number i) = int_text i"
| "indent_text n (Float t) = t"
| "indent_text n (Str s) = json_string line_char s"
| "indent_text n (Arr vs) =
     (if vs = [] then [91, 93]
      else [91] @ new_line (Suc n) @ join (44 # new_line (Suc n)) (map (indent_text (Suc n)) vs) @ new_line n @ [93])"
| "indent_text n (Obj fields) =
     (if fields = [] then [123, 125]
      else [123] @ new_line (Suc n)
           @ join (44 # new_line (Suc n)) (map (\<lambda>(k, v). json_string line_char k @ 58 # [32] @ indent_text (Suc n) v) fields)
           @ new_line n @ [125])"

definition dumps_indent :: "json \<Rightarrow> pystr" where
  "dumps_indent v = indent_text 0 v"

lemma new_line_white: "list_all json_white (new_line n)"
  by (auto simp: new_line_def json_white_def list_all_iff)

lemma line_char_printable: "printable_only line_char"
  by (simp add: printable_only_def line_char_def)

lemma reads_plain:
  assumes "json_ok v" "indent_text n v = json_text [32] line_char v"
  shows "reads (indent_text n v) v"
  unfolding assms(2)
  by (rule reads_json_text [OF reads_back_json assms(1)])
     (simp_all add: json_white_def line_char_printable assms(1))

lemma reads_indent: "json_ok v \<Longrightarrow> reads (indent_text n v) v"
proof (induction v arbitrary: n rule: json_ok.induct)
  case (6 vs)
  show ?case
  proof (cases "vs = []")
    case False
    let ?ss = "map (indent_text (Suc n)) vs"
    have each: "list_all2 reads ?ss vs"
      using 6 by (auto simp: list_all_iff list.rel_map intro!: list.rel_refl_strong)
    have start: "skip_ws (new_line (Suc n) @ join (44 # new_line (Suc n)) ?ss @ u) = join (44 # new_line (Suc n)) ?ss @ u \<and>
        (\<exists>d ds. join (44 # new_line (Suc n)) ?ss @ u = d # ds \<and> d \<noteq> 93)" for u
    proof -
      obtain w ws where vs: "vs = w # ws" using False by (cases vs) auto
      then have "reads (indent_text (Suc n) w) w" using each by simp
      then obtain c cs where "indent_text (Suc n) w = c # cs" "\<not> json_white c" "c \<noteq> 93" by (rule reads_start)
      then show ?thesis using vs by (cases ws) (simp_all add: skip_ws_gap [OF new_line_white] skip_ws_fixed)
    qed
    show ?thesis
      unfolding reads_def
    proof (intro conjI allI impI)
      show "\<exists>c cs. indent_text n (Arr vs) = c # cs \<and> \<not> json_white c \<and> c \<noteq> 93 \<and> c < 128"
        using False by (simp add: json_white_def)
      fix k and t :: pystr
      assume k: "2 * length (indent_text n (Arr vs)) \<le> k"
      then obtain j where j: "k = Suc j" using False by (cases k) auto
      let ?body = "join (44 # new_line (Suc n)) ?ss @ new_line n @ 93 # t"
      have "parse_elems j [] ?body = Some (Arr ([] @ vs), t)"
        by (rule parse_elems_spelt [OF new_line_white new_line_white each]) (use False k j in auto)
      then show "parse_value k (indent_text n (Arr vs) @ t) = Some (Arr vs, t)"
        using start [of "new_line n @ 93 # t"] False by (auto simp: j parse_value.simps)
    qed
  next
    case True
    show ?thesis
      unfolding True by (rule reads_plain) simp_all
  qed
next
  case (7 fs)
  have d: "distinct (map fst fs)" using 7 by simp
  show ?case
  proof (cases "fs = []")
    case False
    let ?spell = "\<lambda>f. (fst f, indent_text (Suc n) (snd f))"
    let ?ms = "map ?spell fs"
    let ?text = "join (44 # new_line (Suc n)) (map (spelt_member [32] line_char) ?ms)"
    have eq: "(\<lambda>(k, v). json_string line_char k @ 58 # [32] @ indent_text (Suc n) v) = spelt_member [32] line_char \<circ> ?spell"
      by (simp add: fun_eq_iff spelt_member_def)
    have whole: "indent_text n (Obj fs) = [123] @ new_line (Suc n) @ ?text @ new_line n @ [125]"
      using False by (simp only: indent_text.simps eq if_False map_map)
    have each: "list_all2 (\<lambda>m f. fst m = fst f \<and> list_all scalar (fst f) \<and> reads (snd m) (snd f)) ?ms fs"
      using 7 by (auto simp: list_all_iff list.rel_map intro!: list.rel_refl_strong)
    obtain f fs' where fs: "fs = f # fs'" using False by (cases fs) auto
    have quote: "?text @ u = 34 # tl (?text @ u)" for u
      by (cases fs') (simp_all add: fs spelt_member_start)
    have start: "skip_ws (new_line (Suc n) @ ?text @ u) = 34 # tl (?text @ u)" for u
    proof -
      have "skip_ws (?text @ u) = ?text @ u"
        by (rule skip_ws_fixed) (subst quote, simp add: json_white_def)
      then show ?thesis using quote [of u] skip_ws_gap [OF new_line_white] by metis
    qed
    show ?thesis
      unfolding reads_def
    proof (intro conjI allI impI)
      show "\<exists>c cs. indent_text n (Obj fs) = c # cs \<and> \<not> json_white c \<and> c \<noteq> 93 \<and> c < 128"
        by (simp add: whole json_white_def del: indent_text.simps)
      fix k and t :: pystr
      assume k: "2 * length (indent_text n (Obj fs)) \<le> k"
      then obtain j where j: "k = Suc j" unfolding whole by (cases k) auto
      have "parse_members j [] (tl (?text @ new_line n @ 125 # t)) = Some (Obj ([] @ fs), t)"
        by (rule parse_members_spelt [OF _ new_line_white new_line_white line_char_printable each])
          (use False k j d in \<open>simp_all add: whole json_white_def del: indent_text.simps\<close>)
      then show "parse_value k (indent_text n (Obj fs) @ t) = Some (Obj fs, t)"
        unfolding whole using start [of "new_line n @ 125 # t"] by (simp add: j parse_value.simps)
    qed
  next
    case True
    show ?thesis
      unfolding True by (rule reads_plain) simp_all
  qed
qed (rule reads_plain; simp)+

theorem loads_dumps_indent:
  assumes "json_ok v" "list_all json_white w"
  shows "loads (dumps_indent v @ w) = Some v"
proof -
  have rd: "reads (indent_text 0 v) v" by (rule reads_indent) (rule assms)
  then obtain c cs where c: "indent_text 0 v = c # cs" "\<not> json_white c" "c < 128" by (rule reads_start)
  have "ends_number w"
    using assms(2) by (cases w) (auto simp: ends_number_def json_white_def ascii_digit_def)
  then have "parse_value (2 * length (indent_text 0 v @ w) + 2) (indent_text 0 v @ w) = Some (v, w)"
    by (intro readsD [OF rd]) simp_all
  moreover have "skip_ws (indent_text 0 v @ w) = indent_text 0 v @ w" using c by (simp add: skip_ws_fixed)
  moreover have "skip_ws w = []" using skip_ws_gap [OF assms(2), of "[]"] by (simp add: skip_ws_fixed)
  moreover have "\<not> startswith (indent_text 0 v @ w) [65279]" using c by (simp add: startswith_def)
  ultimately show ?thesis by (simp add: loads_def dumps_indent_def)
qed

end
