(* ===== verification/Markers.thy ===== *)
theory Markers
  imports Regex Json
begin

text \<open>
  The machine-readable markers the conductor writes into message bodies: an HTML comment with a JSON
  payload in which \<open>>\<close> is escaped (\<open>conductor/stop_marker.py\<close>, \<open>conductor/gate_records.py\<close>). One lemma
  says what the pattern finds in a body that holds a marker; each kind of marker rests on it.
\<close>

section \<open>Writing and finding a marker\<close>

text \<open>
  \<open>dumps(payload).replace(">", "\u003e")\<close>: the character occurs in strings only, so it is one more
  character that is not written as it is (\<open>replaced_text\<close> below).
\<close>

definition no_greater :: "nat \<Rightarrow> bool" where
  "no_greater c \<longleftrightarrow> ascii_printable c \<and> c \<noteq> 62"

definition replace_greater :: "pystr \<Rightarrow> pystr" where
  "replace_greater s = concat (map (\<lambda>c. if c = 62 then lit [CHR 0x5C] @ lit ''u003e'' else [c]) s)"

definition render_marker :: "string \<Rightarrow> json \<Rightarrow> pystr" where
  "render_marker name payload =
     lit ''<!-- mindwire:'' @ lit name @ lit '' v1 '' @ replace_greater (dumps payload) @ lit '' -->''"

definition marker_re :: "string \<Rightarrow> rx" where
  "marker_re name = seqs [text_rx ''<!--'', spaces, text_rx (''mindwire:'' @ name), plus (Test is_space),
     text_rx ''v1'', plus (Test is_space),
     Grp ''1'' (seqs [text_rx ''{'', lazy_star (Test (\<lambda>_. True)), text_rx ''}'']),
     spaces, text_rx ''-->'']"

definition marker_payloads :: "string \<Rightarrow> pystr \<Rightarrow> pystr list" where
  "marker_payloads name body = map (\<lambda>m. group (snd m) ''1'') (rx_find_all (marker_re name) body)"

section \<open>The payload text\<close>

lemma hex_digit_small: "d < 16 \<Longrightarrow> hex_digit d \<noteq> 62 \<and> hex_digit d \<noteq> 10"
  by (auto simp: hex_digit_def)

lemma hex4_no_greater: "u < 65536 \<Longrightarrow> 62 \<notin> set (hex4 u)"
  using hex_digit_small [of "u div 4096"] by (auto simp: hex4_def hex_digit_small less_mult_imp_div_less)

lemma replace_greater_append: "replace_greater (s @ t) = replace_greater s @ replace_greater t"
  by (simp add: replace_greater_def)

lemma replace_greater_Cons:
  "replace_greater (c # s) = (if c = 62 then lit [CHR 0x5C] @ lit ''u003e'' else [c]) @ replace_greater s"
  by (simp add: replace_greater_def)

lemma replace_greater_Nil [simp]: "replace_greater [] = []"
  by (simp add: replace_greater_def)

lemma replace_greater_id: "62 \<notin> set s \<Longrightarrow> replace_greater s = s"
  by (induction s) (auto simp: replace_greater_def)

lemma escaped_greater: "escape_char no_greater 62 = lit [CHR 0x5C] @ lit ''u003e''"
  by (simp add: escape_char_def short_escapes_def no_greater_def hex4_def hex_digit_def lit_Cons)

lemma replaced_escape:
  assumes "c < 1114112"
  shows "replace_greater (escape_char ascii_printable c) = escape_char no_greater c"
proof (cases "map_of short_escapes c")
  case (Some e)
  then show ?thesis
    by (auto simp: escape_char_def short_escapes_def replace_greater_def split: if_splits)
next
  case None
  show ?thesis
  proof (cases "c = 62")
    case True
    then show ?thesis
      using escaped_greater by (simp add: escape_char_def short_escapes_def ascii_printable_def replace_greater_def)
  next
    case False
    have "62 \<notin> set (escape_char no_greater c)"
    proof -
      have "55296 + (c - 65536) div 1024 < 65536"
        using assms by (simp add: less_mult_imp_div_less less_diff_conv2)
      moreover have "56320 + (c - 65536) mod 1024 < 65536"
        by (rule less_le_trans [of _ "56320 + 1024"]) simp_all
      ultimately show ?thesis
        using None False hex4_no_greater by (simp add: escape_char_def no_greater_def)
    qed
    moreover have "escape_char ascii_printable c = escape_char no_greater c"
      using False by (simp add: escape_char_def no_greater_def)
    ultimately show ?thesis by (simp add: replace_greater_id)
  qed
qed

lemma replaced_string:
  "list_all (\<lambda>c. c < 1114112) s \<Longrightarrow> replace_greater (json_string ascii_printable s) = json_string no_greater s"
proof -
  assume "list_all (\<lambda>c. c < 1114112) s"
  then have "replace_greater (concat (map (escape_char ascii_printable) s)) = concat (map (escape_char no_greater) s)"
    by (induction s) (simp_all add: replace_greater_append replaced_escape)
  then show ?thesis by (simp add: json_string_def replace_greater_append replace_greater_Cons)
qed

lemma replace_greater_join: "replace_greater (join [44] xs) = join [44] (map replace_greater xs)"
  by (induction "[44 :: nat]" xs rule: join.induct) (simp_all add: replace_greater_append replace_greater_Cons)

lemma number_no_greater: "62 \<notin> set (int_text i)"
proof -
  have "62 \<notin> set (decimal n)" for n using decimal_digits [of 62 n] by auto
  then show ?thesis by (simp add: int_text_def)
qed

lemma scalars_small: "list_all scalar s \<Longrightarrow> list_all (\<lambda>c. c < 1114112) s"
  by (auto simp: list_all_iff scalar_def)

lemma replaced_text:
  "json_ok v \<Longrightarrow> replace_greater (json_text [] ascii_printable v) = json_text [] no_greater v"
proof (induction v rule: json_ok.induct)
  case (2 b)
  then show ?case by (cases b) (simp_all add: lit_Cons replace_greater_Cons)
next
  case (6 vs)
  then have "map (\<lambda>v. replace_greater (json_text [] ascii_printable v)) vs = map (json_text [] no_greater) vs"
    by (auto simp: list_all_iff)
  then have "map (replace_greater \<circ> json_text [] ascii_printable) vs = map (json_text [] no_greater) vs"
    by (simp add: comp_def)
  then show ?case
    by (simp add: replace_greater_append replace_greater_Cons replace_greater_join del: map_eq_conv)
next
  case (7 fs)
  have "replace_greater (json_string ascii_printable k @ 58 # json_text [] ascii_printable v) =
      json_string no_greater k @ 58 # json_text [] no_greater v" if "(k, v) \<in> set fs" for k v
  proof -
    have "list_all scalar k" "json_ok v" using 7(2) that by (auto simp: list_all_iff)
    then show ?thesis
      using 7(1) that by (simp add: replace_greater_append replace_greater_Cons replaced_string scalars_small)
  qed
  then have m: "map replace_greater (map (\<lambda>(k, v). json_string ascii_printable k @ 58 # json_text [] ascii_printable v) fs) =
      map (\<lambda>(k, v). json_string no_greater k @ 58 # json_text [] no_greater v) fs"
    by auto
  show ?case
    unfolding json_text.simps replace_greater_append replace_greater_join append_Nil m by (simp add: replace_greater_Cons)
qed (simp_all add: lit_Cons replace_greater_Cons replace_greater_id number_no_greater replaced_string scalars_small)

lemma replaced_no_greater: "62 \<notin> set (replace_greater s)"
  by (induction s) (auto simp: replace_greater_Cons lit_Cons)

section \<open>What the pattern finds\<close>

lemma run_literal_fails: "\<not> startswith t (lit s) \<Longrightarrow> run (text_rx s) (pr, t, gs) = []"
proof (induction s arbitrary: pr t)
  case (Cons c s)
  show ?case
  proof (cases t)
    case t: (Cons d ds)
    show ?thesis
    proof (cases "d = of_char c")
      case True
      then show ?thesis
        using Cons t by (simp add: text_rx_def lit_Cons chr_def startswith_def)
    qed (simp add: t text_rx_def chr_def)
  qed (simp add: text_rx_def chr_def)
qed (simp add: startswith_def)

lemma is_space_32 [simp]: "is_space 32"
  by (simp add: is_space_def)

lemma run_spaces_stop:
  "\<not> is_space c \<Longrightarrow> run spaces (pr, 32 # c # t, gs) = [(32 # pr, c # t, gs), (pr, 32 # c # t, gs)]"
  by (simp add: spaces_def star_def)

lemma run_plus_space_stop:
  "\<not> is_space c \<Longrightarrow> run (plus (Test is_space)) (pr, 32 # c # t, gs) = [(32 # pr, c # t, gs)]"
  by (simp add: plus_def star_def)

lemma run_spaces_mem:
  assumes "st \<in> set (repeat_rx True (run (Test p)) k (pr, s, gs))"
  shows "\<exists>j. fst (snd st) = drop j s \<and> snd (snd st) = gs \<and> (\<forall>c\<in>set (take j s). p c)"
  using assms
proof (induction k arbitrary: pr s)
  case (Cons x k)
  show ?case
  proof (cases s)
    case Nil
    then show ?thesis using Cons.prems by (intro exI [of _ 0]) simp
  next
    case (Cons c cs)
    from Cons.prems Cons have "st = (pr, s, gs) \<or> p c \<and> st \<in> set (repeat_rx True (run (Test p)) k (c # pr, cs, gs))"
      by (auto simp: Let_def split: if_splits)
    then show ?thesis
    proof
      assume "st = (pr, s, gs)"
      then show ?thesis by (intro exI [of _ 0]) simp
    next
      assume r: "p c \<and> st \<in> set (repeat_rx True (run (Test p)) k (c # pr, cs, gs))"
      then obtain j where "fst (snd st) = drop j cs" "snd (snd st) = gs" "\<forall>c\<in>set (take j cs). p c"
        using Cons.IH by blast
      then show ?thesis using r Cons by (intro exI [of _ "Suc j"]) simp
    qed
  qed
qed (auto intro: exI [of _ 0])

lemma startswith_split:
  assumes "startswith s p" obtains w where "s = p @ w"
  using assms append_take_drop_id [of "length p" s] unfolding startswith_def by metis

lemma brace_late:
  fixes d :: pystr
  assumes "d @ 125 # v = 45 # 45 # 62 # w"
  shows "62 \<in> set d"
proof -
  obtain a b c e where "d = a # b # c # e"
    using assms by (cases d; cases "tl d"; cases "tl (tl d)") auto
  then show ?thesis using assms by simp
qed

text \<open>The end of a comment is not found while a brace comes before the first \<open>>\<close>.\<close>

lemma comment_end_later:
  assumes "62 \<notin> set u"
  shows "run (Seq spaces (Seq (text_rx ''-->'') Eps)) (pr, u @ 125 # v, gs) = []"
proof (rule ccontr)
  assume "\<not> ?thesis"
  then have "\<exists>st\<in>set (run spaces (pr, u @ 125 # v, gs)). run (text_rx ''-->'') st \<noteq> []"
    by (rule contrapos_np) auto
  then obtain st where "st \<in> set (run spaces (pr, u @ 125 # v, gs))" and e: "run (text_rx ''-->'') st \<noteq> []" ..
  then have "st \<in> set (repeat_rx True (run (Test is_space)) (u @ 125 # v) (pr, u @ 125 # v, gs))"
    by (simp only: spaces_def star_def run.simps fst_conv snd_conv)
  from run_spaces_mem [OF this] obtain j
    where j: "fst (snd st) = drop j (u @ 125 # v)" "\<forall>c\<in>set (take j (u @ 125 # v)). is_space c"
    by blast
  have "startswith (drop j (u @ 125 # v)) (lit ''-->'')"
    using e j(1) run_literal_fails by (cases st) force
  then obtain w where "drop j (u @ 125 # v) = lit ''-->'' @ w" by (rule startswith_split)
  then have w: "drop j (u @ 125 # v) = 45 # 45 # 62 # w" by (simp add: lit_Cons)
  have "j \<le> length u"
  proof (rule ccontr)
    assume "\<not> j \<le> length u"
    then have "125 \<in> set (take j (u @ 125 # v))" by (simp add: take_Cons')
    with j(2) have "is_space 125" by blast
    then show False by (simp add: is_space_def)
  qed
  then have d: "drop j u @ 125 # v = 45 # 45 # 62 # w" using w by simp
  have "62 \<notin> set (drop j u)" using assms by (meson in_set_dropD)
  with brace_late [OF d] show False by simp
qed

lemma run_any_lazily:
  "length cs \<le> length k \<Longrightarrow> repeat_rx False (run (Test (\<lambda>_. True))) k (pr, cs, gs) =
     map (\<lambda>i. (rev (take i cs) @ pr, drop i cs, gs)) [0..<Suc (length cs)]"
proof (induction k arbitrary: pr cs)
  case (Cons x k)
  show ?case
  proof (cases cs)
    case cs: (Cons c cs')
    have "[0..<Suc (Suc (length cs'))] = 0 # map Suc [0..<Suc (length cs')]"
      by (simp add: map_Suc_upt upt_conv_Cons del: upt_Suc)
    then show ?thesis using Cons cs by (simp add: comp_def del: upt_Suc)
  qed simp
qed simp

lemma concat_concat_map: "concat (concat (map f xs)) = concat (map (\<lambda>x. concat (f x)) xs)"
  by (induction xs) simp_all

lemma concat_map_concat: "concat (map g (concat (map f xs))) = concat (map (\<lambda>x. concat (map g (f x))) xs)"
  by (induction xs) simp_all

lemma close_brace: "run (text_rx ''}'') (pr, c # r, gs) = (if c = 125 then [(125 # pr, r, gs)] else [])"
  by (simp add: text_rx_def chr_def)

text \<open>The payload up to its last brace is what the group takes.\<close>

lemma payload_taken:
  assumes "62 \<notin> set u"
  obtains more where
    "run (Seq (Grp ''1'' (seqs [text_rx ''{'', lazy_star (Test (\<lambda>_. True)), text_rx ''}'']))
            (Seq spaces (Seq (text_rx ''-->'') Eps)))
       (pr, 123 # u @ 125 # lit '' -->'' @ t, gs) =
     (rev (123 # u @ 125 # lit '' -->'') @ pr, t, (''1'', 123 # u @ [125]) # gs) # more"
proof -
  let ?s = "u @ 125 # lit '' -->'' @ t" and ?R = "Seq spaces (Seq (text_rx ''-->'') Eps)"
  let ?K = "\<lambda>i. concat (map (run ?R) (map (capture ''1'' (123 # ?s))
     (run (text_rx ''}'') (rev (take i ?s) @ 123 # pr, drop i ?s, gs))))"
  have whole: "run (Seq (Grp ''1'' (seqs [text_rx ''{'', lazy_star (Test (\<lambda>_. True)), text_rx ''}''])) ?R)
       (pr, 123 # ?s, gs) = concat (map ?K [0..<Suc (length ?s)])"
    using run_any_lazily [of ?s ?s "123 # pr" gs]
    by (simp add: seqs_def lazy_star_def text_rx_def [of "''{''"] chr_def comp_def map_concat concat_map_concat concat_concat_map
        del: upt_Suc append_Cons append_assoc)
  have early: "?K i = []" if "i < length u" for i
  proof (cases "u ! i = 125")
    case True
    have d: "drop i ?s = 125 # drop (Suc i) u @ 125 # lit '' -->'' @ t"
      using that True by (simp add: Cons_nth_drop_Suc [symmetric])
    have "62 \<notin> set (drop (Suc i) u)" using assms by (meson in_set_dropD)
    from comment_end_later [OF this] show ?thesis
      by (simp only: d close_brace simp_thms if_True list.map concat.simps capture_def fst_conv snd_conv append_Nil)
  next
    case False
    have d: "drop i ?s = u ! i # drop (Suc i) u @ 125 # lit '' -->'' @ t"
      using that by (simp add: Cons_nth_drop_Suc [symmetric])
    show ?thesis using False by (simp only: d close_brace if_False list.map concat.simps)
  qed
  have "run ?R (125 # rev u @ 123 # pr, lit '' -->'' @ t, (''1'', 123 # u @ [125]) # gs) =
      [(rev (123 # u @ 125 # lit '' -->'') @ pr, t, (''1'', 123 # u @ [125]) # gs)]"
    by (simp add: lit_Cons run_spaces_stop is_space_def text_rx_def chr_def)
  then have "?K (length u) = [(rev (123 # u @ 125 # lit '' -->'') @ pr, t, (''1'', 123 # u @ [125]) # gs)]"
    by (simp add: close_brace capture_def del: run.simps(4))
  from hd_concat_map [of "length u" "Suc (length ?s)" ?K, OF _ early this] that show thesis
    unfolding whole by (metis le_imp_less_Suc le_add1 length_append append_Cons)
qed

section \<open>Text that opens no comment\<close>

fun opens_comment :: "pystr \<Rightarrow> bool" where
  "opens_comment [] \<longleftrightarrow> False"
| "opens_comment (c # cs) \<longleftrightarrow> startswith (c # cs) (lit ''<!--'') \<or> opens_comment cs"

declare opens_comment.simps(2) [simp del]
lemmas opens_comment_step = opens_comment.simps(2)

lemma comment_start: "startswith s (lit ''<!--'') \<longleftrightarrow> (\<exists>t. s = 60 # 33 # 45 # 45 # t)"
  by (auto simp: startswith_iff lit_Cons)

lemma opens_comment_other [simp]: "c \<noteq> 60 \<Longrightarrow> opens_comment (c # s) \<longleftrightarrow> opens_comment s"
  by (simp add: opens_comment_step comment_start)

lemma opens_comment_lt [simp]: "c \<noteq> 33 \<Longrightarrow> opens_comment (60 # c # s) \<longleftrightarrow> opens_comment (c # s)"
  by (simp add: opens_comment_step comment_start)

lemma opens_no_lt: "60 \<notin> set s \<Longrightarrow> \<not> opens_comment s"
  by (induction s) auto

text \<open>No opening crosses a character that is none of its own, nor the start of another one.\<close>

lemma opens_comment_sep [simp]:
  "c \<notin> {33, 45} \<Longrightarrow> opens_comment (a @ c # b) \<longleftrightarrow> opens_comment a \<or> opens_comment (c # b)"
proof (induction a)
  case (Cons x a)
  have "startswith (x # a @ c # b) (lit ''<!--'') \<longleftrightarrow> startswith (x # a) (lit ''<!--'')"
    using Cons.prems by (cases a; cases "tl a"; cases "tl (tl a)") (auto simp: comment_start)
  then show ?case using Cons by (simp add: opens_comment_step [of x])
qed simp

lemma opens_commentI: "opens_comment a \<Longrightarrow> opens_comment (a @ b)" "opens_comment b \<Longrightarrow> opens_comment (a @ b)"
  by (induction a) (auto simp: opens_comment_step comment_start)

lemma opens_comment_join: "opens_comment (join [44, 32] xs) \<longleftrightarrow> list_ex opens_comment xs"
  by (induction "[44 :: nat, 32]" xs rule: join.induct) simp_all

text \<open>A body with one marker, and no comment opened around it: the pattern finds exactly its payload.\<close>

lemma marker_re_start: "\<not> startswith cs (lit ''<!--'') \<Longrightarrow> run (marker_re name) (pr, cs, gs) = []"
  by (simp add: marker_re_def seqs_def run_literal_fails)

lemma find_nothing: "\<not> opens_comment cs \<Longrightarrow> find_from (marker_re name) k pr cs = []"
proof (induction k arbitrary: pr cs)
  case (Cons x k)
  have "\<not> startswith cs (lit ''<!--'')" using Cons.prems by (cases cs) (simp_all add: opens_comment_step comment_start)
  moreover have "\<not> opens_comment (tl cs)" using Cons.prems by (cases cs) (simp_all add: opens_comment_step)
  ultimately show ?case using Cons.IH by (auto simp: marker_re_start split: list.split)
qed simp

lemma find_fuel: "length k = length k' \<Longrightarrow> find_from r k pr cs = find_from r k' pr cs"
proof (induction k arbitrary: k' pr cs)
  case (Cons x k)
  then obtain y j where k': "k' = y # j" "length k = length j" by (cases k') auto
  have "find_from r k = find_from r j" using Cons.IH [OF k'(2)] by (simp add: fun_eq_iff)
  then show ?case unfolding k'(1) find_from.simps by (auto split: list.split)
qed simp

lemma find_after_prefix:
  "\<not> opens_comment pre \<Longrightarrow> find_from (marker_re name) (pre @ k) pr (pre @ 60 # cs) =
     find_from (marker_re name) k (rev pre @ pr) (60 # cs)"
proof (induction pre arbitrary: pr)
  case (Cons c pre)
  have "\<not> startswith (c # pre) (lit ''<!--'')" "\<not> opens_comment pre" using Cons.prems by (simp_all add: opens_comment_step)
  moreover from this have "\<not> startswith (c # pre @ 60 # cs) (lit ''<!--'')"
    by (cases pre; cases "tl pre"; cases "tl (tl pre)") (auto simp: comment_start)
  ultimately show ?case using Cons.IH by (simp add: marker_re_start)
qed simp

lemma marker_matched:
  assumes name: "list_all (\<lambda>c. \<not> is_space (of_char c)) (''mindwire:'' @ name)" and "62 \<notin> set u"
  obtains more where
    "run (marker_re name) (pr, lit ''<!-- mindwire:'' @ lit name @ lit '' v1 '' @ 123 # u @ 125 # lit '' -->'' @ t, [])
      = (rev (lit ''<!-- mindwire:'' @ lit name @ lit '' v1 '' @ 123 # u @ 125 # lit '' -->'') @ pr, t,
         [(''1'', 123 # u @ [125])]) # more"
proof -
  let ?tail = "123 # u @ 125 # lit '' -->'' @ t"
  let ?p1 = "rev (lit ''<!--'') @ pr"
  let ?p2 = "rev (lit (''mindwire:'' @ name)) @ 32 # ?p1"
  let ?p3 = "32 # rev (lit ''v1'') @ 32 # ?p2"
  let ?P = "Seq (Grp ''1'' (seqs [text_rx ''{'', lazy_star (Test (\<lambda>_. True)), text_rx ''}'']))
            (Seq spaces (Seq (text_rx ''-->'') Eps))"
  obtain more where P: "run ?P (?p3, ?tail, []) =
      (rev (123 # u @ 125 # lit '' -->'') @ ?p3, t, [(''1'', 123 # u @ [125])]) # more"
    by (rule payload_taken [OF assms(2)])
  have sp1: "run spaces (?p1, 32 # lit (''mindwire:'' @ name) @ 32 # lit ''v1'' @ 32 # ?tail, []) =
      [(32 # ?p1, lit (''mindwire:'' @ name) @ 32 # lit ''v1'' @ 32 # ?tail, []),
       (?p1, 32 # lit (''mindwire:'' @ name) @ 32 # lit ''v1'' @ 32 # ?tail, [])]"
    using run_spaces_stop [of "of_char CHR ''m''" ?p1 "lit (''indwire:'' @ name) @ 32 # lit ''v1'' @ 32 # ?tail" "[]"]
    by (simp add: lit_Cons is_space_def)
  have late: "run (text_rx (''mindwire:'' @ name)) (?p1, 32 # r, []) = []" for r
    by (rule run_literal_fails) (simp add: startswith_def lit_Cons)
  have sp2: "run (plus (Test is_space)) (?p2, 32 # lit ''v1'' @ 32 # ?tail, []) = [(32 # ?p2, lit ''v1'' @ 32 # ?tail, [])]"
    using run_plus_space_stop [of 118 ?p2 "49 # 32 # ?tail" "[]"] by (simp add: lit_Cons is_space_def)
  have sp3: "run (plus (Test is_space)) (rev (lit ''v1'') @ 32 # ?p2, 32 # ?tail, []) = [(?p3, ?tail, [])]"
    by (simp add: run_plus_space_stop is_space_def)
  have "lit ''<!-- mindwire:'' @ lit name @ lit '' v1 '' @ ?tail =
      lit ''<!--'' @ 32 # lit (''mindwire:'' @ name) @ 32 # lit ''v1'' @ 32 # ?tail"
    by (simp add: lit_Cons lit_append)
  moreover have "run (marker_re name) (pr, lit ''<!--'' @ 32 # lit (''mindwire:'' @ name) @ 32 # lit ''v1'' @ 32 # ?tail, []) =
      run ?P (?p3, ?tail, [])"
    unfolding marker_re_def seqs_def foldr.simps comp_def id_def
    by (simp only: run.simps(4) run_literal sp1 sp2 sp3 late list.map concat.simps append_Nil append_Nil2)
  ultimately show thesis
    using P by (intro that) (simp add: lit_Cons lit_append)
qed

lemma printable_no_greater: "printable_only no_greater"
  by (simp add: printable_only_def no_greater_def ascii_printable_def)

lemma object_text:
  obtains u where "json_text [] raw (Obj fs) = 123 # u @ [125]"
  by simp

definition marker_name :: "string \<Rightarrow> bool" where
  "marker_name name \<longleftrightarrow> list_all (\<lambda>c. \<not> is_space (of_char c)) name"

lemma marker_prefix_ok: "marker_name name \<Longrightarrow> list_all (\<lambda>c. \<not> is_space (of_char c)) (''mindwire:'' @ name)"
  by (simp add: marker_name_def is_space_def)

lemma marker_payloads_render:
  assumes name: "marker_name name" and ok: "json_ok (Obj fs)" and "\<not> opens_comment pre" and "\<not> opens_comment post"
  shows "marker_payloads name (pre @ render_marker name (Obj fs) @ post) = [json_text [] no_greater (Obj fs)]"
proof -
  obtain u where u: "json_text [] no_greater (Obj fs) = 123 # u @ [125]" by (rule object_text)
  have replaced: "replace_greater (dumps (Obj fs)) = 123 # u @ [125]"
    using replaced_text [OF ok] u by (simp add: dumps_def)
  then have "62 \<notin> set u" using replaced_no_greater [of "dumps (Obj fs)"] by simp
  then obtain more where run:
    "run (marker_re name) (rev pre, lit ''<!-- mindwire:'' @ lit name @ lit '' v1 '' @ 123 # u @ 125 # lit '' -->'' @ post, [])
      = (rev (lit ''<!-- mindwire:'' @ lit name @ lit '' v1 '' @ 123 # u @ 125 # lit '' -->'') @ rev pre, post,
         [(''1'', 123 # u @ [125])]) # more"
    by (rule marker_matched [OF marker_prefix_ok [OF name]])
  let ?m = "lit ''<!-- mindwire:'' @ lit name @ lit '' v1 '' @ 123 # u @ 125 # lit '' -->'' @ post"
  have body: "pre @ render_marker name (Obj fs) @ post = pre @ ?m"
    by (simp add: render_marker_def replaced)
  have long: "length post < length ?m" by simp
  have "rx_find_all (marker_re name) (pre @ ?m) = find_from (marker_re name) (pre @ 0 # ?m) [] (pre @ ?m)"
    unfolding rx_find_all_def by (rule find_fuel) simp
  also have "\<dots> = find_from (marker_re name) (0 # ?m) (rev pre) ?m"
    using find_after_prefix [OF assms(3), of name "0 # ?m" "[]" "tl ?m"] by (simp add: lit_Cons)
  finally have find: "rx_find_all (marker_re name) (pre @ ?m) = find_from (marker_re name) (0 # ?m) (rev pre) ?m" .
  have "find_from (marker_re name) (0 # ?m) (rev pre) ?m = [(length pre, map_of [(''1'', 123 # u @ [125])])]"
    using long find_nothing [OF assms(4)] by (simp only: find_from.simps run list.case prod.case if_True length_rev)
  then show ?thesis
    unfolding body marker_payloads_def u find by (simp add: group_def)
qed

end
