(* ===== verification/GateRecords.thy ===== *)
theory GateRecords
  imports Gate Markers Handoff
begin

text \<open>
  What the loop reads back from its own relay bodies (\<open>conductor/gate_records.py\<close>,
  \<open>github/reviews.py\<close>): the heads a failing build was routed for, the heads a verdict names, the
  verdict footer; and the check that a relay at the head of a thread may restart the implementer
  (\<open>conductor/gate_resume.py\<close>). \<open>low\<close> is Python's lower casing.
\<close>

section \<open>Markers of the gate\<close>

definition RELAY_AUTHOR :: pystr where
  "RELAY_AUTHOR = lit ''pr-gate-relay''"

definition normalize_sha :: "(pystr \<Rightarrow> pystr) \<Rightarrow> pystr \<Rightarrow> pystr" where
  "normalize_sha low sha = low (strip sha)"

definition render_ci_route_marker :: "(pystr \<Rightarrow> pystr) \<Rightarrow> pystr \<Rightarrow> pystr \<Rightarrow> pystr list \<Rightarrow> pystr" where
  "render_ci_route_marker low head concl checks =
     render_marker ''ci-route''
       (Obj [(lit ''head'', Str (normalize_sha low head)), (lit ''conclusion'', Str concl),
             (lit ''checks'', Arr (map Str checks))])"

text \<open>The head a payload names, if it is an object with a head that is not blank.\<close>

definition payload_head :: "pystr \<Rightarrow> pystr option" where
  "payload_head raw =
     (case loads raw of
        Some (Obj kvs) \<Rightarrow>
          (case json_get (lit ''head'') kvs of
             Str head \<Rightarrow> if strip head = [] then None else Some head
           | _ \<Rightarrow> None)
      | _ \<Rightarrow> None)"

definition ci_route_heads :: "(pystr \<Rightarrow> pystr) \<Rightarrow> pystr list \<Rightarrow> pystr set" where
  "ci_route_heads low bodies =
     set (map (normalize_sha low) (List.map_filter payload_head (concat (map (marker_payloads ''ci-route'') bodies))))"

text \<open>The JSON of this marker is not passed through the escaping of \<open>>\<close>.\<close>

definition render_ci_hold_marker :: "(pystr \<Rightarrow> pystr) \<Rightarrow> pystr \<Rightarrow> pystr" where
  "render_ci_hold_marker low head =
     lit ''<!-- mindwire:ci-hold v1 '' @ dumps (Obj [(lit ''head'', Str (normalize_sha low head))]) @ lit '' -->''"

definition ci_hold_head :: "(pystr \<Rightarrow> pystr) \<Rightarrow> pystr \<Rightarrow> pystr option" where
  "ci_hold_head low body =
     (case rev (List.map_filter payload_head (marker_payloads ''ci-hold'' body)) of
        [] \<Rightarrow> None
      | head # _ \<Rightarrow> Some (normalize_sha low head))"

section \<open>Headings\<close>

text \<open>\<open>between m n r\<close>: \<open>r{m,n}\<close>, as many as possible.\<close>

primrec up_to :: "nat \<Rightarrow> rx \<Rightarrow> rx" where
  "up_to 0 r = Eps"
| "up_to (Suc n) r = opt (Seq r (up_to n r))"

definition between :: "nat \<Rightarrow> nat \<Rightarrow> rx \<Rightarrow> rx" where
  "between m n r = Seq (foldr Seq (replicate m r) Eps) (up_to (n - m) r)"

definition hex_rx :: rx where
  "hex_rx = Test (\<lambda>c. hex_value c \<noteq> None)"

text \<open>\<open>$\<close> without \<open>MULTILINE\<close>: at the end, or before a last line feed.\<close>

definition dollar :: rx where
  "dollar = At (\<lambda>pr cs. cs = [] \<or> cs = [10])"

definition relay_head_re :: rx where
  "relay_head_re = seqs [text_rx ''@'', spaces, Grp ''1'' (between 7 40 hex_rx), spaces, dollar]"

definition admission_heading_prefix :: pystr where
  "admission_heading_prefix = lit ''PR-gate admission (pre-gate CI wait) '' @ [8212, 32]"

definition relay_heading_prefix :: pystr where
  "relay_heading_prefix = lit ''PR-gate (Tier B independent naysayer) '' @ [8212, 32]"

definition render_admission_heading :: "pystr \<Rightarrow> pystr" where
  "render_admission_heading ref = admission_heading_prefix @ ref"

definition first_line :: "pystr \<Rightarrow> pystr" where
  "first_line body = (if strip body = [] then [] else strip (hd (splitlines (strip body))))"

definition admission_heading_pr_ref :: "pystr \<Rightarrow> pystr option" where
  "admission_heading_pr_ref body =
     (let line = first_line body
      in if \<not> startswith line admission_heading_prefix then None
         else let ref = strip (drop (length admission_heading_prefix) line)
              in if ref = [] then None else Some ref)"

text \<open>\<open>sub("", s)\<close>: what every match covers is left out.\<close>

fun sub_from :: "rx \<Rightarrow> pystr \<Rightarrow> pystr \<Rightarrow> pystr \<Rightarrow> pystr" where
  "sub_from r [] pr cs = cs"
| "sub_from r (_ # k) pr cs =
     (case run r (pr, cs, []) of
        (pr', cs', gs) # _ \<Rightarrow>
          (if length cs' < length cs then sub_from r k pr' cs'
           else (case cs of [] \<Rightarrow> [] | c # cs'' \<Rightarrow> c # sub_from r k (c # pr) cs''))
      | [] \<Rightarrow> (case cs of [] \<Rightarrow> [] | c # cs'' \<Rightarrow> c # sub_from r k (c # pr) cs''))"

definition rx_sub_empty :: "rx \<Rightarrow> pystr \<Rightarrow> pystr" where
  "rx_sub_empty r s = sub_from r (0 # s) [] s"

definition relay_heading_pr_ref :: "pystr \<Rightarrow> pystr option" where
  "relay_heading_pr_ref body =
     (let line = first_line body
      in if \<not> startswith line relay_heading_prefix then None
         else let ref = strip (rx_sub_empty relay_head_re (drop (length relay_heading_prefix) line))
              in if ref = [] then None else Some ref)"

definition render_relay_heading :: "(pystr \<Rightarrow> pystr) \<Rightarrow> pystr \<Rightarrow> pystr option \<Rightarrow> pystr" where
  "render_relay_heading low ref head =
     relay_heading_prefix @ ref @
     (case head of None \<Rightarrow> [] | Some h \<Rightarrow> if h = [] then [] else lit '' @ '' @ normalize_sha low h)"

definition verdict_head :: "(pystr \<Rightarrow> pystr) \<Rightarrow> pystr \<Rightarrow> pystr option" where
  "verdict_head low body =
     (if ci_hold_head low body \<noteq> None then None
      else map_option (\<lambda>m. normalize_sha low (group m ''1''))
             (rx_search relay_head_re (if strip body = [] then [] else hd (splitlines (strip body)))))"

definition verdict_heads :: "(pystr \<Rightarrow> pystr) \<Rightarrow> pystr list \<Rightarrow> pystr set" where
  "verdict_heads low bodies = set (List.map_filter (verdict_head low) bodies)"

definition MERGE_WAIT_MARK :: pystr where "MERGE_WAIT_MARK = lit ''MERGE-WAIT:''"
definition MERGE_SELF_MARK :: pystr where "MERGE_SELF_MARK = lit ''MERGE-SELF:''"

definition is_merge_wait_relay :: "pystr \<Rightarrow> bool" where
  "is_merge_wait_relay body \<longleftrightarrow> list_ex (\<lambda>line. startswith line MERGE_WAIT_MARK) (splitlines body)"

definition is_merge_self_relay :: "pystr \<Rightarrow> bool" where
  "is_merge_self_relay body \<longleftrightarrow> list_ex (\<lambda>line. startswith line MERGE_SELF_MARK) (splitlines body)"

section \<open>The verdict footer\<close>

definition verdict_footer_re :: rx where
  "verdict_footer_re = seqs [text_rx ''<!-- mindwire:verdict head_sha='', Grp ''1'' (between 7 40 hex_rx),
     text_rx '' event='',
     Grp ''2'' (alts [text_rx ''APPROVE'', text_rx ''REQUEST_CHANGES'', text_rx ''COMMENT'']), text_rx '' -->'']"

definition review_event_of :: "pystr \<Rightarrow> review_event option" where
  "review_event_of s =
     (if s = lit ''APPROVE'' then Some Approve else if s = lit ''REQUEST_CHANGES'' then Some Request_changes
      else if s = lit ''COMMENT'' then Some Comment else None)"

definition parse_verdict_footer :: "pystr \<Rightarrow> (pystr \<times> review_event) option" where
  "parse_verdict_footer body =
     (case rx_find_all verdict_footer_re body of
        [(_, m)] \<Rightarrow> map_option (\<lambda>e. (group m ''1'', e)) (review_event_of (group m ''2''))
      | _ \<Rightarrow> None)"

section \<open>Resuming the implementer\<close>

datatype resume_kind = Resume_request_changes | Resume_ci_route

datatype resume_outcome = Verified | Unavailable | Stale | Contradicted

record resume_candidate =
  resume_kind :: resume_kind
  resume_pr :: pr_ref
  resume_head :: pystr

datatype resume_detail =
    Rollup_source_not_wired
  | Rollup_raised
  | Rollup_unread
  | Head_moved
  | Rollup_red
  | Rollup_not_red
  | Review_source_not_wired
  | Head_source_not_wired
  | Head_raised
  | Head_empty
  | Reviews_raised
  | No_gate_review_on_head
  | Latest_gate_review_is pystr
  | Changes_requested

record resume_check =
  resume_outcome :: resume_outcome
  resume_detail :: resume_detail
  resume_pr_head :: "pystr option"

record review_info =
  review_login :: pystr
  review_state :: pystr
  review_commit :: "pystr option"
  review_submitted :: "pystr option"

record check_rollup =
  rollup_head_sha :: pystr
  head_committed_date :: time
  head_pushed_at :: time
  rollup_rows :: "check_row list"

text \<open>A read of a remote service: it raised, or gave an answer.\<close>

datatype 'a fetched = Fetch_raised | Fetched 'a

definition resume_candidate_of :: "(pystr \<Rightarrow> pystr) \<Rightarrow> pystr \<Rightarrow> pystr \<Rightarrow> bool \<Rightarrow> resume_candidate option" where
  "resume_candidate_of low author body names_implementer =
     (if author \<noteq> RELAY_AUTHOR \<or> \<not> names_implementer then None
      else case relay_heading_pr_ref body of
        Some raw_ref \<Rightarrow>
          (case (parse_verdict_footer body, parse_pr_ref raw_ref) of
             (Some (sha, Request_changes), Some pr) \<Rightarrow>
               if normalize_sha low sha = [] then None
               else Some \<lparr>resume_kind = Resume_request_changes, resume_pr = pr,
                          resume_head = normalize_sha low sha\<rparr>
           | _ \<Rightarrow> None)
      | None \<Rightarrow>
          (case admission_heading_pr_ref body of
             None \<Rightarrow> None
           | Some raw_ref \<Rightarrow>
               (case (parse_pr_ref raw_ref, remdups (map (normalize_sha low)
                        (List.map_filter payload_head (marker_payloads ''ci-route'' body)))) of
                  (Some pr, [head]) \<Rightarrow>
                    Some \<lparr>resume_kind = Resume_ci_route, resume_pr = pr, resume_head = head\<rparr>
                | _ \<Rightarrow> None)))"

text \<open>The review of the gate's login on that head that was submitted last; among equals the last one.\<close>

definition submitted_key :: "review_info \<Rightarrow> pystr" where
  "submitted_key r = (case review_submitted r of None \<Rightarrow> [] | Some s \<Rightarrow> s)"

definition latest_gate_review :: "(pystr \<Rightarrow> pystr) \<Rightarrow> review_info list \<Rightarrow> pystr \<Rightarrow> pystr \<Rightarrow> review_info option" where
  "latest_gate_review low reviews login sha =
     (case filter (\<lambda>r. review_login r = login \<and>
                     (case review_commit r of None \<Rightarrow> False | Some c \<Rightarrow> c \<noteq> [] \<and> normalize_sha low c = sha)) reviews of
        [] \<Rightarrow> None
      | r # rs \<Rightarrow> Some (foldl (\<lambda>best x. if submitted_key best \<le> submitted_key x then x else best) r rs))"

definition verify_ci_route ::
    "(pystr \<Rightarrow> pystr) \<Rightarrow> resume_candidate \<Rightarrow> (pr_ref \<Rightarrow> check_rollup option fetched) option \<Rightarrow> resume_check" where
  "verify_ci_route low c rollup_source =
     (case rollup_source of
        None \<Rightarrow> \<lparr>resume_outcome = Contradicted, resume_detail = Rollup_source_not_wired, resume_pr_head = None\<rparr>
      | Some fetch \<Rightarrow>
          (case fetch (resume_pr c) of
             Fetch_raised \<Rightarrow> \<lparr>resume_outcome = Unavailable, resume_detail = Rollup_raised, resume_pr_head = None\<rparr>
           | Fetched None \<Rightarrow> \<lparr>resume_outcome = Unavailable, resume_detail = Rollup_unread, resume_pr_head = None\<rparr>
           | Fetched (Some rollup) \<Rightarrow>
               (let pr_head = normalize_sha low (rollup_head_sha rollup)
                in if pr_head \<noteq> resume_head c
                   then \<lparr>resume_outcome = Stale, resume_detail = Head_moved, resume_pr_head = Some pr_head\<rparr>
                   else if rollup_is_red (rollup_rows rollup)
                   then \<lparr>resume_outcome = Verified, resume_detail = Rollup_red, resume_pr_head = Some pr_head\<rparr>
                   else \<lparr>resume_outcome = Contradicted, resume_detail = Rollup_not_red,
                          resume_pr_head = Some pr_head\<rparr>)))"

definition verify_request_changes ::
    "(pystr \<Rightarrow> pystr) \<Rightarrow> resume_candidate \<Rightarrow> (pr_ref \<Rightarrow> pystr fetched) option \<Rightarrow>
     (pr_ref \<Rightarrow> review_info list fetched) option \<Rightarrow> pystr \<Rightarrow> resume_check" where
  "verify_request_changes low c head_source review_source login =
     (case (review_source, head_source) of
        (None, _) \<Rightarrow> \<lparr>resume_outcome = Contradicted, resume_detail = Review_source_not_wired, resume_pr_head = None\<rparr>
      | (Some _, None) \<Rightarrow> \<lparr>resume_outcome = Contradicted, resume_detail = Head_source_not_wired, resume_pr_head = None\<rparr>
      | (Some fetch_reviews, Some fetch_head) \<Rightarrow>
          (case fetch_head (resume_pr c) of
             Fetch_raised \<Rightarrow> \<lparr>resume_outcome = Unavailable, resume_detail = Head_raised, resume_pr_head = None\<rparr>
           | Fetched raw \<Rightarrow>
               (let pr_head = normalize_sha low raw
                in if pr_head = []
                   then \<lparr>resume_outcome = Unavailable, resume_detail = Head_empty, resume_pr_head = None\<rparr>
                   else if pr_head \<noteq> resume_head c
                   then \<lparr>resume_outcome = Stale, resume_detail = Head_moved, resume_pr_head = Some pr_head\<rparr>
                   else (case fetch_reviews (resume_pr c) of
                      Fetch_raised \<Rightarrow>
                        \<lparr>resume_outcome = Unavailable, resume_detail = Reviews_raised, resume_pr_head = Some pr_head\<rparr>
                    | Fetched reviews \<Rightarrow>
                        (case latest_gate_review low reviews login (resume_head c) of
                           None \<Rightarrow> \<lparr>resume_outcome = Contradicted, resume_detail = No_gate_review_on_head,
                                     resume_pr_head = Some pr_head\<rparr>
                         | Some latest \<Rightarrow>
                             if review_state latest \<noteq> lit ''CHANGES_REQUESTED''
                             then \<lparr>resume_outcome = Contradicted,
                                    resume_detail = Latest_gate_review_is
                                      (let s = low (review_state latest) in if s = [] then lit ''unknown'' else s),
                                    resume_pr_head = Some pr_head\<rparr>
                             else \<lparr>resume_outcome = Verified, resume_detail = Changes_requested,
                                    resume_pr_head = Some pr_head\<rparr>)))))"

record resume_sources =
  rollup_source :: "(pr_ref \<Rightarrow> check_rollup option fetched) option"
  review_source :: "(pr_ref \<Rightarrow> review_info list fetched) option"
  head_source :: "(pr_ref \<Rightarrow> pystr fetched) option"

definition verify_resume :: "(pystr \<Rightarrow> pystr) \<Rightarrow> resume_candidate \<Rightarrow> resume_sources \<Rightarrow> pystr \<Rightarrow> resume_check" where
  "verify_resume low c src login =
     (case resume_kind c of
        Resume_ci_route \<Rightarrow> verify_ci_route low c (rollup_source src)
      | Resume_request_changes \<Rightarrow> verify_request_changes low c (head_source src) (review_source src) login)"

section \<open>A head that was routed is read back\<close>

text \<open>\<open>str.lower\<close> on ASCII text; on other text it is left open.\<close>

definition lowers_ascii :: "(pystr \<Rightarrow> pystr) \<Rightarrow> bool" where
  "lowers_ascii low \<longleftrightarrow> (\<forall>s. list_all (\<lambda>c. c < 128) s \<longrightarrow> low s = ascii_lower s)"

definition hex_sha :: "pystr \<Rightarrow> bool" where
  "hex_sha s \<longleftrightarrow> s \<noteq> [] \<and> list_all (\<lambda>c. hex_value c \<noteq> None) s"

lemma hex_range: "hex_value c \<noteq> None \<Longrightarrow> c < 128 \<and> \<not> is_space c"
  by (auto simp: hex_value_def is_space_def split: if_splits)

lemma hex_sha_strip: "hex_sha s \<Longrightarrow> strip s = s"
  by (rule strip_fixed) (auto simp: hex_sha_def list_all_iff hex_range)

lemma hex_sha_lower: "hex_sha s \<Longrightarrow> hex_sha (ascii_lower s)"
  by (fastforce simp: hex_sha_def list_all_iff ascii_lower_def hex_value_def split: if_splits)

lemma normalize_hex_sha:
  assumes "lowers_ascii low" and "hex_sha s"
  shows "normalize_sha low s = ascii_lower s"
proof -
  have "list_all (\<lambda>c. c < 128) s" using assms(2) by (auto simp: hex_sha_def list_all_iff hex_range)
  then show ?thesis using assms hex_sha_strip [OF assms(2)] by (simp add: normalize_sha_def lowers_ascii_def)
qed

lemma ascii_lower_idem: "hex_sha s \<Longrightarrow> ascii_lower (ascii_lower s) = ascii_lower s"
  by (auto simp: hex_sha_def list_all_iff ascii_lower_def hex_value_def split: if_splits)

lemma scalar_hex: "hex_sha s \<Longrightarrow> list_all scalar s"
  using hex_range by (fastforce simp: hex_sha_def list_all_iff scalar_def)

lemma ci_route_marker_read:
  assumes low: "lowers_ascii low" and sha: "hex_sha head"
    and ok: "list_all scalar concl" "list_all (list_all scalar) checks"
    and around: "\<not> opens_comment pre" "\<not> opens_comment post"
  shows "ci_route_heads low [pre @ render_ci_route_marker low head concl checks @ post] = {ascii_lower head}"
proof -
  let ?kvs = "[(lit ''head'', Str (ascii_lower head)), (lit ''conclusion'', Str concl), (lit ''checks'', Arr (map Str checks))]"
  have lower: "hex_sha (ascii_lower head)" by (rule hex_sha_lower [OF sha])
  have keys: "list_all scalar (lit ''head'')" "list_all scalar (lit ''conclusion'')" "list_all scalar (lit ''checks'')"
    by (simp_all add: lit_Cons scalar_def)
  have json: "json_ok (Obj ?kvs)"
    using ok scalar_hex [OF lower] keys by (simp add: list_all_iff)
  have "marker_payloads ''ci-route'' (pre @ render_ci_route_marker low head concl checks @ post) =
      [json_text [] no_greater (Obj ?kvs)]"
    unfolding render_ci_route_marker_def normalize_hex_sha [OF low sha]
    by (rule marker_payloads_render [OF _ json around]) (simp add: marker_name_def is_space_def)
  moreover have "payload_head (json_text [] no_greater (Obj ?kvs)) = Some (ascii_lower head)"
    using loads_json_text [OF _ printable_no_greater json, of "[]"] hex_sha_strip [OF lower] lower
    by (simp add: payload_head_def json_get.simps hex_sha_def)
  ultimately show ?thesis
    using normalize_hex_sha [OF low lower] ascii_lower_idem [OF sha]
    by (simp add: ci_route_heads_def map_filter_simps)
qed

lemma ci_route_heads_mem: "b \<in> set bodies \<Longrightarrow> ci_route_heads low [b] \<subseteq> ci_route_heads low bodies"
  by (force simp: ci_route_heads_def List.map_filter_def)

lemma route_implementer_iff:
  "admission (gate_admission rows sha dc dp now self vh rh) = Route_implementer \<longleftrightarrow>
     self \<and> rollup_is_red rows \<and> sha \<notin> rh"
  by (auto simp: gate_admission_def rollup_is_red_def concluded_def Let_def)

lemma no_wait_constant:
  "\<not> (self \<and> \<not> concluded rollup) \<Longrightarrow> admission (gate_admission rollup sha dc dp now self vh rh) =
     admission (gate_admission rollup sha dc dp now' self vh rh)"
  by (cases "rollup = []") (auto simp: admission_simps concluded_def)

section \<open>Properties\<close>

text \<open>C30. Waiting for a build ends: on fixed observations there is one instant up to which the gate gives one answer and
  after which it gives one other answer that is never to wait, and it waits before that instant exactly for
  a build that is not concluded.\<close>

theorem gate_wait_ends:
  "\<exists>before after. after \<noteq> Defer \<and> (before = Defer \<longleftrightarrow> self \<and> \<not> concluded rollup) \<and>
     (\<forall>now. admission (gate_admission rollup sha dc dp now self vh rh) =
        (if now \<le> wait_deadline rollup dc dp then before else after))"
proof (intro exI conjI allI)
  let ?d = "wait_deadline rollup dc dp"
  let ?adm = "\<lambda>now. admission (gate_admission rollup sha dc dp now self vh rh)"
  show "?adm (?d + 1) \<noteq> Defer" by (simp add: defer_iff)
  show "?adm ?d = Defer \<longleftrightarrow> self \<and> \<not> concluded rollup" by (simp add: defer_iff)
  fix now
  show "?adm now = (if now \<le> ?d then ?adm ?d else ?adm (?d + 1))"
  proof (cases "self \<and> \<not> concluded rollup")
    case True
    then show ?thesis
      using after_the_wait [of rollup dc dp now "?d + 1" sha self vh rh]
        defer_iff [of rollup sha dc dp now self vh rh, THEN iffD2]
        defer_iff [of rollup sha dc dp ?d self vh rh, THEN iffD2]
      by (cases "now \<le> ?d") simp_all
  next
    case False
    show ?thesis
      using no_wait_constant [OF False, of sha dc dp now vh rh ?d]
        no_wait_constant [OF False, of sha dc dp now vh rh "?d + 1"] by simp
  qed
qed

text \<open>C34. A relay at the head of a thread restarts the implementer exactly when the live pull request still bears it
  out: its head is the one the relay names, and its build is red, or the latest review of the gate on that
  head asks for changes.\<close>

theorem resume_verified_iff:
  "resume_outcome (verify_resume low c src login) = Verified \<longleftrightarrow>
     (case resume_kind c of
        Resume_ci_route \<Rightarrow>
          (\<exists>fetch r. rollup_source src = Some fetch \<and> fetch (resume_pr c) = Fetched (Some r) \<and>
             normalize_sha low (rollup_head_sha r) = resume_head c \<and> rollup_is_red (rollup_rows r))
      | Resume_request_changes \<Rightarrow>
          (\<exists>heads reviews raw rs latest. head_source src = Some heads \<and> review_source src = Some reviews \<and>
             heads (resume_pr c) = Fetched raw \<and> normalize_sha low raw \<noteq> [] \<and>
             normalize_sha low raw = resume_head c \<and> reviews (resume_pr c) = Fetched rs \<and>
             latest_gate_review low rs login (resume_head c) = Some latest \<and>
             review_state latest = lit ''CHANGES_REQUESTED''))"
  by (auto simp: verify_resume_def verify_ci_route_def verify_request_changes_def Let_def
      split: resume_kind.splits option.splits fetched.splits if_splits)

end
