(* ===== verification/LoopControl.thy ===== *)
theory LoopControl
  imports PyTime Json Machines
begin

text \<open>
  The control plane of the loop: the per-project state the operator sets (\<open>conductor/control.py\<close>) and
  the Summon that calls the whole loop to one thread (\<open>conductor/summon.py\<close>).
\<close>

section \<open>The active Summon of a project\<close>

record active_summon =
  summon_thread :: pystr
  since :: time
  summon_by :: pystr

datatype summon_read = No_summon | Summon active_summon | Malformed_summon

text \<open>\<open>not value.strip()\<close>.\<close>

definition blank_text :: "pystr \<Rightarrow> bool" where
  "blank_text s \<longleftrightarrow> strip s = []"

definition parse_since :: "json \<Rightarrow> overflow + time option" where
  "parse_since v =
     (case v of
        Str s \<Rightarrow> (case read_iso s of None \<Rightarrow> Inr None | Some r \<Rightarrow> map_sum id Some (to_utc r))
      | _ \<Rightarrow> Inr None)"

definition parse_active_summon_value :: "json \<Rightarrow> overflow + summon_read" where
  "parse_active_summon_value v =
     (case v of
        Null \<Rightarrow> Inr No_summon
      | Obj kvs \<Rightarrow>
          (case parse_since (json_get (lit ''since'') kvs) of
             Inl e \<Rightarrow> Inl e
           | Inr at \<Rightarrow>
               (case (json_get (lit ''thread_id'') kvs, json_get (lit ''by'') kvs) of
                  (Str t, Str b) \<Rightarrow>
                    Inr (if blank_text t \<or> blank_text b then Malformed_summon
                         else case at of None \<Rightarrow> Malformed_summon
                              | Some w \<Rightarrow> Summon \<lparr>summon_thread = t, since = w, summon_by = b\<rparr>)
                | _ \<Rightarrow> Inr Malformed_summon))
      | _ \<Rightarrow> Inr Malformed_summon)"

definition parse_active_summon :: "json \<Rightarrow> overflow + summon_read" where
  "parse_active_summon payload =
     (case payload of
        Obj kvs \<Rightarrow> parse_active_summon_value (json_get (lit ''active_summon'') kvs)
      | _ \<Rightarrow> Inr No_summon)"

section \<open>Yielding to a Summon\<close>

type_synonym scoped = "pystr \<times> active_summon"

definition order_key :: "scoped \<Rightarrow> time \<times> pystr \<times> pystr" where
  "order_key s = (since (snd s), summon_thread (snd s), fst s)"

text \<open>\<open>min(blockers, key=...)\<close>: the first of the least.\<close>

definition least_scoped :: "scoped \<Rightarrow> scoped list \<Rightarrow> scoped" where
  "least_scoped s ss = foldl (\<lambda>best x. if order_key x < order_key best then x else best) s ss"

definition summon_yield_decision ::
    "pystr \<Rightarrow> pystr \<Rightarrow> active_summon option \<Rightarrow> pystr option \<Rightarrow> active_summon option \<Rightarrow> pystr option" where
  "summon_yield_decision project thread own_summon owner_project owner_summon =
     (let in_scope = (case own_summon of None \<Rightarrow> [] | Some s \<Rightarrow> [(project, s)]) @
            (case (owner_summon, owner_project) of
               (Some s, Some owner) \<Rightarrow> if owner \<noteq> [] \<and> owner \<noteq> project then [(owner, s)] else []
             | _ \<Rightarrow> []);
          is_me = (\<lambda>s. fst s = project \<and> summon_thread (snd s) = thread);
          blockers = (case find is_me in_scope of
                        None \<Rightarrow> in_scope
                      | Some me \<Rightarrow> filter (\<lambda>s. \<not> is_me s \<and> order_key s < order_key me) in_scope)
      in case blockers of [] \<Rightarrow> None | s # ss \<Rightarrow> Some (summon_thread (snd (least_scoped s ss))))"

section \<open>The control state\<close>

datatype control_state = Run | Supervised | Hold

definition FAILSAFE_CONTROL_STATE :: control_state where "FAILSAFE_CONTROL_STATE = Hold"
definition BASELINE_CONTROL_STATE :: control_state where "BASELINE_CONTROL_STATE = Supervised"

record control_snapshot =
  control_of :: control_state
  summon_of :: "active_summon option"

definition control_state_of :: "pystr \<Rightarrow> control_state option" where
  "control_state_of s =
     (if s = lit ''run'' then Some Run else if s = lit ''supervised'' then Some Supervised
      else if s = lit ''hold'' then Some Hold else None)"

definition parse_control_payload :: "json \<Rightarrow> control_state" where
  "parse_control_payload payload =
     (case payload of
        Obj kvs \<Rightarrow>
          (case json_get (lit ''desired_state'') kvs of
             Str raw \<Rightarrow> (case control_state_of raw of None \<Rightarrow> FAILSAFE_CONTROL_STATE | Some s \<Rightarrow> s)
           | _ \<Rightarrow> FAILSAFE_CONTROL_STATE)
      | _ \<Rightarrow> FAILSAFE_CONTROL_STATE)"

definition parse_control_snapshot :: "json \<Rightarrow> overflow + control_snapshot" where
  "parse_control_snapshot payload =
     (case parse_active_summon payload of
        Inl e \<Rightarrow> Inl e
      | Inr Malformed_summon \<Rightarrow> Inr \<lparr>control_of = FAILSAFE_CONTROL_STATE, summon_of = None\<rparr>
      | Inr No_summon \<Rightarrow> Inr \<lparr>control_of = parse_control_payload payload, summon_of = None\<rparr>
      | Inr (Summon s) \<Rightarrow> Inr \<lparr>control_of = parse_control_payload payload, summon_of = Some s\<rparr>)"

section \<open>The reader\<close>

text \<open>
  The calls to the chatroom service, in order; what each gives is a parameter that may depend on the
  calls so far.
\<close>

datatype control_call = Get_called | Report_called control_state

datatype get_outcome = Get_raised | Got json

datatype report_outcome = Report_done | Report_mcp_error | Report_raised

record control_reader =
  last_reported :: "control_state option"
  control_calls :: "control_call list"

record control_mcp =
  get_port :: "control_call list \<Rightarrow> get_outcome"
  report_port :: "control_call list \<Rightarrow> control_state \<Rightarrow> report_outcome"

datatype control_error = Overflowed | Report_error

definition control_fetch :: "control_mcp \<Rightarrow> (control_reader, control_error, json option) act" where
  "control_fetch mcp =
     andthen (gets control_calls) (\<lambda>calls.
     andthen (modify (\<lambda>s. s\<lparr>control_calls := control_calls s @ [Get_called]\<rparr>)) (\<lambda>_.
     case get_port mcp calls of Get_raised \<Rightarrow> ret None | Got payload \<Rightarrow> ret (Some payload)))"

definition read_snapshot :: "control_mcp \<Rightarrow> (control_reader, control_error, control_snapshot) act" where
  "read_snapshot mcp =
     andthen (control_fetch mcp) (\<lambda>got.
     case got of
       None \<Rightarrow> ret \<lparr>control_of = FAILSAFE_CONTROL_STATE, summon_of = None\<rparr>
     | Some payload \<Rightarrow>
         (case parse_control_snapshot payload of Inl _ \<Rightarrow> raise Overflowed | Inr snap \<Rightarrow> ret snap))"

definition report_observed :: "control_mcp \<Rightarrow> control_state \<Rightarrow> (control_reader, control_error, unit) act" where
  "report_observed mcp state =
     andthen (gets last_reported) (\<lambda>last.
     if last = Some state then ret ()
     else andthen (gets control_calls) (\<lambda>calls.
          andthen (modify (\<lambda>s. s\<lparr>control_calls := control_calls s @ [Report_called state]\<rparr>)) (\<lambda>_.
          case report_port mcp calls state of
            Report_mcp_error \<Rightarrow> ret ()
          | Report_raised \<Rightarrow> raise Report_error
          | Report_done \<Rightarrow> modify (\<lambda>s. s\<lparr>last_reported := Some state\<rparr>))))"

section \<open>Yielding descends\<close>

text \<open>
  A board: the Summon of every project, and the project whose Summon calls the whole loop. Whether
  the summoned thread of a project yields, and to which thread.
\<close>

type_synonym board = "pystr \<Rightarrow> active_summon option"

definition yields_to :: "board \<Rightarrow> pystr option \<Rightarrow> pystr \<Rightarrow> active_summon \<Rightarrow> pystr option" where
  "yields_to board owner p s =
     summon_yield_decision p (summon_thread s) (board p) owner (case owner of None \<Rightarrow> None | Some q \<Rightarrow> board q)"

lemma least_scoped_mem: "least_scoped s ss \<in> set (s # ss)"
  unfolding least_scoped_def
proof (induction ss arbitrary: s)
  case (Cons x ss)
  show ?case using Cons [of "if order_key x < order_key s then x else s"] by (auto split: if_splits)
qed simp

lemma yields_below:
  assumes b: "board p = Some s" and y: "yields_to board owner p s = Some t"
  shows "\<exists>q r. board q = Some r \<and> summon_thread r = t \<and> order_key (q, r) < order_key (p, s)"
proof -
  let ?me = "\<lambda>x :: scoped. fst x = p \<and> summon_thread (snd x) = summon_thread s"
  obtain q r where o: "owner = Some q" "board q = Some r" "q \<noteq> p" "q \<noteq> []"
    and less: "order_key (q, r) < order_key (p, s)" and t: "t = summon_thread r"
    using assms
    by (auto simp: yields_to_def summon_yield_decision_def Let_def least_scoped_def
        split: option.splits if_splits list.splits)
  then show ?thesis by blast
qed

lemma earliest_does_not_yield:
  assumes "finite (dom board)" and "board p0 = Some s0"
  shows "\<exists>p s. board p = Some s \<and> yields_to board owner p s = None"
proof -
  let ?K = "(\<lambda>p. order_key (p, the (board p))) ` dom board"
  have "Min ?K \<in> ?K" using assms by (intro Min_in) auto
  then obtain p s where p: "board p = Some s" and min: "order_key (p, s) = Min ?K" by auto
  have "yields_to board owner p s = None"
  proof (rule ccontr)
    assume "yields_to board owner p s \<noteq> None"
    then obtain t where "yields_to board owner p s = Some t" by blast
    then obtain q r where q: "board q = Some r" and less: "order_key (q, r) < order_key (p, s)"
      using yields_below [of board p s owner t, OF p] by blast
    have "order_key (q, r) \<in> ?K" using q by force
    then have "order_key (p, s) \<le> order_key (q, r)" using assms(1) min by simp
    with less show False by simp
  qed
  with p show ?thesis by blast
qed

section \<open>Reading the payload\<close>

lemma no_summon_iff: "parse_active_summon_value v = Inr No_summon \<longleftrightarrow> v = Null"
  by (cases v) (auto simp: parse_active_summon_value_def split: sum.splits json.splits option.splits)

lemma control_payload_live:
  "parse_control_payload (Obj kvs) = st \<and> st \<noteq> Hold \<longleftrightarrow>
     (\<exists>raw. json_get (lit ''desired_state'') kvs = Str raw \<and> control_state_of raw = Some st \<and> st \<noteq> Hold)"
  by (auto simp: parse_control_payload_def FAILSAFE_CONTROL_STATE_def split: json.splits option.splits)

lemma control_snapshot_Obj:
  "parse_control_snapshot (Obj kvs) = Inr snap \<and> control_of snap \<noteq> Hold \<longleftrightarrow>
     parse_control_payload (Obj kvs) = control_of snap \<and> control_of snap \<noteq> Hold \<and>
     (json_get (lit ''active_summon'') kvs = Null \<and> snap = \<lparr>control_of = control_of snap, summon_of = None\<rparr> \<or>
      (\<exists>s. parse_active_summon_value (json_get (lit ''active_summon'') kvs) = Inr (Summon s) \<and>
         snap = \<lparr>control_of = control_of snap, summon_of = Some s\<rparr>))"
proof (cases "parse_active_summon_value (json_get (lit ''active_summon'') kvs)")
  case (Inl e)
  then show ?thesis
    using no_summon_iff [of "json_get (lit ''active_summon'') kvs"]
    by (auto simp: parse_control_snapshot_def parse_active_summon_def)
next
  case (Inr r)
  then show ?thesis
    using no_summon_iff [of "json_get (lit ''active_summon'') kvs"]
    by (cases r) (auto simp: parse_control_snapshot_def parse_active_summon_def FAILSAFE_CONTROL_STATE_def)
qed

section \<open>Properties\<close>

text \<open>C32. The loop turns in a state other than hold exactly when the payload is an object that names that state
  and whose Summon is absent or well formed; anything else is a hold.\<close>

theorem control_fails_safe:
  "(parse_control_snapshot payload = Inr snap \<and> control_of snap \<noteq> Hold) \<longleftrightarrow>
   (\<exists>kvs raw st. payload = Obj kvs \<and> json_get (lit ''desired_state'') kvs = Str raw \<and>
      control_state_of raw = Some st \<and> st \<noteq> Hold \<and> control_of snap = st \<and>
      (json_get (lit ''active_summon'') kvs = Null \<and> snap = \<lparr>control_of = st, summon_of = None\<rparr> \<or>
       (\<exists>s. parse_active_summon_value (json_get (lit ''active_summon'') kvs) = Inr (Summon s) \<and>
          snap = \<lparr>control_of = st, summon_of = Some s\<rparr>)))"
proof (cases payload)
  case (Obj kvs)
  show ?thesis
    unfolding Obj control_snapshot_Obj using control_payload_live [of kvs "control_of snap"] by auto
qed (auto simp: parse_control_snapshot_def parse_active_summon_def parse_control_payload_def
      FAILSAFE_CONTROL_STATE_def)

text \<open>C33. Summons never block each other: some summoned thread does not yield, and a summoned thread yields only to the
  thread of a Summon that comes strictly earlier in the order of instant, thread and project.\<close>

theorem summons_never_deadlock:
  assumes "finite (dom board)" and "board p0 = Some s0"
  shows "(\<exists>p s. board p = Some s \<and> yields_to board owner p s = None) \<and>
    (\<forall>p s t. board p = Some s \<and> yields_to board owner p s = Some t \<longrightarrow>
       (\<exists>q r. board q = Some r \<and> summon_thread r = t \<and> order_key (q, r) < order_key (p, s)))"
  using earliest_does_not_yield [OF assms] yields_below by blast

definition sample_board :: board where
  "sample_board = [lit ''a'' \<mapsto> \<lparr>summon_thread = lit ''T1'', since = 20, summon_by = lit ''x''\<rparr>,
                   lit ''hub'' \<mapsto> \<lparr>summon_thread = lit ''T2'', since = 10, summon_by = lit ''x''\<rparr>]"

lemma summons_never_deadlock_witness:
  "(\<exists>p s. sample_board p = Some s \<and> yields_to sample_board (Some (lit ''hub'')) p s = None) \<and>
   yields_to sample_board (Some (lit ''hub'')) (lit ''a'') (the (sample_board (lit ''a''))) = Some (lit ''T2'')"
proof
  show "\<exists>p s. sample_board p = Some s \<and> yields_to sample_board (Some (lit ''hub'')) p s = None"
    using summons_never_deadlock [of sample_board "lit ''a''" _ "Some (lit ''hub'')"]
    by (simp add: sample_board_def)
  show "yields_to sample_board (Some (lit ''hub'')) (lit ''a'') (the (sample_board (lit ''a''))) = Some (lit ''T2'')"
    by (simp add: yields_to_def sample_board_def summon_yield_decision_def order_key_def least_scoped_def lit_Cons)
qed

text \<open>C35. A control payload raises in the reader exactly when it is an object whose active Summon is an object with a
  \<open>since\<close> text that reads as a local time with an offset, and the time that offset leads to lies outside the calendar.
  Such a Summon is not read as malformed, so the failsafe hold is not reached, whatever else the payload says. Every other
  payload gives a snapshot.\<close>

theorem summon_outside_calendar_raises:
  "parse_control_snapshot payload = Inl OverflowError \<longleftrightarrow>
     (\<exists>kvs summon text local offset. payload = Obj kvs \<and> json_get (lit ''active_summon'') kvs = Obj summon \<and>
        json_get (lit ''since'') summon = Str text \<and> read_iso text = Some (local, offset) \<and>
        (local - offset * 1000000 < min_instant \<or> max_instant < local - offset * 1000000))"
  by (cases payload)
    (auto simp: parse_control_snapshot_def parse_active_summon_def parse_active_summon_value_def parse_since_def to_utc_def
      Let_def split: json.splits option.splits sum.splits summon_read.splits if_splits)

lemma summon_outside_calendar_raises_witness:
  "parse_control_snapshot (Obj [(lit ''desired_state'', Str (lit ''hold'')),
     (lit ''active_summon'', Obj [(lit ''thread_id'', Str (lit ''T1'')), (lit ''by'', Str (lit ''op'')),
        (lit ''since'', Str (lit ''0001-01-01T00:00:00+01:00''))])]) = Inl OverflowError"
proof -
  have "read_iso (lit ''0001-01-01T00:00:00+01:00'') = Some (min_instant, 3600)"
    by (simp add: lit_Cons read_iso_def read_date_def read_clock_def read_fraction_def read_offset_def
        number_at_def char_at_def all_digits_def Let_def valid_date_def valid_clock_def days_in_month_def
        min_instant_def)
  then show ?thesis unfolding summon_outside_calendar_raises by (auto simp: json_get.simps)
qed

end
