(* ===== verification/Conductor.thy ===== *)
theory Conductor
  imports Segments HeadSkip GateRecords LoopControl
begin

text \<open>
  The routing of one head by the conductor (\<open>conductor/core.py\<close>): which role speaks next, or why the
  loop stops. The conductor's configuration is a record, its attributes a state, the services it asks
  are functions of the calls made so far. Log lines are not modelled.
\<close>

section \<open>Outcomes\<close>

datatype ending =
    By_human | Settled | No_handoff | No_progress | Self_handoff | By_stall | Round_cap | Empty_thread
  | On_hold | Ci_wait | Resume_retry | Slice_end | Merge_wait | By_operator_work | Adapter_error
  | Summon_yield | Pr_settled

record route_decision =
  target_role :: "role option"
  target_identity :: pystr
  is_forced :: bool
  is_saveable :: bool
  spawn_blocked :: bool
  stop_reason :: "ending option"

definition halt_route :: "ending \<Rightarrow> route_decision" where
  "halt_route why = \<lparr>target_role = None, target_identity = [], is_forced = False, is_saveable = False,
     spawn_blocked = False, stop_reason = Some why\<rparr>"

definition turn_route :: "role \<Rightarrow> pystr \<Rightarrow> route_decision" where
  "turn_route r i = \<lparr>target_role = Some r, target_identity = i, is_forced = False, is_saveable = False,
     spawn_blocked = False, stop_reason = None\<rparr>"

section \<open>Configuration, state, services\<close>

record conductor =
  fold_case :: "pystr \<Rightarrow> pystr"
  lower_case :: "pystr \<Rightarrow> pystr"
  loop_project :: pystr
  loop_thread :: pystr
  loop_roster :: roster
  naysayer_identity :: pystr
  max_rounds :: nat
  naysayer_role :: role
  implementer_role :: role
  human_identity :: pystr
  tier_c_recorders :: "pystr list"
  gate_wired :: bool
  only_on_explicit_human :: bool
  embodiments :: "(pystr \<times> pystr) list"
  gate_only :: bool
  continue_cap :: nat
  ledger_wired :: bool
  run_launches :: int
  run_launch_head :: "pystr option"
  review_login :: pystr

definition CONDUCTOR_RELAY_AUTHOR :: pystr where
  "CONDUCTOR_RELAY_AUTHOR = lit ''conductor-relay''"

definition RETRY_NOTICE_ROLES :: "role list" where "RETRY_NOTICE_ROLES = [Implementer]"

datatype attempt_outcome = Attempt_dirty | Attempt_cap | Relay_recovered_dirty

text \<open>The event a turn is dispatched with: the post, the thread, and which notices are attached.\<close>

record turn_event =
  event_msg :: chat_msg
  event_thread :: "chat_msg list"
  event_retry :: bool
  event_resume :: bool
  event_retreat :: bool
  event_round :: "(nat \<times> pystr option) option"
  event_conditional :: bool

text \<open>A call of the conductor to what is around it, in the order made; a control read with the state acted on.\<close>

datatype loop_call =
    Control_read control_state
  | Owner_read
  | Thread_read
  | Clone_checked
  | Ledger_admitted pystr pystr nat
  | Ledger_attempt pystr attempt_outcome nat "pystr option"
  | Veto_asked pystr
  | Decisions_recorded "chat_msg list"
  | Hook_asked "chat_msg list"
  | Admission_asked chat_msg
  | Bounce_stored chat_msg pystr
  | Annotated chat_msg
  | Pr_state_read pr_ref
  | Rollup_read pr_ref
  | Resume_verified resume_candidate
  | Gate_fired pystr
  | Post pystr pystr
  | Spawn role pystr
  | Retreat_read
  | Retreat_delivered
  | Dispatch role session_handle turn_event

datatype g3_close = Prefetch_missing | Vetoed "pystr option"

text \<open>What an adapter error leaves for the report of the run.\<close>

record stop_snapshot =
  snap_rounds :: nat
  snap_last :: "pystr option"
  snap_forced :: nat
  snap_saveable :: nat
  snap_error :: pystr

record loop_state =
  calls :: "loop_call list"
  reader :: control_reader
  control_now :: control_state
  yield_target :: "pystr option"
  open_sessions :: "(pystr \<times> session_handle) list"
  continuation :: "(continue_verdict \<times> continue_plan) option"
  proceed_veto :: "(pystr \<times> bool \<times> pystr option) option"
  g3_reason :: "g3_close option"
  guard_closures :: "closure list option"
  guard_scan :: "segment_scan option"
  notice_delivered :: bool
  retreat_checked :: bool
  stop_slot :: "stop_snapshot option"

datatype stand_down_reason =
    Project_unset | Thread_unset | Thread_unreadable | Repo_dir_unset | Repo_dir_missing
  | Identity_unresolved | Identity_role_ambiguous | Identity_operator_no_task | Operator_no_tier_c_check
  | Operator_tier_c_conflict | Identity_not_spawnable | Field_body_divergence | Field_not_resolvable

datatype loop_exc =
    Dirty_clone pystr
  | Assertion_failed
  | Stood_down stand_down_reason
  | Park_unposted
  | Stall_unposted
  | Spawn_timed_out
  | Sync_deferred
  | Raised pystr
  | Control_failed control_error

text \<open>\<open>clone_check\<close>: not wired, or what it finds: nothing, or the reason of a \<open>DirtyCloneError\<close>.\<close>

record route_ports =
  clone_check :: "(loop_call list \<Rightarrow> pystr option) option"
  veto_port :: "loop_call list \<Rightarrow> chat_msg list \<Rightarrow> bool \<times> pystr option"

type_synonym 'a loop_act = "(loop_state, loop_exc, 'a) act"

definition log_call :: "loop_call \<Rightarrow> unit loop_act" where
  "log_call c = modify (\<lambda>s. s\<lparr>calls := calls s @ [c]\<rparr>)"

text \<open>A thunk as an action.\<close>

definition force_thunk :: "(loop_state, 'a) thunk \<Rightarrow> 'a loop_act" where
  "force_thunk t = (\<lambda>s. case t s of (x, s') \<Rightarrow> (Inr x, s'))"

definition role_of :: "conductor \<Rightarrow> pystr \<Rightarrow> role option" where
  "role_of c author = roster_role (fold_case c) (loop_roster c) author"

definition is_human :: "conductor \<Rightarrow> pystr \<Rightarrow> bool" where
  "is_human c author = is_human_identity (fold_case c) author (human_identity c)"

definition implementer_identity :: "conductor \<Rightarrow> pystr option" where
  "implementer_identity c = derive_identity_by_role (loop_roster c) (implementer_role c)"

text \<open>The checks of the constructor, each a \<open>ValueError\<close>.\<close>

definition conductor_ok :: "conductor \<Rightarrow> bool" where
  "conductor_ok c \<longleftrightarrow> max_rounds c \<ge> 1 \<and> strip (naysayer_identity c) \<noteq> [] \<and>
     role_of c (naysayer_identity c) = Some (naysayer_role c)"

section \<open>Guards on the target\<close>

definition spawn_blocked_target :: "conductor \<Rightarrow> handoff \<Rightarrow> (pystr \<times> pystr) option" where
  "spawn_blocked_target c h =
     (if kind h = K_none \<or> kind h = K_pr_review then None
      else let name = (case identity h of
                         Some i \<Rightarrow> if i \<noteq> [] then i else (case token h of Some t \<Rightarrow> t | None \<Rightarrow> [])
                       | None \<Rightarrow> (case token h of Some t \<Rightarrow> t | None \<Rightarrow> []))
           in map_option (Pair name) (blocked_embodiment (fold_case c) name (embodiments c)))"

definition is_self_handoff :: "conductor \<Rightarrow> handoff \<Rightarrow> pystr \<Rightarrow> bool" where
  "is_self_handoff c h author =
     (let target = (case identity h of None \<Rightarrow> [] | Some i \<Rightarrow> i)
      in if target = [] \<or> author = [] then False
         else normalize_identity_key (fold_case c) target = normalize_identity_key (fold_case c) author)"

section \<open>Consultation of the naysayer\<close>

definition bounced_msg_ids :: "chat_msg list \<Rightarrow> pystr set" where
  "bounced_msg_ids messages =
     set (filter (\<lambda>i. i \<noteq> []) (List.map_filter
       (\<lambda>m. if chat_author m \<noteq> CONDUCTOR_RELAY_AUTHOR then None else bounced_msg_id (chat_content m)) messages))"

text \<open>Does this post end an episode: it hands to the human and was not bounced.\<close>

definition ends_episode :: "conductor \<Rightarrow> pystr set \<Rightarrow> chat_msg \<Rightarrow> bool" where
  "ends_episode c bounced m \<longleftrightarrow>
     kind (resolve_handoff (fold_case c) (chat_content m) (loop_roster c) (next_participant m)) = K_human \<and>
     chat_id m \<notin> bounced"

definition naysayer_consulted :: "conductor \<Rightarrow> chat_msg list \<Rightarrow> bool" where
  "naysayer_consulted c messages =
     (let segment = butlast messages; bounced = bounced_msg_ids messages
      in list_ex (\<lambda>m. role_of c (chat_author m) = Some (naysayer_role c) \<and> attested m)
           (rev (takeWhile (\<lambda>m. \<not> ends_episode c bounced m) (rev segment))))"

definition human_terminal :: "conductor \<Rightarrow> chat_msg list \<Rightarrow> bool \<Rightarrow> route_decision" where
  "human_terminal c messages explicit_human =
     (let author = chat_author (last messages)
      in if (explicit_human \<or> \<not> only_on_explicit_human c) \<and> role_of c author \<noteq> Some (naysayer_role c) \<and>
            \<not> is_human c author \<and> \<not> naysayer_consulted c messages
         then \<lparr>target_role = Some (naysayer_role c), target_identity = naysayer_identity c, is_forced = True,
               is_saveable = \<not> explicit_human, spawn_blocked = False, stop_reason = None\<rparr>
         else halt_route By_human)"

section \<open>Continuation\<close>

definition continuation_link :: "conductor \<Rightarrow> chat_msg \<Rightarrow> link" where
  "continuation_link c m =
     (let author = chat_author m; content = chat_content m; cf = fold_case c
      in if author = CONDUCTOR_RELAY_AUTHOR
         then (if is_continue_relay_body content then Continue_relay else Other)
         else let tok = (case parse_next_token content of None \<Rightarrow> [] | Some t \<Rightarrow> t)
         in if role_of c author = Some (implementer_role c)
            then (if tok \<noteq> [] \<and> normalize_identity_key cf tok = normalize_identity_key cf author \<and>
                     find_continue_declaration content \<noteq> None
                  then Continue_report else Other)
            else if tok \<noteq> [] \<and> role_of c tok = Some (implementer_role c) \<and>
                    (is_human c author \<or> role_of c author = Some (naysayer_role c) \<or> author = RELAY_AUTHOR)
            then Entry else Other)"

definition continuation_links :: "conductor \<Rightarrow> chat_msg list \<Rightarrow> link list" where
  "continuation_links c messages = map (continuation_link c) messages"

definition ledger_admitted :: "conductor \<Rightarrow> pystr \<Rightarrow> pystr \<Rightarrow> nat \<Rightarrow> unit loop_act" where
  "ledger_admitted c relay report n =
     (if \<not> ledger_wired c \<or> relay = [] then ret () else log_call (Ledger_admitted relay report n))"

definition ledger_attempt :: "conductor \<Rightarrow> pystr \<Rightarrow> attempt_outcome \<Rightarrow> nat \<Rightarrow> pystr option \<Rightarrow> unit loop_act" where
  "ledger_attempt c msg outcome n clone =
     (if \<not> ledger_wired c \<or> msg = [] then ret () else log_call (Ledger_attempt msg outcome n clone))"

definition continue_relay_admissible :: "conductor \<Rightarrow> route_ports \<Rightarrow> pystr \<Rightarrow> chat_msg list \<Rightarrow> bool loop_act" where
  "continue_relay_admissible c ports author messages =
     (let head = last messages in
      if author \<noteq> CONDUCTOR_RELAY_AUTHOR \<or> \<not> is_continue_relay_body (chat_content head) then ret False
      else case relay_chain_count (continuation_links c messages) of
        None \<Rightarrow> ret False
      | Some n \<Rightarrow>
          if n > continue_cap c then ret False
          else (case clone_check ports of
            None \<Rightarrow> ret False
          | Some check \<Rightarrow>
              andthen (gets calls) (\<lambda>made.
              andthen (log_call Clone_checked) (\<lambda>_.
              case check made of
                Some dirty \<Rightarrow>
                  andthen (ledger_attempt c (chat_id head) Relay_recovered_dirty n (Some dirty)) (\<lambda>_.
                  raise (Dirty_clone dirty))
              | None \<Rightarrow>
                  andthen (ledger_admitted c (chat_id head) (chat_id (last (butlast messages))) n) (\<lambda>_.
                  ret True)))))"

text \<open>The clone check as the thunk the rule asks; the second state component keeps what it refused with.\<close>

definition clone_is_clean :: "route_ports \<Rightarrow> (loop_state \<times> pystr list, bool) thunk" where
  "clone_is_clean ports =
     (\<lambda>(s, refusals). case clone_check ports of
        None \<Rightarrow> (False, (s, refusals))
      | Some check \<Rightarrow>
          (let s' = s\<lparr>calls := calls s @ [Clone_checked]\<rparr>
           in case check (calls s) of
                Some dirty \<Rightarrow> (False, (s', refusals @ [dirty]))
              | None \<Rightarrow> (True, (s', refusals))))"

text \<open>What follows from the verdict on a chain of \<open>n\<close>.\<close>

definition by_continue_verdict ::
    "conductor \<Rightarrow> pystr \<Rightarrow> chat_msg \<Rightarrow> pystr \<Rightarrow> nat \<Rightarrow> continue_verdict \<Rightarrow> pystr list \<Rightarrow> route_decision option loop_act" where
  "by_continue_verdict c author head body n verdict refusals =
     (case verdict of
        No_chain \<Rightarrow> ret None
      | Dirty \<Rightarrow>
          (case refusals of
             dirty # _ \<Rightarrow>
               andthen (ledger_attempt c (chat_id head) Attempt_dirty n (Some dirty)) (\<lambda>_. raise (Dirty_clone dirty))
           | [] \<Rightarrow> ret None)
      | _ \<Rightarrow>
          andthen (if verdict = Cap then ledger_attempt c (chat_id head) Attempt_cap n None else ret ()) (\<lambda>_.
          andthen (modify (\<lambda>s. s\<lparr>continuation := Some (verdict,
              \<lparr>plan_n = n, plan_cap = continue_cap c, plan_body = body, plan_implementer = author\<rparr>)\<rparr>)) (\<lambda>_.
          ret (Some (halt_route Self_handoff)))))"

definition route_continuation ::
    "conductor \<Rightarrow> route_ports \<Rightarrow> pystr \<Rightarrow> role option \<Rightarrow> chat_msg list \<Rightarrow> route_decision option loop_act" where
  "route_continuation c ports author author_role messages =
     (if author_role \<noteq> Some (implementer_role c) then ret None
      else case find_continue_declaration (chat_content (last messages)) of
        None \<Rightarrow> ret None
      | Some body \<Rightarrow>
          (let chain = chain_count (continuation_links c messages) in
           andthen (\<lambda>s. case continuation_admissible True chain (continue_cap c) (clone_is_clean ports) (s, []) of
                          (verdict, (s', refusals)) \<Rightarrow> (Inr (verdict, refusals), s')) (\<lambda>(verdict, refusals).
           case chain of
             None \<Rightarrow> ret None
           | Some n \<Rightarrow> by_continue_verdict c author (last messages) body n verdict refusals)))"

section \<open>Guard (i)\<close>

definition scan_segment :: "conductor \<Rightarrow> chat_msg list \<Rightarrow> segment_scan" where
  "scan_segment c messages =
     scan_tier_c_segment (fold_case c) (is_human c) (tier_c_recorders c) (Some (role_of c)) messages"

definition proceed_vetoed_for :: "pystr \<Rightarrow> (loop_state, bool) thunk" where
  "proceed_vetoed_for head_msg_id =
     (\<lambda>s. case proceed_veto s of
        Some (head, vetoed, score) \<Rightarrow>
          if head_msg_id = [] \<or> head \<noteq> head_msg_id then (True, s\<lparr>g3_reason := Some Prefetch_missing\<rparr>)
          else if vetoed then (True, s\<lparr>g3_reason := Some (Vetoed score)\<rparr>) else (False, s)
      | None \<Rightarrow> (True, s\<lparr>g3_reason := Some Prefetch_missing\<rparr>))"

definition prefetch_proceed_veto :: "conductor \<Rightarrow> route_ports \<Rightarrow> handoff \<Rightarrow> chat_msg list \<Rightarrow> unit loop_act" where
  "prefetch_proceed_veto c ports h messages =
     andthen (modify (\<lambda>s. s\<lparr>proceed_veto := None\<rparr>)) (\<lambda>_.
     if messages = [] \<or> kind h \<noteq> K_role \<or> handoff_role h \<noteq> Some (implementer_role c) then ret ()
     else let head = last messages; author = chat_author head in
       if is_human c author then ret ()
       else andthen (gets control_now) (\<lambda>state.
            andthen (force_thunk (carve_out_iii_admissible (role_of c author = Some (naysayer_role c)) (state = Run)
                (observed (attested head)) (observed (segment_declares_tier_c (scan_segment c messages)))
                (observed (declares_no_tier_c (fold_case c) (chat_content head))))) (\<lambda>open_door.
            if \<not> open_door then ret ()
            else andthen (gets calls) (\<lambda>made.
                 andthen (log_call (Veto_asked (chat_id head))) (\<lambda>_.
                 case veto_port ports made messages of
                   (vetoed, score) \<Rightarrow>
                     if chat_id head = [] then ret ()
                     else modify (\<lambda>s. s\<lparr>proceed_veto := Some (chat_id head, vetoed, score)\<rparr>))))))"

definition diagnose_guard_i_redirect ::
    "conductor \<Rightarrow> role option \<Rightarrow> chat_msg list \<Rightarrow> segment_scan \<Rightarrow> unit loop_act" where
  "diagnose_guard_i_redirect c author_role messages scan =
     (let head = last messages in
      andthen (gets control_now) (\<lambda>state.
      andthen (force_thunk (diagnose_carve_out_iii (chat_id head) (author_role = Some (naysayer_role c)) (state = Run)
          (observed (attested head)) (\<lambda>w. (open_declarations scan, w))
          (observed (declares_no_tier_c (fold_case c) (chat_content head))))) (\<lambda>closures.
      andthen (gets g3_reason) (\<lambda>g3.
      modify (\<lambda>s. s\<lparr>guard_closures := Some
          (if closures \<noteq> [] then closures
           else case g3 of
                  Some Prefetch_missing \<Rightarrow> [(G3_prefetch_missing, [chat_id head])]
                | Some (Vetoed _) \<Rightarrow> [(G3_veto, [chat_id head])]
                | None \<Rightarrow> []),
        guard_scan := Some scan\<rparr>)))))"

definition guard_i :: "conductor \<Rightarrow> chat_msg list \<Rightarrow> (loop_state, guard_verdict) thunk" where
  "guard_i c messages = (\<lambda>s.
     (let head = last messages; author = chat_author head in
      guard_proposer_to_implementer (is_human c author) (role_of c author = Some (naysayer_role c))
        (control_now s = Run) (observed (attested head))
        (observed (segment_declares_tier_c (scan_segment c messages)))
        (observed (declares_no_tier_c (fold_case c) (chat_content head)))
        (proceed_vetoed_for (chat_id head)) s))"

section \<open>The route\<close>

text \<open>A turn for the identity the handoff named; without one an assertion fails.\<close>

definition turn_of :: "handoff \<Rightarrow> route_decision loop_act" where
  "turn_of h =
     (case (handoff_role h, identity h) of
        (Some r, Some i) \<Rightarrow> ret (turn_route r i)
      | _ \<Rightarrow> raise Assertion_failed)"

definition route_to_implementer :: "conductor \<Rightarrow> route_ports \<Rightarrow> handoff \<Rightarrow> chat_msg list \<Rightarrow> route_decision loop_act" where
  "route_to_implementer c ports h messages =
     (let author = chat_author (last messages) in
      andthen (continue_relay_admissible c ports author messages) (\<lambda>continued.
      if continued then turn_of h
      else andthen (modify (\<lambda>s. s\<lparr>g3_reason := None, guard_closures := None, guard_scan := None\<rparr>)) (\<lambda>_.
           andthen (force_thunk (guard_i c messages)) (\<lambda>verdict.
           if verdict = Honor then turn_of h
           else andthen (diagnose_guard_i_redirect c (role_of c author) messages (scan_segment c messages)) (\<lambda>_.
                ret (human_terminal c messages False))))))"

definition route :: "conductor \<Rightarrow> route_ports \<Rightarrow> handoff \<Rightarrow> chat_msg list \<Rightarrow> route_decision loop_act" where
  "route c ports h messages =
     (let head = last messages; author = chat_author head; author_role = role_of c author in
      if spawn_blocked_target c h \<noteq> None then ret ((halt_route By_human)\<lparr>spawn_blocked := True\<rparr>)
      else if kind h = K_role \<and> is_self_handoff c h author
      then andthen (route_continuation c ports author author_role messages) (\<lambda>continued.
           ret (case continued of Some d \<Rightarrow> d | None \<Rightarrow> halt_route Self_handoff))
      else if kind h = K_role \<and> handoff_role h = Some (implementer_role c)
      then route_to_implementer c ports h messages
      else if kind h = K_human \<and> asks h = Some Operator_work \<and> stage1_skips (fold_case c) (chat_content head)
      then ret (halt_route By_operator_work)
      else if kind h = K_human then ret (human_terminal c messages True)
      else if kind h = K_role then turn_of h
      else if kind h = K_none
      then (if stop_of h = None then raise Assertion_failed else ret (halt_route Settled))
      else if fault h \<noteq> None then ret (halt_route No_handoff)
      else if \<not> only_on_explicit_human c \<and> author_role \<noteq> Some (naysayer_role c) \<and> \<not> is_human c author \<and>
              strip (chat_content head) \<noteq> [] \<and> \<not> naysayer_consulted c messages
      then ret \<lparr>target_role = Some (naysayer_role c), target_identity = naysayer_identity c, is_forced = True,
                is_saveable = True, spawn_blocked = False, stop_reason = None\<rparr>
      else ret (halt_route No_handoff))"

section \<open>What a route rests on\<close>

lemma thunk_simps:
  "observed b w = (b, w)" "negated (observed b) = observed (\<not> b)"
  "andalso (observed b) t w = (if b then t w else (False, w))"
  "negated t w = (case t w of (b, w') \<Rightarrow> (\<not> b, w'))" "force_thunk (observed b) s = (Inr b, s)"
  by (simp_all add: observed_def negated_def andalso_def force_thunk_def fun_eq_iff split: bool.split)

lemma carve_out_observed:
  "carve_out_iii_admissible naysayer running (observed a) (observed declares) (observed none) =
     observed (naysayer \<and> running \<and> a \<and> \<not> declares \<and> none)"
  by (simp add: carve_out_iii_admissible_def thunk_simps fun_eq_iff)

lemma guard_i_honor:
  "guard_i c messages s = (Honor, s') \<longleftrightarrow>
     s' = s \<and> (is_human c (chat_author (last messages)) \<or>
       role_of c (chat_author (last messages)) = Some (naysayer_role c) \<and> control_now s = Run \<and>
       attested (last messages) \<and> \<not> segment_declares_tier_c (scan_segment c messages) \<and>
       declares_no_tier_c (fold_case c) (chat_content (last messages)) \<and>
       chat_id (last messages) \<noteq> [] \<and> (\<exists>score. proceed_veto s = Some (chat_id (last messages), False, score)))"
  by (auto simp: guard_i_def guard_proposer_to_implementer_def carve_out_observed thunk_simps
      proceed_vetoed_for_def Let_def split: option.splits if_splits bool.splits)

lemma continue_relay_True:
  "continue_relay_admissible c ports author messages s = (Inr True, s') \<Longrightarrow>
     author = CONDUCTOR_RELAY_AUTHOR \<and> is_continue_relay_body (chat_content (last messages)) \<and>
     (\<exists>n check. relay_chain_count (continuation_links c messages) = Some n \<and> n \<le> continue_cap c \<and>
        clone_check ports = Some check \<and> check (calls s) = None)"
  by (auto simp: continue_relay_admissible_def andthen_def gets_def log_call_def modify_def ret_def raise_def
      ledger_attempt_def ledger_admitted_def Let_def split: option.splits if_splits)

lemma continue_relay_keeps:
  "continue_relay_admissible c ports author messages s = (Inr b, s') \<Longrightarrow>
     control_now s' = control_now s \<and> proceed_veto s' = proceed_veto s"
  by (auto simp: continue_relay_admissible_def andthen_def gets_def log_call_def modify_def ret_def raise_def
      ledger_attempt_def ledger_admitted_def Let_def split: option.splits if_splits)

definition licensed :: "conductor \<Rightarrow> route_ports \<Rightarrow> chat_msg list \<Rightarrow> loop_state \<Rightarrow> bool" where
  "licensed c ports messages s \<longleftrightarrow>
     (let head = last messages; author = chat_author head in
      is_human c author \<or>
      role_of c author = Some (naysayer_role c) \<and> control_now s = Run \<and> attested head \<and>
        open_declarations (scan_segment c messages) = [] \<and>
        declares_no_tier_c (fold_case c) (chat_content head) \<and>
        (\<exists>score. proceed_veto s = Some (chat_id head, False, score)) \<or>
      author = CONDUCTOR_RELAY_AUTHOR \<and> is_continue_relay_body (chat_content head) \<and>
        (\<exists>n check. relay_chain_count (continuation_links c messages) = Some n \<and> n \<le> continue_cap c \<and>
           clone_check ports = Some check \<and> check (calls s) = None))"

lemma turn_of_Inr: "turn_of h s = (Inr d, s') \<longleftrightarrow>
    s' = s \<and> (\<exists>r i. handoff_role h = Some r \<and> identity h = Some i \<and> d = turn_route r i)"
  by (auto simp: turn_of_def ret_def raise_def split: option.splits)

lemma human_terminal_target: "target_role (human_terminal c messages e) \<in> {None, Some (naysayer_role c)}"
  by (simp add: human_terminal_def halt_route_def Let_def)

lemma route_to_implementer_licensed:
  assumes "route_to_implementer c ports h messages s = (Inr d, s')"
    and "target_role d \<noteq> None" and "target_role d \<noteq> Some (naysayer_role c)"
  shows "licensed c ports messages s"
proof -
  let ?author = "chat_author (last messages)"
  obtain b s1 where b: "continue_relay_admissible c ports ?author messages s = (Inr b, s1)"
    using assms(1) by (auto simp: route_to_implementer_def andthen_def Let_def split: sum.splits prod.splits)
  show ?thesis
  proof (cases b)
    case True
    then show ?thesis using continue_relay_True [of c ports ?author messages s s1] b
      by (auto simp: licensed_def Let_def)
  next
    case False
    let ?s = "s1\<lparr>g3_reason := None, guard_closures := None, guard_scan := None\<rparr>"
    obtain v s2 where v: "guard_i c messages ?s = (v, s2)" by fastforce
    have "v = Honor"
    proof (rule ccontr)
      assume "v \<noteq> Honor"
      then have "d = human_terminal c messages False"
        using assms(1) b False v
        by (auto simp: route_to_implementer_def andthen_def Let_def modify_def force_thunk_def ret_def
            split: sum.splits prod.splits)
      then show False using assms(2,3) human_terminal_target [of c messages False] by auto
    qed
    then show ?thesis
      using guard_i_honor [of c messages ?s s2] v continue_relay_keeps [OF b]
      by (auto simp: licensed_def Let_def segment_declares_tier_c_def)
  qed
qed

lemma by_continue_verdict_Inr:
  "by_continue_verdict c author head body n verdict refusals s = (Inr (Some d), s') \<Longrightarrow> d = halt_route Self_handoff"
  by (cases verdict; cases refusals) (auto simp: by_continue_verdict_def andthen_eq_Inr_iff ret_def raise_def)

lemma route_continuation_Inr:
  "route_continuation c ports author r messages s = (Inr (Some d), s') \<Longrightarrow> d = halt_route Self_handoff"
  by (cases "continuation_admissible True (chain_count (continuation_links c messages)) (continue_cap c)
        (clone_is_clean ports) (s, [])")
    (auto simp: route_continuation_def andthen_eq_Inr_iff Let_def ret_def dest!: by_continue_verdict_Inr
      split: if_splits option.splits)

lemma route_licensed:
  assumes "route c ports h messages s = (Inr d, s')" and "target_role d = Some (implementer_role c)"
    and "naysayer_role c \<noteq> implementer_role c"
  shows "licensed c ports messages s"
proof -
  have "route c ports h messages s = route_to_implementer c ports h messages s"
    using assms human_terminal_target [of c messages True]
    by (auto simp: route_def ret_def raise_def turn_of_Inr turn_route_def halt_route_def andthen_eq_Inr_iff Let_def
        dest!: route_continuation_Inr split: if_splits option.splits)
  then show ?thesis using route_to_implementer_licensed [of c ports h messages s d s'] assms by auto
qed

lemma diagnose_closes:
  assumes "guard_i c messages s = (Redirect, s1)"
    and "diagnose_guard_i_redirect c (role_of c (chat_author (last messages))) messages (scan_segment c messages) s1 =
      (Inr u, s2)"
  shows "\<exists>cl cls. guard_closures s2 = Some (cl # cls)"
proof -
  let ?head = "last messages"
  let ?naysayer = "role_of c (chat_author ?head) = Some (naysayer_role c)"
  let ?open = "?naysayer \<and> control_now s = Run \<and> attested ?head \<and>
    open_declarations (scan_segment c messages) = [] \<and> declares_no_tier_c (fold_case c) (chat_content ?head)"
  have state: "control_now s1 = control_now s" and g3: "?open \<Longrightarrow> g3_reason s1 \<noteq> None"
    using assms(1)
    by (auto simp: guard_i_def guard_proposer_to_implementer_def carve_out_observed thunk_simps
        proceed_vetoed_for_def segment_declares_tier_c_def Let_def split: option.splits if_splits bool.splits)
  define closures where "closures = fst (diagnose_carve_out_iii (chat_id ?head) ?naysayer (control_now s = Run)
      (observed (attested ?head)) (\<lambda>w. (open_declarations (scan_segment c messages), w))
      (observed (declares_no_tier_c (fold_case c) (chat_content ?head))) s1)"
  have "guard_closures s2 = Some (if closures \<noteq> [] then closures
      else case g3_reason s1 of
             Some Prefetch_missing \<Rightarrow> [(G3_prefetch_missing, [chat_id ?head])]
           | Some (Vetoed _) \<Rightarrow> [(G3_veto, [chat_id ?head])]
           | None \<Rightarrow> [])"
    using assms(2) state
    by (auto simp: diagnose_guard_i_redirect_def andthen_def gets_def modify_def force_thunk_def closures_def
        diagnose_carve_out_iii_def thunk_simps Let_def)
  moreover have "closures = [] \<Longrightarrow> ?open"
    by (auto simp: closures_def diagnose_carve_out_iii_def thunk_simps Let_def split: if_splits)
  ultimately show ?thesis
    using g3 by (cases "closures = []") (auto simp: neq_Nil_conv split: option.splits g3_close.splits)
qed

lemma turn_of_target: "turn_of h s = (Inr d, s') \<Longrightarrow> target_role d = handoff_role h"
  by (auto simp: turn_of_Inr turn_route_def)

lemma redirect_closes:
  assumes "route_to_implementer c ports h messages s = (Inr d, s')" and "target_role d \<noteq> handoff_role h"
  shows "\<exists>cl cls. guard_closures s' = Some (cl # cls)"
proof -
  let ?author = "chat_author (last messages)"
  obtain b s1 where b: "continue_relay_admissible c ports ?author messages s = (Inr b, s1)"
    using assms(1) by (auto simp: route_to_implementer_def andthen_def Let_def split: sum.splits prod.splits)
  let ?s = "s1\<lparr>g3_reason := None, guard_closures := None, guard_scan := None\<rparr>"
  obtain v s2 where v: "guard_i c messages ?s = (v, s2)" by fastforce
  have "\<not> b" using assms b turn_of_target
    by (auto simp: route_to_implementer_def andthen_def Let_def split: sum.splits prod.splits)
  moreover have "v = Redirect"
  proof (rule ccontr)
    assume "v \<noteq> Redirect"
    then have "v = Honor" by (cases v) simp_all
    then show False using assms b \<open>\<not> b\<close> v turn_of_target [of h s2 d s']
      by (auto simp: route_to_implementer_def andthen_def Let_def modify_def force_thunk_def split: sum.splits prod.splits)
  qed
  ultimately obtain u where
    "diagnose_guard_i_redirect c (role_of c ?author) messages (scan_segment c messages) s2 = (Inr u, s')"
    using assms(1) b v
    by (auto simp: route_to_implementer_def andthen_def Let_def modify_def force_thunk_def ret_def
        split: sum.splits prod.splits)
  with diagnose_closes v \<open>v = Redirect\<close> show ?thesis by blast
qed

section \<open>The shape of a decision\<close>

text \<open>
  What holds of every decision: either a role with an identity or a reason to stop; a forced turn is
  the naysayer's, and was not yet taken in the running episode.
\<close>

definition well_shaped :: "conductor \<Rightarrow> handoff \<Rightarrow> chat_msg list \<Rightarrow> route_decision \<Rightarrow> bool" where
  "well_shaped c h messages d \<longleftrightarrow>
     (target_role d = None \<longleftrightarrow> stop_reason d \<noteq> None) \<and>
     (if is_forced d
      then target_role d = Some (naysayer_role c) \<and> target_identity d = naysayer_identity c \<and>
           role_of c (chat_author (last messages)) \<noteq> Some (naysayer_role c) \<and>
           \<not> is_human c (chat_author (last messages)) \<and> \<not> naysayer_consulted c messages
      else \<not> is_saveable d \<and>
           (target_role d = None \<or>
            target_role d = handoff_role h \<and> Some (target_identity d) = identity h \<and>
            \<not> is_self_handoff c h (chat_author (last messages)))) \<and>
     (spawn_blocked d \<longleftrightarrow> spawn_blocked_target c h \<noteq> None) \<and> (spawn_blocked d \<longrightarrow> stop_reason d = Some By_human)"

lemma shaped_halt: "why = By_human \<or> spawn_blocked_target c h = None \<Longrightarrow>
    well_shaped c h messages ((halt_route why)\<lparr>spawn_blocked := spawn_blocked_target c h \<noteq> None\<rparr>)"
  by (auto simp: well_shaped_def halt_route_def)

lemma shaped_halt': "spawn_blocked_target c h = None \<Longrightarrow> well_shaped c h messages (halt_route why)"
  by (auto simp: well_shaped_def halt_route_def)

lemma shaped_human: "spawn_blocked_target c h = None \<Longrightarrow> well_shaped c h messages (human_terminal c messages e)"
  by (auto simp: well_shaped_def halt_route_def human_terminal_def Let_def)

lemma shaped_turn: "spawn_blocked_target c h = None \<Longrightarrow> \<not> is_self_handoff c h (chat_author (last messages)) \<Longrightarrow>
    turn_of h s = (Inr d, s') \<Longrightarrow> well_shaped c h messages d"
  by (auto simp: well_shaped_def turn_of_Inr turn_route_def)

lemma shaped_implementer:
  assumes "route_to_implementer c ports h messages s = (Inr d, s')" and "spawn_blocked_target c h = None"
    and "\<not> is_self_handoff c h (chat_author (last messages))"
  shows "well_shaped c h messages d"
  using assms shaped_turn shaped_human
  by (auto simp: route_to_implementer_def andthen_eq_Inr_iff Let_def ret_def split: if_splits)

lemma shaped_forced:
  "spawn_blocked_target c h = None \<Longrightarrow> \<not> naysayer_consulted c messages \<Longrightarrow>
     role_of c (chat_author (last messages)) \<noteq> Some (naysayer_role c) \<Longrightarrow>
     \<not> is_human c (chat_author (last messages)) \<Longrightarrow>
     well_shaped c h messages \<lparr>target_role = Some (naysayer_role c), target_identity = naysayer_identity c,
       is_forced = True, is_saveable = True, spawn_blocked = False, stop_reason = None\<rparr>"
  by (simp add: well_shaped_def)

lemma route_shaped: "route c ports h messages s = (Inr d, s') \<Longrightarrow> well_shaped c h messages d"
proof (cases "spawn_blocked_target c h = None")
  case False
  then show "route c ports h messages s = (Inr d, s') \<Longrightarrow> ?thesis"
    using shaped_halt [of By_human c h messages] by (auto simp: route_def Let_def ret_def)
next
  case True
  let ?author = "chat_author (last messages)"
  assume r: "route c ports h messages s = (Inr d, s')"
  show ?thesis
  proof (cases "kind h = K_role \<and> is_self_handoff c h ?author")
    case self: True
    then obtain o' s1 where "route_continuation c ports ?author (role_of c ?author) messages s = (Inr o', s1)"
      and "d = (case o' of Some d \<Rightarrow> d | None \<Rightarrow> halt_route Self_handoff)"
      using r True by (auto simp: route_def Let_def andthen_eq_Inr_iff ret_def)
    then have "d = halt_route Self_handoff" using route_continuation_Inr by (cases o') auto
    then show ?thesis using shaped_halt' [OF True] by simp
  next
    case other: False
    show ?thesis
    proof (cases "kind h = K_role")
      case True': True
      then show ?thesis
        using r True other shaped_implementer shaped_turn by (auto simp: route_def Let_def split: if_splits)
    next
      case False
      then show ?thesis
        using r True shaped_halt' [OF True] shaped_human [OF True] shaped_forced [OF True]
        by (auto simp: route_def Let_def ret_def raise_def split: if_splits)
    qed
  qed
qed

lemma implementer_stops:
  "route_to_implementer c ports h messages s = (Inr d, s') \<Longrightarrow>
     stop_reason d = (if target_role d = None then Some By_human else None)"
  by (auto simp: route_to_implementer_def andthen_eq_Inr_iff Let_def ret_def turn_of_Inr turn_route_def human_terminal_def
      halt_route_def split: if_splits)

text \<open>Why a decision stops, and when it forces the naysayer, in the order the route asks.\<close>

lemma route_stops:
  assumes "route c ports h messages s = (Inr d, s')"
  shows "(stop_reason d =
      (if spawn_blocked_target c h \<noteq> None then Some By_human
       else if kind h = K_role \<and> is_self_handoff c h (chat_author (last messages)) then Some Self_handoff
       else if kind h = K_role then (if target_role d = None then Some By_human else None)
       else if kind h = K_human \<and> asks h = Some Operator_work \<and> stage1_skips (fold_case c) (chat_content (last messages))
       then Some By_operator_work
       else if kind h = K_human then (if is_forced d then None else Some By_human)
       else if kind h = K_none then Some Settled
       else if is_forced d then None else Some No_handoff)) \<and>
     (\<not> spawn_blocked_target c h \<noteq> None \<and> kind h \<noteq> K_role \<longrightarrow> (is_forced d \<longleftrightarrow>
        (role_of c (chat_author (last messages)) \<noteq> Some (naysayer_role c) \<and> \<not> is_human c (chat_author (last messages)) \<and>
         \<not> naysayer_consulted c messages) \<and>
        (if kind h = K_human
         then \<not> (asks h = Some Operator_work \<and> stage1_skips (fold_case c) (chat_content (last messages)))
         else kind h \<noteq> K_none \<and> fault h = None \<and> \<not> only_on_explicit_human c \<and>
              strip (chat_content (last messages)) \<noteq> [])))"
  using assms
  by (auto simp: route_def Let_def ret_def raise_def turn_of_Inr turn_route_def human_terminal_def halt_route_def
      andthen_eq_Inr_iff dest: implementer_stops dest!: route_continuation_Inr split: if_splits option.splits)

section \<open>Properties of the route\<close>

text \<open>C1. When the route gives the implementer a turn, it is the turn the handoff names (its role, its identity), never
  one for the author of the message that hands over, and one of three licences stands: a human wrote that
  message; the naysayer wrote it while the loop runs, attested, with no open Tier-C declaration, an explicit none,
  and a Decider that was asked about this very head and did not veto; or it is the conductor's own relay of a
  chain of at most the permitted continuations whose clone check passes at that moment. Assumed: the naysayer's
  role is not the implementer's.\<close>

theorem implementer_turn_needs_licence:
  assumes "route c ports h messages s = (Inr d, s')" and "target_role d = Some (implementer_role c)"
    and "naysayer_role c \<noteq> implementer_role c"
  shows "let head = last messages; author = chat_author head in
     (handoff_role h = Some (implementer_role c) \<and> identity h = Some (target_identity d) \<and> \<not> is_self_handoff c h author) \<and>
     (is_human c author \<or>
      role_of c author = Some (naysayer_role c) \<and> control_now s = Run \<and> attested head \<and>
        open_declarations (scan_segment c messages) = [] \<and>
        declares_no_tier_c (fold_case c) (chat_content head) \<and>
        (\<exists>score. proceed_veto s = Some (chat_id head, False, score)) \<or>
      author = CONDUCTOR_RELAY_AUTHOR \<and> is_continue_relay_body (chat_content head) \<and>
        (\<exists>n check. relay_chain_count (continuation_links c messages) = Some n \<and> n \<le> continue_cap c \<and>
           clone_check ports = Some check \<and> check (calls s) = None))"
  using route_licensed [OF assms] route_shaped [OF assms(1)] assms(2,3)
  by (simp add: licensed_def well_shaped_def Let_def split: if_splits)

definition sample_conductor :: conductor where
  "sample_conductor = \<lparr>fold_case = ascii_lower, lower_case = ascii_lower, loop_project = lit ''p'',
     loop_thread = lit ''T'', loop_roster = [(lit ''Bohr'', Proposer), (lit ''Ein'', Naysayer), (lit ''Fey'', Implementer)],
     naysayer_identity = lit ''Ein'', max_rounds = 8, naysayer_role = Naysayer, implementer_role = Implementer,
     human_identity = lit ''Taka'', tier_c_recorders = [], gate_wired = True, only_on_explicit_human = False,
     embodiments = [], gate_only = False, continue_cap = 2, ledger_wired = False, run_launches = 0,
     run_launch_head = None, review_login = []\<rparr>"

definition sample_state :: loop_state where
  "sample_state = \<lparr>calls = [], reader = \<lparr>last_reported = None, control_calls = []\<rparr>, control_now = Supervised, yield_target = None, open_sessions = [],
     continuation = None, proceed_veto = None, g3_reason = None, guard_closures = None, guard_scan = None,
     notice_delivered = False, retreat_checked = False, stop_slot = None\<rparr>"

definition sample_ports :: route_ports where
  "sample_ports = \<lparr>clone_check = None, veto_port = (\<lambda>_ _. (False, None))\<rparr>"

definition sample_post :: "string \<Rightarrow> chat_msg" where
  "sample_post author = \<lparr>chat_id = [49], chat_author = lit author, chat_content = [], chat_field = None\<rparr>"

definition to_fey :: handoff where
  "to_fey = (plain K_role)\<lparr>identity := Some (lit ''Fey''), handoff_role := Some Implementer\<rparr>"

lemmas sample_defs = sample_conductor_def sample_state_def sample_ports_def sample_post_def to_fey_def

lemma sample_keys:
  "normalize_identity_key ascii_lower (lit ''Fey'') = lit ''fey''"
  "normalize_identity_key ascii_lower (lit ''Taka'') = lit ''taka''"
  "normalize_identity_key ascii_lower (lit ''Bohr'') = lit ''bohr''"
  by (simp_all add: normalize_identity_key_def strip_def lstrip_def rstrip_def lit_Cons is_space_def ascii_lower_def)

lemma sample_humans:
  "is_human sample_conductor (lit ''Taka'')" "\<not> is_human sample_conductor (lit ''Bohr'')"
  by (simp_all add: is_human_def is_human_identity_def sample_conductor_def ascii_lower_def lit_Cons)

lemma sample_bohr: "role_of sample_conductor (lit ''Bohr'') = Some Proposer"
  by (simp add: role_of_def roster_role_def sample_conductor_def)

lemma sample_guarded:
  "route sample_conductor sample_ports to_fey [sample_post author] sample_state =
     route_to_implementer sample_conductor sample_ports to_fey [sample_post author] sample_state"
  if "author = ''Taka'' \<or> author = ''Bohr''"
  using that by (auto simp: route_def Let_def to_fey_def spawn_blocked_target_def blocked_embodiment_def sample_conductor_def
      is_self_handoff_def sample_post_def sample_keys)

lemma not_a_relay: "author \<noteq> CONDUCTOR_RELAY_AUTHOR \<Longrightarrow> continue_relay_admissible c ports author messages = ret False"
  by (simp add: continue_relay_admissible_def Let_def)

lemma diagnose_returns: "\<exists>s'. diagnose_guard_i_redirect c r messages scan s = (Inr (), s')"
  by (simp add: diagnose_guard_i_redirect_def Let_def andthen_def gets_def modify_def force_thunk_def split: prod.split)

lemma sample_honored:
  "route sample_conductor sample_ports to_fey [sample_post ''Taka''] sample_state =
     (Inr (turn_route Implementer (lit ''Fey'')), sample_state)"
proof -
  let ?s = "sample_state\<lparr>g3_reason := None, guard_closures := None, guard_scan := None\<rparr>"
  have "guard_i sample_conductor [sample_post ''Taka''] ?s = (Honor, ?s)"
    unfolding guard_i_honor using sample_humans(1) by (simp add: sample_post_def)
  moreover have "?s = sample_state" by (simp add: sample_state_def)
  ultimately show ?thesis
    using sample_guarded [of "''Taka''"]
    by (simp add: route_to_implementer_def Let_def continue_relay_admissible_def CONDUCTOR_RELAY_AUTHOR_def
        sample_post_def andthen_def modify_def force_thunk_def ret_def turn_of_def to_fey_def)
qed

lemma implementer_turn_needs_licence_witness:
  "is_human sample_conductor (lit ''Taka'') \<and> \<not> is_self_handoff sample_conductor to_fey (lit ''Taka'')"
  using implementer_turn_needs_licence [OF sample_honored]
  by (auto simp: turn_route_def sample_conductor_def sample_post_def sample_state_def CONDUCTOR_RELAY_AUTHOR_def
      Let_def)

text \<open>C36. A decision either names a role with an identity or a reason to stop. The reason is fixed by the case: a target
  no adapter can start stops at the human; a role handoff to its own author stops as a self handoff; a role
  handoff guard (i) keeps from the implementer stops at the human, unless it forces the naysayer; operator work
  that skips the first stage stops as operator work; any other handoff to the human stops at the human unless it
  forces; a settled head stops as settled; and what names nobody stops without a handoff unless it forces. A forced turn is
  the naysayer's, never on a head of the naysayer or of the human, and not again once an attested naysayer post
  stands in the running episode; outside role handoffs these conditions, with those of the case, also suffice.
  Any other turn has the role and the identity the handoff carries, and the author does not match that identity.\<close>

theorem route_decision_shape:
  assumes "route c ports h messages s = (Inr d, s')"
  shows "let head = last messages; author = chat_author head; blocked = spawn_blocked_target c h \<noteq> None;
       skips = asks h = Some Operator_work \<and> stage1_skips (fold_case c) (chat_content head);
       eligible = role_of c author \<noteq> Some (naysayer_role c) \<and> \<not> is_human c author \<and> \<not> naysayer_consulted c messages
     in (target_role d = None \<longleftrightarrow> stop_reason d \<noteq> None) \<and>
        stop_reason d =
          (if blocked then Some By_human
           else if kind h = K_role \<and> is_self_handoff c h author then Some Self_handoff
           else if kind h = K_role then (if target_role d = None then Some By_human else None)
           else if kind h = K_human \<and> skips then Some By_operator_work
           else if kind h = K_human then (if is_forced d then None else Some By_human)
           else if kind h = K_none then Some Settled
           else if is_forced d then None else Some No_handoff) \<and>
        (spawn_blocked d \<longleftrightarrow> blocked) \<and>
        (if is_forced d
         then target_role d = Some (naysayer_role c) \<and> target_identity d = naysayer_identity c \<and> eligible
         else \<not> is_saveable d \<and>
              (target_role d = None \<or>
               target_role d = handoff_role h \<and> Some (target_identity d) = identity h \<and> \<not> is_self_handoff c h author)) \<and>
        (\<not> blocked \<and> kind h \<noteq> K_role \<longrightarrow> (is_forced d \<longleftrightarrow> eligible \<and>
           (if kind h = K_human then \<not> skips
            else kind h \<noteq> K_none \<and> fault h = None \<and> \<not> only_on_explicit_human c \<and> strip (chat_content head) \<noteq> [])))"
  using route_shaped [OF assms] route_stops [OF assms] unfolding well_shaped_def Let_def by blast

lemma route_decision_shape_witness:
  "identity to_fey = Some (lit ''Fey'') \<and> \<not> is_self_handoff sample_conductor to_fey (lit ''Taka'')"
  using route_decision_shape [OF sample_honored] by (simp add: turn_route_def sample_post_def to_fey_def Let_def)

text \<open>Whenever guard (i) keeps a handoff from the implementer, the redirect names at least one closed condition; the
  branch that reports that routing and diagnosis disagree is never reached.\<close>

theorem redirect_is_explained:
  assumes "route_to_implementer c ports h messages s = (Inr d, s')" and "target_role d \<noteq> handoff_role h"
  shows "\<exists>cl cls. guard_closures s' = Some (cl # cls)"
  using redirect_closes [OF assms] .

lemma redirect_is_explained_witness:
  "\<exists>cl cls d s'. route sample_conductor sample_ports to_fey [sample_post ''Bohr''] sample_state = (Inr d, s') \<and>
     guard_closures s' = Some (cl # cls)"
proof -
  let ?ms = "[sample_post ''Bohr'']" and ?c = sample_conductor
  let ?s = "sample_state\<lparr>g3_reason := None, guard_closures := None, guard_scan := None\<rparr>"
  obtain v s1 where v: "guard_i ?c ?ms ?s = (v, s1)" by fastforce
  then have "v \<noteq> Honor"
    using guard_i_honor [of ?c ?ms ?s s1] sample_humans(2) sample_bohr
    by (auto simp: sample_post_def sample_conductor_def)
  moreover obtain s' where s': "diagnose_guard_i_redirect ?c (role_of ?c (lit ''Bohr'')) ?ms (scan_segment ?c ?ms) s1 =
      (Inr (), s')" using diagnose_returns by blast
  ultimately have r: "route_to_implementer ?c sample_ports to_fey ?ms sample_state =
      (Inr (human_terminal ?c ?ms False), s')"
    using v by (simp add: route_to_implementer_def Let_def not_a_relay CONDUCTOR_RELAY_AUTHOR_def sample_post_def
        andthen_def modify_def force_thunk_def ret_def)
  have "target_role (human_terminal ?c ?ms False) \<noteq> handoff_role to_fey"
    using human_terminal_target [of ?c ?ms False] by (auto simp: to_fey_def sample_conductor_def)
  with redirect_is_explained [OF r] obtain cl cls where "guard_closures s' = Some (cl # cls)" by blast
  then show ?thesis using r sample_guarded [of "''Bohr''"] by auto
qed

end
