(* ===== verification/ConductorLoop.thy ===== *)
theory ConductorLoop
  imports Conductor
begin

text \<open>
  The run of the conductor (\<open>conductor/core.py\<close>, \<open>Conductor.run\<close> and what it calls): rounds that read the
  control state and the thread, pass the head to the pull request gate, to a resume, to the router, and
  dispatch a turn or stop. Services are functions of the calls made so far, so any of them may answer
  differently each time. The wording of notices is a parameter; what they say is the \<open>notice\<close> value.
\<close>

section \<open>Services\<close>

datatype post_outcome = Posted pystr | Thread_closed | Post_raised pystr

datatype spawn_outcome = Spawned session_handle | Spawn_timeout | Spawn_raised pystr

datatype dispatch_outcome = Delivered | Turn_cancelled | Turn_deferred | Turn_parked | Turn_failed pystr

text \<open>The admission gate on a request to the human: it failed, bounces, or admits; an admission may be open to the
  Decider's bounce.\<close>

datatype tierc_answer = Tierc_failed | Tierc_bounce pystr | Tierc_admit bool

datatype notice =
    Self_handoff_notice pystr "pystr option"
  | Not_spawnable_notice pystr pystr
  | Operator_fault_notice operator_fault
  | Role_ambiguous_notice "pystr option"
  | Unresolved_notice "pystr option"
  | Field_divergence_notice pystr "pystr option" stand_down_reason
  | Field_copied_notice pystr "pystr option" bool
  | Stalled_notice pystr int pystr "resume_check option"
  | Spawn_timeout_notice role pystr
  | Sync_park_notice
  | Admission_escalation pystr admission_result
  | Already_reviewed_notice pystr admission_result pystr bool
  | Guard_redirect pystr "role option" handoff pystr "closure list option" "segment_scan option" control_state
      "g3_close option"
  | Continue_cap_notice continue_plan pystr

record loop_ports =
  routes :: route_ports
  control_service :: "control_mcp option"
  owner_project :: "pystr option"
  owner_port :: "(loop_call list \<Rightarrow> json option) option"
  thread_port :: "loop_call list \<Rightarrow> pystr + chat_msg list"
  post_port :: "loop_call list \<Rightarrow> pystr \<Rightarrow> pystr \<Rightarrow> post_outcome"
  spawn_port :: "loop_call list \<Rightarrow> role \<Rightarrow> pystr \<Rightarrow> spawn_outcome"
  dispatch_port :: "loop_call list \<Rightarrow> session_handle \<Rightarrow> turn_event \<Rightarrow> dispatch_outcome"
  gate_port :: "loop_call list \<Rightarrow> pystr \<Rightarrow> pystr + (relay_route option \<times> chat_msg)"
  settled_port :: "(loop_call list \<Rightarrow> pr_ref \<Rightarrow> pystr option) option"
  sources_port :: "loop_call list \<Rightarrow> resume_sources"
  now_port :: "loop_call list \<Rightarrow> time"
  decider_port :: "(loop_call list \<Rightarrow> chat_msg list \<Rightarrow> pystr option) option"
  tierc_port :: "(loop_call list \<Rightarrow> chat_msg \<Rightarrow> tierc_answer) option"
  jev_port :: "loop_call list \<Rightarrow> chat_msg \<Rightarrow> pystr \<Rightarrow> pystr option"
  decider_bounces :: bool
  annotates :: bool
  decisions_wired :: bool
  retreat_port :: "loop_call list \<Rightarrow> bool"
  retry_pending :: bool
  resume_notice_set :: bool
  conditional_notice_set :: bool
  wording :: "notice \<Rightarrow> stand_down_reason option \<Rightarrow> pystr"
  reason_wording :: "admission_reason \<Rightarrow> pystr"

section \<open>Reading the control state\<close>

text \<open>An action of the control reader, inside the loop.\<close>

definition of_reader :: "(control_reader, control_error, 'a) act \<Rightarrow> 'a loop_act" where
  "of_reader m = (\<lambda>s. case m (reader s) of
     (Inl e, r) \<Rightarrow> (Inl (Control_failed e), s\<lparr>reader := r\<rparr>)
   | (Inr x, r) \<Rightarrow> (Inr x, s\<lparr>reader := r\<rparr>))"

text \<open>Whether the owner's Summon is malformed, and the Summon.\<close>

definition read_owner_summon :: "loop_ports \<Rightarrow> (bool \<times> active_summon option) loop_act" where
  "read_owner_summon p =
     (case owner_port p of
        None \<Rightarrow> ret (False, None)
      | Some fetch \<Rightarrow>
          andthen (gets calls) (\<lambda>made.
          andthen (log_call Owner_read) (\<lambda>_.
          case fetch made of
            None \<Rightarrow> ret (False, None)
          | Some payload \<Rightarrow>
              (case parse_active_summon payload of
                 Inl _ \<Rightarrow> raise (Control_failed Overflowed)
               | Inr Malformed_summon \<Rightarrow> ret (True, None)
               | Inr No_summon \<Rightarrow> ret (False, None)
               | Inr (Summon s) \<Rightarrow> ret (False, Some s)))))"

text \<open>The state to act on: the owner's Summon is read only in a project that may run, and a malformed one holds.\<close>

definition state_and_owner ::
    "loop_ports \<Rightarrow> control_snapshot \<Rightarrow> (control_state \<times> active_summon option) loop_act" where
  "state_and_owner p snapshot =
     (if control_of snapshot \<noteq> Hold \<and> owner_project p \<noteq> None \<and> owner_project p \<noteq> Some []
      then andthen (read_owner_summon p) (\<lambda>(malformed, owner).
           ret (if malformed then FAILSAFE_CONTROL_STATE else control_of snapshot, owner))
      else ret (control_of snapshot, None))"

definition settle_control ::
    "conductor \<Rightarrow> loop_ports \<Rightarrow> control_mcp \<Rightarrow> control_snapshot \<Rightarrow> control_state \<times> active_summon option \<Rightarrow> control_state loop_act" where
  "settle_control c p mcp snapshot = (\<lambda>(state, owner).
     andthen (log_call (Control_read state)) (\<lambda>_.
     andthen (modify (\<lambda>s. s\<lparr>control_now := state\<rparr>)) (\<lambda>_.
     andthen (of_reader (report_observed mcp state)) (\<lambda>_.
     andthen (if state \<noteq> Hold
              then modify (\<lambda>s. s\<lparr>yield_target := summon_yield_decision (loop_project c) (loop_thread c)
                     (summon_of snapshot) (owner_project p) owner\<rparr>)
              else ret ()) (\<lambda>_.
     ret state)))))"

definition read_control :: "conductor \<Rightarrow> loop_ports \<Rightarrow> control_state loop_act" where
  "read_control c p =
     andthen (modify (\<lambda>s. s\<lparr>yield_target := None\<rparr>)) (\<lambda>_.
     case control_service p of
       None \<Rightarrow> gets control_now
     | Some mcp \<Rightarrow>
         andthen (of_reader (read_snapshot mcp)) (\<lambda>snapshot.
         andthen (state_and_owner p snapshot) (settle_control c p mcp snapshot)))"

section \<open>The thread\<close>

definition fetch_messages :: "loop_ports \<Rightarrow> chat_msg list loop_act" where
  "fetch_messages p =
     andthen (gets calls) (\<lambda>made.
     andthen (log_call Thread_read) (\<lambda>_.
     case thread_port p made of Inl e \<Rightarrow> raise (Raised e) | Inr ms \<Rightarrow> ret ms))"

text \<open>A post under an author; a closed thread gives the post without an id.\<close>

definition post_as :: "loop_ports \<Rightarrow> pystr \<Rightarrow> pystr \<Rightarrow> chat_msg loop_act" where
  "post_as p author body =
     andthen (gets calls) (\<lambda>made.
     andthen (log_call (Post author body)) (\<lambda>_.
     case post_port p made author body of
       Posted i \<Rightarrow> ret \<lparr>chat_id = i, chat_author = author, chat_content = body, chat_field = None\<rparr>
     | Thread_closed \<Rightarrow> ret \<lparr>chat_id = [], chat_author = author, chat_content = body, chat_field = None\<rparr>
     | Post_raised e \<Rightarrow> raise (Raised e)))"

definition post_as_relay :: "loop_ports \<Rightarrow> pystr \<Rightarrow> chat_msg loop_act" where
  "post_as_relay p body = post_as p RELAY_AUTHOR body"

definition post_as_conductor_relay :: "loop_ports \<Rightarrow> pystr \<Rightarrow> chat_msg loop_act" where
  "post_as_conductor_relay p body = post_as p CONDUCTOR_RELAY_AUTHOR body"

section \<open>Ending a run\<close>

record outcome =
  out_rounds :: nat
  out_reason :: ending
  out_last :: "pystr option"
  out_forced :: nat
  out_saveable :: nat

text \<open>The counters of a run: the round, and the forced turns so far.\<close>

record tally =
  round_no :: nat
  forced_turns :: nat
  saveable_turns :: nat

definition stop :: "tally \<Rightarrow> ending \<Rightarrow> pystr option \<Rightarrow> outcome" where
  "stop t why last_id = \<lparr>out_rounds = round_no t, out_reason = why, out_last = last_id,
     out_forced = forced_turns t, out_saveable = saveable_turns t\<rparr>"

section \<open>Starting and running a turn\<close>

definition SPAWN_ATTEMPTS :: nat where "SPAWN_ATTEMPTS = 2"

text \<open>A handle, or the id of the notice with which the loop gave up.\<close>

fun spawn_attempts :: "loop_ports \<Rightarrow> role \<Rightarrow> pystr \<Rightarrow> nat \<Rightarrow> (session_handle + pystr) loop_act" where
  "spawn_attempts p r i 0 = raise Assertion_failed"
| "spawn_attempts p r i (Suc left) =
     andthen (gets calls) (\<lambda>made.
     andthen (log_call (Spawn r i)) (\<lambda>_.
     case spawn_port p made r i of
       Spawned h \<Rightarrow> ret (Inl h)
     | Spawn_raised e \<Rightarrow> raise (Raised e)
     | Spawn_timeout \<Rightarrow>
         if left > 0 then spawn_attempts p r i left
         else andthen (handle_exc (post_as_conductor_relay p (wording p (Spawn_timeout_notice r i) None))
                        (\<lambda>_. raise Spawn_timed_out)) (\<lambda>posted.
              if chat_id posted = [] then raise Spawn_timed_out else ret (Inr (chat_id posted)))))"

definition spawn :: "loop_ports \<Rightarrow> role \<Rightarrow> pystr \<Rightarrow> (session_handle + pystr) loop_act" where
  "spawn p r i = spawn_attempts p r i SPAWN_ATTEMPTS"

definition review_round :: "conductor \<Rightarrow> role \<Rightarrow> chat_msg list \<Rightarrow> (nat \<times> pystr option) option" where
  "review_round c r messages =
     (if r \<noteq> Naysayer then None
      else case filter (\<lambda>m. role_of c (chat_author m) = Some Naysayer) messages of
        [] \<Rightarrow> Some (1, None)
      | posts \<Rightarrow> Some (length posts + 1, Some (chat_id (last posts))))"


definition pending_clone_retreat :: "loop_ports \<Rightarrow> role \<Rightarrow> bool loop_act" where
  "pending_clone_retreat p r =
     andthen (gets retreat_checked) (\<lambda>already.
     if r \<noteq> Implementer \<or> already then ret False
     else andthen (modify (\<lambda>s. s\<lparr>retreat_checked := True\<rparr>)) (\<lambda>_.
          andthen (gets calls) (\<lambda>made.
          andthen (log_call Retreat_read) (\<lambda>_. ret (retreat_port p made)))))"

definition post_git_sync_park :: "loop_ports \<Rightarrow> pystr loop_act" where
  "post_git_sync_park p =
     andthen (handle_exc (post_as_conductor_relay p (wording p Sync_park_notice None))
       (\<lambda>_. raise Park_unposted)) (\<lambda>posted.
     if chat_id posted = [] then raise Park_unposted else ret (chat_id posted))"

text \<open>\<open>None\<close>: the turn ran; \<open>Some id\<close>: the clone was parked and a notice posted.\<close>

definition dispatch_recording ::
    "conductor \<Rightarrow> loop_ports \<Rightarrow> session_handle \<Rightarrow> chat_msg \<Rightarrow> chat_msg list \<Rightarrow> role \<Rightarrow> tally \<Rightarrow> pystr option loop_act" where
  "dispatch_recording c p h msg messages r t =
     andthen (pending_clone_retreat p r) (\<lambda>retreat.
     andthen (gets notice_delivered) (\<lambda>delivered.
     let first_resume = resume_notice_set p \<and> \<not> delivered;
         event = \<lparr>event_msg = msg, event_thread = messages,
           event_retry = (retry_pending p \<and> round_no t = 0 \<and> r \<in> set RETRY_NOTICE_ROLES),
           event_resume = first_resume, event_retreat = retreat, event_round = review_round c r messages,
           event_conditional = (conditional_notice_set p \<and> r = Naysayer)\<rparr>
     in andthen (gets calls) (\<lambda>made.
        andthen (log_call (Dispatch r h event)) (\<lambda>_.
        case dispatch_port p made h event of
          Turn_cancelled \<Rightarrow> raise (Raised (lit ''CancelledError''))
        | Turn_deferred \<Rightarrow> raise Sync_deferred
        | Turn_parked \<Rightarrow> andthen (post_git_sync_park p) (\<lambda>i. ret (Some i))
        | Turn_failed code \<Rightarrow>
            andthen (modify (\<lambda>s. s\<lparr>stop_slot := Some \<lparr>snap_rounds = round_no t,
                snap_last = (if chat_id msg = [] then None else Some (chat_id msg)), snap_forced = forced_turns t,
                snap_saveable = saveable_turns t, snap_error = code\<rparr>\<rparr>)) (\<lambda>_. raise (Raised code))
        | Delivered \<Rightarrow>
            andthen (if first_resume then modify (\<lambda>s. s\<lparr>notice_delivered := True\<rparr>) else ret ()) (\<lambda>_.
            andthen (if retreat then log_call Retreat_delivered else ret ()) (\<lambda>_.
            ret None))))))"

text \<open>The session of an identity, started when it has none.\<close>

definition session_for :: "loop_ports \<Rightarrow> role \<Rightarrow> pystr \<Rightarrow> (session_handle + pystr) loop_act" where
  "session_for p r i =
     andthen (gets open_sessions) (\<lambda>open_now.
     case map_of open_now i of
       Some h \<Rightarrow> ret (Inl h)
     | None \<Rightarrow>
         andthen (spawn p r i) (\<lambda>res.
         case res of
           Inr notice_id \<Rightarrow> ret (Inr notice_id)
         | Inl h \<Rightarrow> andthen (modify (\<lambda>s. s\<lparr>open_sessions := dict_set i h (open_sessions s)\<rparr>)) (\<lambda>_. ret (Inl h))))"

text \<open>A turn of an identity, or the outcome with which the run gave up.\<close>

definition run_turn ::
    "conductor \<Rightarrow> loop_ports \<Rightarrow> role \<Rightarrow> pystr \<Rightarrow> chat_msg \<Rightarrow> chat_msg list \<Rightarrow> tally \<Rightarrow> outcome option loop_act" where
  "run_turn c p r i msg messages t =
     andthen (session_for p r i) (\<lambda>res.
     case res of
       Inr notice_id \<Rightarrow> ret (Some (stop t By_human (Some notice_id)))
     | Inl h \<Rightarrow>
         andthen (dispatch_recording c p h msg messages r t) (\<lambda>parked.
         ret (map_option (\<lambda>i. stop t By_human (Some i)) parked)))"

definition dispatch_implementer ::
    "conductor \<Rightarrow> loop_ports \<Rightarrow> pystr \<Rightarrow> chat_msg \<Rightarrow> chat_msg list \<Rightarrow> tally \<Rightarrow> outcome option loop_act" where
  "dispatch_implementer c p i trigger thread t = run_turn c p (implementer_role c) i trigger thread t"

section \<open>The pull request gate\<close>

definition verdict_value :: "admission_verdict \<Rightarrow> pystr" where
  "verdict_value v = (case v of Invoke \<Rightarrow> lit ''invoke'' | Defer \<Rightarrow> lit ''defer''
     | Route_implementer \<Rightarrow> lit ''route_implementer'' | Route_human \<Rightarrow> lit ''route_human''
     | Already_reviewed \<Rightarrow> lit ''already_reviewed'')"

text \<open>The name of a rule as the posts print it.\<close>

definition rule_name :: "admission_rule \<Rightarrow> pystr" where
  "rule_name r = (case r of R0_override \<Rightarrow> lit ''R0-OVERRIDE'' | R1a \<Rightarrow> lit ''R1a'' | R1b \<Rightarrow> lit ''R1b''
     | R2 \<Rightarrow> lit ''R2'' | R3 \<Rightarrow> lit ''R3'' | R4 \<Rightarrow> lit ''R4'' | R5 \<Rightarrow> lit ''R5'' | R6 \<Rightarrow> lit ''R6'' | R7 \<Rightarrow> lit ''R7'')"

definition admit_gate ::
    "conductor \<Rightarrow> loop_ports \<Rightarrow> pr_ref \<Rightarrow> chat_msg \<Rightarrow> chat_msg list \<Rightarrow> (admission_result \<times> check_rollup) option loop_act" where
  "admit_gate c p pr latest messages =
     andthen (gets calls) (\<lambda>made.
     case rollup_source (sources_port p made) of
       None \<Rightarrow> ret None
     | Some fetch \<Rightarrow>
         andthen (log_call (Rollup_read pr)) (\<lambda>_.
         case fetch pr of
           Fetch_raised \<Rightarrow> raise (Raised (lit ''fetch_check_rollup''))
         | Fetched None \<Rightarrow> ret None
         | Fetched (Some rollup) \<Rightarrow>
             (let relay_bodies = map chat_content (filter (\<lambda>m. chat_author m = RELAY_AUTHOR) messages);
                  low = lower_case c
              in andthen (gets calls) (\<lambda>made2.
                 ret (Some (gate_admission (rollup_rows rollup) (normalize_sha low (rollup_head_sha rollup))
                   (head_committed_date rollup) (head_pushed_at rollup) (now_port p made2)
                   (\<not> is_human c (chat_author latest)) (verdict_heads low relay_bodies)
                   (ci_route_heads low relay_bodies), rollup))))))"

definition post_admission_escalation :: "loop_ports \<Rightarrow> pystr \<Rightarrow> admission_result \<Rightarrow> chat_msg loop_act" where
  "post_admission_escalation p ref decision = post_as_relay p (wording p (Admission_escalation ref decision) None)"

text \<open>Does the last relay that gave a verdict on the head wait for a merge?\<close>

definition verdict_waits_for_merge :: "conductor \<Rightarrow> pystr \<Rightarrow> chat_msg list \<Rightarrow> bool" where
  "verdict_waits_for_merge c head messages =
     (case find (\<lambda>m. chat_author m = RELAY_AUTHOR \<and> head \<in> verdict_heads (lower_case c) [chat_content m]) (rev messages) of
        None \<Rightarrow> False
      | Some m \<Rightarrow> is_merge_wait_relay (chat_content m))"

definition post_already_reviewed_note ::
    "conductor \<Rightarrow> loop_ports \<Rightarrow> pystr \<Rightarrow> admission_result \<Rightarrow> check_rollup \<Rightarrow> chat_msg list \<Rightarrow> (chat_msg \<times> bool) loop_act" where
  "post_already_reviewed_note c p ref decision rollup messages =
     (let head = normalize_sha (lower_case c) (rollup_head_sha rollup);
          merge_wait = verdict_waits_for_merge c head messages
      in andthen (post_as_relay p (wording p (Already_reviewed_notice ref decision head merge_wait) None)) (\<lambda>m.
         ret (m, merge_wait)))"

definition ci_route_body ::
    "conductor \<Rightarrow> loop_ports \<Rightarrow> pystr \<Rightarrow> admission_result \<Rightarrow> check_rollup \<Rightarrow> pystr" where
  "ci_route_body c p ref decision rollup =
     (let failing = map check_name (filter row_is_red (rollup_rows rollup));
          checks_line = (if failing = [] then lit ''<no named failing check>'' else join (lit '', '') failing)
      in render_admission_heading ref @ [10, 10]
         @ lit ''ADMISSION: '' @ verdict_value (admission decision) @ lit '' (rule='' @ rule_name (rule decision)
         @ lit '')'' @ [10, 10]
         @ lit ''CI is red on '' @ take 12 (rollup_head_sha rollup) @ lit '': '' @ checks_line @ [10, 10]
         @ reason_wording p (reason decision) @ [10, 10]
         @ lit ''The gate was NOT fired '' @ [8212]
         @ lit '' there is no review verdict to act on. Fix CI and push; the next tick re-reads the rollup on the new head.''
         @ [10, 10]
         @ lit ''NEXT: '' @ (case implementer_identity c of Some i \<Rightarrow> if i = [] then lit ''human'' else i | None \<Rightarrow> lit ''human'')
         @ [10, 10]
         @ render_ci_route_marker (lower_case c) (rollup_head_sha rollup) (lit ''failure'') failing)"

definition post_ci_route ::
    "conductor \<Rightarrow> loop_ports \<Rightarrow> pystr \<Rightarrow> admission_result \<Rightarrow> check_rollup \<Rightarrow> chat_msg loop_act" where
  "post_ci_route c p ref decision rollup = post_as_relay p (ci_route_body c p ref decision rollup)"

definition PR_EVENT_RELAY_AUTHOR :: pystr where
  "PR_EVENT_RELAY_AUTHOR = lit ''pr-event-relay''"

text \<open>A pull request that is merged or closed: the lifecycle post, under its own author.\<close>

definition post_if_pr_settled :: "loop_ports \<Rightarrow> pr_ref \<Rightarrow> chat_msg option loop_act" where
  "post_if_pr_settled p pr =
     (case settled_port p of
        None \<Rightarrow> ret None
      | Some read \<Rightarrow>
          andthen (gets calls) (\<lambda>made.
          andthen (log_call (Pr_state_read pr)) (\<lambda>_.
          case read made pr of
            None \<Rightarrow> ret None
          | Some body \<Rightarrow> andthen (post_as p PR_EVENT_RELAY_AUTHOR body) (\<lambda>m. ret (Some m)))))"

definition fire_pr_gate :: "loop_ports \<Rightarrow> pystr \<Rightarrow> (relay_route \<times> chat_msg) loop_act" where
  "fire_pr_gate p ref =
     andthen (gets calls) (\<lambda>made.
     andthen (log_call (Gate_fired ref)) (\<lambda>_.
     case gate_port p made ref of
       Inl e \<Rightarrow> raise (Raised e)
     | Inr (r, m) \<Rightarrow> ret (case r of Some to \<Rightarrow> to | None \<Rightarrow> To_human, m)))"

definition IMPLEMENTER_DISPATCH_ROUTES :: "relay_route list" where
  "IMPLEMENTER_DISPATCH_ROUTES = [To_implementer, To_merge]"

definition names_implementer :: "conductor \<Rightarrow> handoff \<Rightarrow> bool" where
  "names_implementer c h \<longleftrightarrow> kind h = K_role \<and> handoff_role h = Some (implementer_role c)"

definition slices_before_implementer :: "conductor \<Rightarrow> loop_ports \<Rightarrow> chat_msg \<Rightarrow> bool loop_act" where
  "slices_before_implementer c p posted =
     andthen (gets calls) (\<lambda>made.
     let src = sources_port p made; body = chat_content posted
     in ret (gate_only c \<and> rollup_source src \<noteq> None \<and> review_source src \<noteq> None \<and> head_source src \<noteq> None \<and>
        resume_candidate_of (lower_case c) (chat_author posted) body
          (names_implementer c (resolve_handoff (fold_case c) body (loop_roster c) None)) \<noteq> None))"

text \<open>What a round comes to: the run ends, or it goes on with the id of the post it processed.\<close>

datatype step = Ended outcome | Processed pystr tally

definition end_run :: "tally \<Rightarrow> ending \<Rightarrow> pystr \<Rightarrow> step loop_act" where
  "end_run t why i = ret (Ended (stop t why (Some i)))"

definition or_else :: "pystr \<Rightarrow> pystr \<Rightarrow> pystr" where
  "or_else a b = (if a = [] then b else a)"

text \<open>The turn of the implementer on a post of the gate, unless the run is sliced there.\<close>

definition hand_to_implementer ::
    "conductor \<Rightarrow> loop_ports \<Rightarrow> pystr \<Rightarrow> chat_msg \<Rightarrow> chat_msg list \<Rightarrow> tally \<Rightarrow> step loop_act" where
  "hand_to_implementer c p i posted messages t =
     andthen (slices_before_implementer c p posted) (\<lambda>sliced.
     if sliced then end_run t Slice_end (chat_id posted)
     else andthen (dispatch_implementer c p i posted (messages @ [posted]) t) (\<lambda>gave_up.
          ret (case gave_up of Some o' \<Rightarrow> Ended o' | None \<Rightarrow> Processed (chat_id posted) t)))"

text \<open>The gate itself: its relay goes to the implementer, or the run ends at a human or a merge.\<close>

definition gate_review ::
    "conductor \<Rightarrow> loop_ports \<Rightarrow> pr_ref \<Rightarrow> chat_msg list \<Rightarrow> pystr \<Rightarrow> tally \<Rightarrow> step loop_act" where
  "gate_review c p pr messages latest_id t =
     andthen (fire_pr_gate p (slug pr)) (\<lambda>(relay, posted).
     case implementer_identity c of
       Some i \<Rightarrow>
         if chat_id posted = [] \<or> relay \<notin> set IMPLEMENTER_DISPATCH_ROUTES \<or> i = []
         then end_run t (if chat_id posted \<noteq> [] \<and> is_merge_wait_relay (chat_content posted) then Merge_wait else By_human)
                (or_else (chat_id posted) latest_id)
         else hand_to_implementer c p i posted messages t
     | None \<Rightarrow>
         end_run t (if chat_id posted \<noteq> [] \<and> is_merge_wait_relay (chat_content posted) then Merge_wait else By_human)
           (or_else (chat_id posted) latest_id))"

definition act_on_admission ::
    "conductor \<Rightarrow> loop_ports \<Rightarrow> pr_ref \<Rightarrow> chat_msg list \<Rightarrow> pystr \<Rightarrow> tally \<Rightarrow> admission_result \<times> check_rollup \<Rightarrow> step loop_act" where
  "act_on_admission c p pr messages latest_id t = (\<lambda>(decision, rollup).
     case admission decision of
       Defer \<Rightarrow> end_run t Ci_wait latest_id
     | Already_reviewed \<Rightarrow>
         andthen (post_already_reviewed_note c p (slug pr) decision rollup messages) (\<lambda>(posted, merge_wait).
         end_run t (if merge_wait then Merge_wait else By_human) (or_else (chat_id posted) latest_id))
     | Route_human \<Rightarrow>
         andthen (post_admission_escalation p (slug pr) decision) (\<lambda>posted.
         end_run t By_human (or_else (chat_id posted) latest_id))
     | Route_implementer \<Rightarrow>
         andthen (post_ci_route c p (slug pr) decision rollup) (\<lambda>posted.
         case implementer_identity c of
           Some i \<Rightarrow> if chat_id posted = [] \<or> i = [] then end_run t By_human (or_else (chat_id posted) latest_id)
                     else hand_to_implementer c p i posted messages t
         | None \<Rightarrow> end_run t By_human (or_else (chat_id posted) latest_id))
     | Invoke \<Rightarrow> gate_review c p pr messages latest_id t)"

definition pr_review_round ::
    "conductor \<Rightarrow> loop_ports \<Rightarrow> handoff \<Rightarrow> chat_msg list \<Rightarrow> tally \<Rightarrow> step loop_act" where
  "pr_review_round c p h messages t =
     (let latest = last messages; latest_id = chat_id latest in
      case (case token h of None \<Rightarrow> None | Some tok \<Rightarrow> if tok = [] then None else parse_pr_ref tok) of
        None \<Rightarrow> end_run t By_human latest_id
      | Some pr \<Rightarrow>
          if \<not> gate_wired c then end_run t By_human latest_id
          else andthen (post_if_pr_settled p pr) (\<lambda>settled.
               case settled of
                 Some m \<Rightarrow> end_run t Pr_settled (or_else (chat_id m) latest_id)
               | None \<Rightarrow>
                   andthen (admit_gate c p pr latest messages) (\<lambda>admitted.
                   case admitted of
                     Some d \<Rightarrow> act_on_admission c p pr messages latest_id t d
                   | None \<Rightarrow> gate_review c p pr messages latest_id t)))"

section \<open>Stalls and resumes\<close>

definition stand_down_if_stalled ::
    "conductor \<Rightarrow> loop_ports \<Rightarrow> pystr \<Rightarrow> pystr \<Rightarrow> tally \<Rightarrow> resume_check option \<Rightarrow> outcome option loop_act" where
  "stand_down_if_stalled c p latest_id target t cause =
     (if round_no t \<noteq> 0 \<or> \<not> is_stalled (run_launches c) (run_launch_head c) latest_id then ret None
      else andthen (post_as_relay p (wording p (Stalled_notice latest_id (run_launches c) target cause) None)) (\<lambda>posted.
           if chat_id posted = [] then raise Stall_unposted
           else ret (Some (stop t By_stall (Some (chat_id posted))))))"

section \<open>Acting on a continuation\<close>

definition proposer_identity :: "conductor \<Rightarrow> pystr option" where
  "proposer_identity c = map_option fst (find (\<lambda>(_, r). r = Proposer) (loop_roster c))"

definition act_on_continuation ::
    "conductor \<Rightarrow> loop_ports \<Rightarrow> continue_verdict \<times> continue_plan \<Rightarrow> chat_msg list \<Rightarrow> pystr \<Rightarrow> tally \<Rightarrow> outcome option loop_act" where
  "act_on_continuation c p = (\<lambda>(verdict, plan) messages latest_id t.
     if verdict = Cap
     then (let proposer = (case proposer_identity c of Some i \<Rightarrow> if i = [] then lit ''human'' else i
                           | None \<Rightarrow> lit ''human'')
           in andthen (post_as_conductor_relay p (wording p (Continue_cap_notice plan proposer) None)) (\<lambda>posted.
              ret (if chat_id posted = [] then Some (stop t Self_handoff (Some latest_id)) else None)))
     else andthen (post_as_conductor_relay p (plan_relay plan)) (\<lambda>posted.
          if chat_id posted = [] then ret (Some (stop t Self_handoff (Some latest_id)))
          else andthen (ledger_admitted c (chat_id posted) latest_id (plan_n plan)) (\<lambda>_.
               dispatch_implementer c p (plan_implementer plan) posted (messages @ [posted]) t)))"

section \<open>Requests to the human\<close>

definition decider_hook :: "loop_ports \<Rightarrow> handoff \<Rightarrow> chat_msg list \<Rightarrow> pystr option loop_act" where
  "decider_hook p h messages =
     (case decider_port p of
        None \<Rightarrow> ret None
      | Some hook \<Rightarrow>
          if kind h \<noteq> K_human then ret None
          else andthen (gets calls) (\<lambda>made.
               andthen (log_call (Hook_asked messages)) (\<lambda>_. ret (hook made messages))))"

text \<open>The author asked the human itself, and holds a role of the roster.\<close>

definition is_tierc_entry :: "conductor \<Rightarrow> handoff \<Rightarrow> chat_msg \<Rightarrow> bool" where
  "is_tierc_entry c h latest \<longleftrightarrow>
     kind h = K_human \<and> author_requested_human h \<and>
     role_of c (chat_author latest) \<in> {Some Proposer, Some Implementer, Some Naysayer}"

definition post_bounce :: "loop_ports \<Rightarrow> pystr \<Rightarrow> chat_msg option loop_act" where
  "post_bounce p body =
     andthen (post_as_conductor_relay p body) (\<lambda>posted.
     ret (if chat_id posted = [] then None else Some posted))"

definition enforce_tierc_gate ::
    "conductor \<Rightarrow> loop_ports \<Rightarrow> handoff \<Rightarrow> chat_msg \<Rightarrow> pystr option \<Rightarrow> chat_msg option loop_act" where
  "enforce_tierc_gate c p h latest likely_not =
     (case tierc_port p of
        None \<Rightarrow> ret None
      | Some gate \<Rightarrow>
          if \<not> is_tierc_entry c h latest then ret None
          else andthen (gets calls) (\<lambda>made.
               andthen (log_call (Admission_asked latest)) (\<lambda>_.
               case gate made latest of
                 Tierc_failed \<Rightarrow> ret None
               | Tierc_bounce body \<Rightarrow> post_bounce p body
               | Tierc_admit bounceable \<Rightarrow>
                   (case (if decider_bounces p \<and> bounceable then likely_not else None) of
                      None \<Rightarrow> ret None
                    | Some score \<Rightarrow>
                        andthen (gets calls) (\<lambda>made2.
                        andthen (log_call (Bounce_stored latest score)) (\<lambda>_.
                        case jev_port p made2 latest score of
                          None \<Rightarrow> ret None
                        | Some body \<Rightarrow> post_bounce p body))))))"

definition annotate_tierc :: "conductor \<Rightarrow> loop_ports \<Rightarrow> handoff \<Rightarrow> chat_msg \<Rightarrow> unit loop_act" where
  "annotate_tierc c p h latest =
     (if annotates p \<and> decider_port p \<noteq> None \<and> is_tierc_entry c h latest then log_call (Annotated latest) else ret ())"

text \<open>The roster entry of an author, by case-insensitive name; \<open>None\<close> is \<open>KeyError\<close>.\<close>

definition roster_entry :: "conductor \<Rightarrow> pystr \<Rightarrow> (pystr \<times> role) option" where
  "roster_entry c author = find (\<lambda>(i, _). fold_case c i = fold_case c author) (loop_roster c)"

text \<open>A bounced request goes back to its author as a turn.\<close>

definition bounce_round ::
    "conductor \<Rightarrow> loop_ports \<Rightarrow> chat_msg list \<Rightarrow> chat_msg \<Rightarrow> tally \<Rightarrow> step loop_act" where
  "bounce_round c p messages bounce t =
     (case roster_entry c (chat_author (last messages)) of
        None \<Rightarrow> raise (Raised (lit ''KeyError''))
      | Some (i, r) \<Rightarrow>
          andthen (run_turn c p r i bounce (messages @ [bounce]) t) (\<lambda>gave_up.
          ret (case gave_up of Some o' \<Rightarrow> Ended o' | None \<Rightarrow> Processed (chat_id bounce) t)))"

section \<open>Ending at a head\<close>

definition terminal_notice :: "conductor \<Rightarrow> handoff \<Rightarrow> pystr \<Rightarrow> ending \<Rightarrow> notice option" where
  "terminal_notice c h author why =
     (if why = Self_handoff then Some (Self_handoff_notice author (identity h))
      else case spawn_blocked_target c h of
        Some (name, embodiment) \<Rightarrow> Some (Not_spawnable_notice name embodiment)
      | None \<Rightarrow>
          if why \<noteq> No_handoff then None
          else (case fault h of
            Some f \<Rightarrow> Some (Operator_fault_notice f)
          | None \<Rightarrow>
              if kind h = K_absent \<and> role_alias_unresolved h then Some (Role_ambiguous_notice (token h))
              else if kind h = K_absent \<and> token h \<noteq> None \<and> token h \<noteq> Some [] then Some (Unresolved_notice (token h))
              else None))"

definition fault_reason :: "operator_fault \<Rightarrow> stand_down_reason" where
  "fault_reason f = (case f of Tier_c_conflict \<Rightarrow> Operator_tier_c_conflict
     | No_task \<Rightarrow> Identity_operator_no_task | No_tier_c_check \<Rightarrow> Operator_no_tier_c_check)"

definition identity_stand_down :: "handoff \<Rightarrow> ending \<Rightarrow> bool \<Rightarrow> stand_down_reason option" where
  "identity_stand_down h why blocked =
     (if blocked then Some Identity_not_spawnable
      else if why \<noteq> No_handoff then None
      else (case fault h of
        Some f \<Rightarrow> Some (fault_reason f)
      | None \<Rightarrow>
          if kind h = K_absent \<and> role_alias_unresolved h then Some Identity_role_ambiguous
          else if kind h = K_absent \<and> token h \<noteq> None \<and> token h \<noteq> Some [] then Some Identity_unresolved
          else None))"

text \<open>Is the post before the head that another author or the conductor wrote a guard redirect?\<close>

fun prior_guard_relay :: "pystr \<Rightarrow> chat_msg list \<Rightarrow> bool" where
  "prior_guard_relay author [] = False"
| "prior_guard_relay author (m # earlier) =
     (if chat_author m = CONDUCTOR_RELAY_AUTHOR then \<not> is_bounce_notice (chat_content m)
      else if chat_author m \<noteq> author then False
      else prior_guard_relay author earlier)"

definition has_prior_guard_i_relay_in_episode :: "chat_msg list \<Rightarrow> pystr \<Rightarrow> bool" where
  "has_prior_guard_i_relay_in_episode messages author = prior_guard_relay author (rev (butlast messages))"

definition guard_i_redirect_target :: "conductor \<Rightarrow> pystr \<Rightarrow> role option \<Rightarrow> chat_msg list \<Rightarrow> pystr" where
  "guard_i_redirect_target c author author_role messages =
     (if author_role = None \<or> author_role = Some (implementer_role c) then lit ''human''
      else if has_prior_guard_i_relay_in_episode messages author then lit ''human''
      else author)"

definition guard_i_redirect_notice ::
    "conductor \<Rightarrow> loop_state \<Rightarrow> handoff \<Rightarrow> chat_msg list \<Rightarrow> ending \<Rightarrow> notice option" where
  "guard_i_redirect_notice c s h messages why =
     (let author = chat_author (last messages) in
      if why \<noteq> By_human \<or> \<not> names_implementer c h then None
      else Some (Guard_redirect author (role_of c author) h
             (guard_i_redirect_target c author (role_of c author) messages) (guard_closures s) (guard_scan s)
             (control_now s) (g3_reason s)))"

definition post_field_stop_notice ::
    "conductor \<Rightarrow> loop_ports \<Rightarrow> handoff \<Rightarrow> chat_msg \<Rightarrow> ending \<Rightarrow> pystr \<Rightarrow> pystr loop_act" where
  "post_field_stop_notice c p h latest why latest_id =
     (case next_participant latest of
        None \<Rightarrow> ret latest_id
      | Some field \<Rightarrow>
          if why \<notin> {By_human, Settled} \<or> stage1_skips (fold_case c) (chat_content latest) then ret latest_id
          else (let body_target = parse_next_token (chat_content latest) in
            case mismatch_reason h of
              Some m \<Rightarrow>
                (let because = (if m = Target_divergence then Field_body_divergence else Field_not_resolvable) in
                 andthen (post_as_relay p (wording p (Field_divergence_notice field body_target because) (Some because)))
                   (\<lambda>posted.
                 if chat_id posted = [] then raise (Stood_down because) else ret (chat_id posted)))
            | None \<Rightarrow>
                andthen (post_as_relay p (wording p (Field_copied_notice field body_target (why = Settled)) None)) (\<lambda>posted.
                ret (or_else (chat_id posted) latest_id))))"

text \<open>The stop at a head the router gave no turn for, with the notice that moves the head.\<close>

definition terminal_stop ::
    "conductor \<Rightarrow> loop_ports \<Rightarrow> handoff \<Rightarrow> chat_msg list \<Rightarrow> route_decision \<Rightarrow> tally \<Rightarrow> step loop_act" where
  "terminal_stop c p h messages d t =
     (let latest = last messages; latest_id = chat_id latest in
      case stop_reason d of
        None \<Rightarrow> raise Assertion_failed
      | Some why \<Rightarrow>
          if why = No_handoff \<and> next_participant latest \<noteq> None \<and> fault h = None then raise Assertion_failed
          else let stand_down = identity_stand_down h why (spawn_blocked d) in
            (case terminal_notice c h (chat_author latest) why of
               Some n \<Rightarrow>
                 andthen (post_as_relay p (wording p n stand_down)) (\<lambda>posted.
                 if stand_down \<noteq> None \<and> chat_id posted = [] then raise (Stood_down (the stand_down))
                 else end_run t why (or_else (chat_id posted) latest_id))
             | None \<Rightarrow>
                 andthen (gets (\<lambda>s. guard_i_redirect_notice c s h messages why)) (\<lambda>redirect.
                 case redirect of
                   Some n \<Rightarrow>
                     andthen (post_as_conductor_relay p (wording p n None)) (\<lambda>posted.
                     end_run t why (or_else (chat_id posted) latest_id))
                 | None \<Rightarrow>
                     andthen (post_field_stop_notice c p h latest why latest_id) (\<lambda>i. end_run t why i))))"

section \<open>A routed turn\<close>

definition counted :: "route_decision \<Rightarrow> tally \<Rightarrow> tally" where
  "counted d t =
     (if is_forced d
      then t\<lparr>forced_turns := forced_turns t + 1,
             saveable_turns := saveable_turns t + (if is_saveable d then 1 else 0)\<rparr> else t)"

definition routed_turn ::
    "conductor \<Rightarrow> loop_ports \<Rightarrow> chat_msg list \<Rightarrow> route_decision \<Rightarrow> role \<Rightarrow> tally \<Rightarrow> step loop_act" where
  "routed_turn c p messages d r t =
     (let latest = last messages; latest_id = chat_id latest in
      andthen (stand_down_if_stalled c p latest_id (target_identity d) t None) (\<lambda>stalled.
      case stalled of
        Some o' \<Rightarrow> ret (Ended o')
      | None \<Rightarrow>
          andthen (session_for p r (target_identity d)) (\<lambda>res.
          case res of
            Inr notice_id \<Rightarrow> end_run t By_human notice_id
          | Inl h \<Rightarrow>
              andthen (dispatch_recording c p h latest messages r (counted d t)) (\<lambda>parked.
              case parked of
                Some i \<Rightarrow> end_run (counted d t) By_human i
              | None \<Rightarrow> ret (Processed latest_id (counted d t))))))"

definition tierc_bounce ::
    "conductor \<Rightarrow> loop_ports \<Rightarrow> handoff \<Rightarrow> chat_msg list \<Rightarrow> route_decision \<Rightarrow> pystr option \<Rightarrow> chat_msg option loop_act" where
  "tierc_bounce c p h messages d likely_not =
     (if target_role d = None \<and> stop_reason d = Some By_human \<and> \<not> spawn_blocked d \<and> tierc_port p \<noteq> None
      then enforce_tierc_gate c p h (last messages) likely_not else ret None)"

definition route_round ::
    "conductor \<Rightarrow> loop_ports \<Rightarrow> handoff \<Rightarrow> chat_msg list \<Rightarrow> tally \<Rightarrow> step loop_act" where
  "route_round c p h messages t =
     (let latest_id = chat_id (last messages) in
      andthen (prefetch_proceed_veto c (routes p) h messages) (\<lambda>_.
      andthen (route c (routes p) h messages) (\<lambda>d.
      andthen (gets continuation) (\<lambda>continued.
      andthen (modify (\<lambda>s. s\<lparr>continuation := None\<rparr>)) (\<lambda>_.
      case continued of
        Some vp \<Rightarrow>
          andthen (act_on_continuation c p vp messages latest_id t) (\<lambda>acted.
          ret (case acted of Some o' \<Rightarrow> Ended o' | None \<Rightarrow> Processed latest_id t))
      | None \<Rightarrow>
          andthen (decider_hook p h messages) (\<lambda>likely_not.
          andthen (tierc_bounce c p h messages d likely_not) (\<lambda>bounce.
          case bounce of
            Some m \<Rightarrow> bounce_round c p messages m t
          | None \<Rightarrow>
              andthen (if target_role d = None \<and> stop_reason d = Some By_human \<and> \<not> spawn_blocked d
                       then annotate_tierc c p h (last messages) else ret ()) (\<lambda>_.
              case target_role d of
                None \<Rightarrow> terminal_stop c p h messages d t
              | Some r \<Rightarrow> routed_turn c p messages d r t))))))))"

text \<open>The resume of the implementer from a relay at the head; without one the head goes to the router.\<close>

definition resume_round ::
    "conductor \<Rightarrow> loop_ports \<Rightarrow> handoff \<Rightarrow> chat_msg list \<Rightarrow> tally \<Rightarrow> step loop_act" where
  "resume_round c p h messages t =
     (let latest = last messages; latest_id = chat_id latest in
      case resume_candidate_of (lower_case c) (chat_author latest) (chat_content latest) (names_implementer c h) of
        None \<Rightarrow> route_round c p h messages t
      | Some cand \<Rightarrow>
          (case implementer_identity c of
             None \<Rightarrow> route_round c p h messages t
           | Some i \<Rightarrow>
               if i = [] then route_round c p h messages t
               else andthen (gets calls) (\<lambda>made.
                    andthen (log_call (Resume_verified cand)) (\<lambda>_.
                    let chk = verify_resume (lower_case c) cand (sources_port p made) (review_login c) in
                    andthen (stand_down_if_stalled c p latest_id i t (Some chk)) (\<lambda>stalled.
                    case stalled of
                      Some o' \<Rightarrow> ret (Ended o')
                    | None \<Rightarrow>
                        if resume_outcome chk = Verified
                        then andthen (dispatch_implementer c p i latest messages t) (\<lambda>gave_up.
                             ret (case gave_up of Some o' \<Rightarrow> Ended o' | None \<Rightarrow> Processed latest_id t))
                        else if resume_outcome chk \<in> {Unavailable, Stale} then end_run t Resume_retry latest_id
                        else route_round c p h messages t)))))"

section \<open>The run\<close>

definition head_round :: "conductor \<Rightarrow> loop_ports \<Rightarrow> chat_msg list \<Rightarrow> tally \<Rightarrow> step loop_act" where
  "head_round c p messages t =
     (let latest = last messages;
          h = resolve_handoff (fold_case c) (chat_content latest) (loop_roster c) (next_participant latest)
      in if kind h = K_pr_review then pr_review_round c p h messages t
         else resume_round c p h messages t)"

definition run_round :: "conductor \<Rightarrow> loop_ports \<Rightarrow> pystr option \<Rightarrow> tally \<Rightarrow> step loop_act" where
  "run_round c p processed t =
     andthen (read_control c p) (\<lambda>state.
     if state = Hold then ret (Ended (stop t On_hold processed))
     else andthen (gets yield_target) (\<lambda>to.
     if to \<noteq> None then ret (Ended (stop t Summon_yield processed))
     else andthen (fetch_messages p) (\<lambda>messages.
     if messages = [] then ret (Ended (stop t Empty_thread processed))
     else if processed = Some (chat_id (last messages)) then end_run t No_progress (chat_id (last messages))
     else andthen (if decisions_wired p then log_call (Decisions_recorded messages) else ret ()) (\<lambda>_.
          head_round c p messages t))))"

fun run_rounds :: "conductor \<Rightarrow> loop_ports \<Rightarrow> nat list \<Rightarrow> pystr option \<Rightarrow> tally \<Rightarrow> outcome loop_act" where
  "run_rounds c p [] processed t = ret (stop (t\<lparr>round_no := max_rounds c\<rparr>) Round_cap processed)"
| "run_rounds c p (k # ks) processed t =
     andthen (run_round c p processed (t\<lparr>round_no := k\<rparr>)) (\<lambda>s.
     case s of
       Ended o' \<Rightarrow> ret o'
     | Processed i t' \<Rightarrow> run_rounds c p ks (Some i) t')"

definition run_loop :: "conductor \<Rightarrow> loop_ports \<Rightarrow> outcome loop_act" where
  "run_loop c p = run_rounds c p [0..<max_rounds c] None \<lparr>round_no = 0, forced_turns = 0, saveable_turns = 0\<rparr>"

section \<open>What a run may call\<close>

named_theorems within_intros \<open>bounds on the calls of an action\<close>

fun is_dispatch :: "loop_call \<Rightarrow> bool" where
  "is_dispatch (Dispatch r h e) = True"
| "is_dispatch _ = False"

fun is_control :: "loop_call \<Rightarrow> bool" where
  "is_control (Control_read st) = True"
| "is_control _ = False"

definition turns :: "loop_call list \<Rightarrow> nat" where
  "turns cs = length (filter is_dispatch cs)"

lemma turns_simps [simp]:
  "turns [] = 0" "turns (c # cs) = (if is_dispatch c then 1 else 0) + turns cs" "turns (xs @ ys) = turns xs + turns ys"
  by (simp_all add: turns_def)

text \<open>\<open>within k m\<close>: \<open>m\<close> only appends to the calls, at most \<open>k\<close> turns and no read of the control state.\<close>

definition within :: "nat \<Rightarrow> 'a loop_act \<Rightarrow> bool" where
  "within k m \<longleftrightarrow> (\<forall>s. \<exists>new. calls (snd (m s)) = calls s @ new \<and> turns new \<le> k \<and> list_all (\<lambda>c. \<not> is_control c) new)"

lemma within_silent: "(\<And>s. calls (snd (m s)) = calls s) \<Longrightarrow> within k m"
  unfolding within_def by (metis append_Nil2 list.pred_inject(1) turns_simps(1) zero_le)

lemma within_basic [within_intros]: "within k (ret x)" "within k (raise e)" "within k (gets f)"
  by (rule within_silent; simp add: ret_def raise_def gets_def)+

lemma within_modify [within_intros]: "(\<And>s. calls (f s) = calls s) \<Longrightarrow> within k (modify f)"
  by (rule within_silent) (simp add: modify_def)

lemma within_log: "\<not> is_control c \<Longrightarrow> \<not> is_dispatch c \<Longrightarrow> within k (log_call c)"
  unfolding within_def log_call_def modify_def by (auto intro: exI [of _ "[c]"])

lemma within_log_dispatch [within_intros]: "within (Suc k) (log_call (Dispatch r h e))"
  unfolding within_def log_call_def modify_def by (auto intro: exI [of _ "[Dispatch r h e]"])

lemma within_andthen: "within a m \<Longrightarrow> (\<And>x. within b (f x)) \<Longrightarrow> within (a + b) (andthen m f)"
  unfolding within_def
proof
  fix s
  assume m: "\<forall>s. \<exists>new. calls (snd (m s)) = calls s @ new \<and> turns new \<le> a \<and> list_all (\<lambda>c. \<not> is_control c) new"
    and f: "\<And>x. \<forall>s. \<exists>new. calls (snd (f x s)) = calls s @ new \<and> turns new \<le> b \<and> list_all (\<lambda>c. \<not> is_control c) new"
  obtain r s1 where r: "m s = (r, s1)" by fastforce
  then obtain n1 where n1: "calls s1 = calls s @ n1" "turns n1 \<le> a" "list_all (\<lambda>c. \<not> is_control c) n1"
    using m [rule_format, of s] by auto
  show "\<exists>new. calls (snd (andthen m f s)) = calls s @ new \<and> turns new \<le> a + b \<and> list_all (\<lambda>c. \<not> is_control c) new"
  proof (cases r)
    case (Inl e)
    then show ?thesis using r n1 by (intro exI [of _ n1]) (simp add: andthen_def)
  next
    case (Inr x)
    obtain n2 where "calls (snd (f x s1)) = calls s1 @ n2" "turns n2 \<le> b" "list_all (\<lambda>c. \<not> is_control c) n2"
      using f [of x, rule_format, of s1] by auto
    then show ?thesis using r n1 Inr by (intro exI [of _ "n1 @ n2"]) (simp add: andthen_def)
  qed
qed

lemma within_mono: "within a m \<Longrightarrow> a \<le> b \<Longrightarrow> within b m"
  unfolding within_def by (meson le_trans)

lemma within_then [within_intros]: "within 0 m \<Longrightarrow> (\<And>x. within k (f x)) \<Longrightarrow> within k (andthen m f)"
  using within_andthen [of 0 m k f] by simp

lemma within_turn: "within (Suc 0) m \<Longrightarrow> (\<And>x. within 0 (f x)) \<Longrightarrow> within (Suc 0) (andthen m f)"
  using within_andthen [of "Suc 0" m 0 f] by simp

lemma within_cases [within_intros]:
  "(b \<Longrightarrow> within k m) \<Longrightarrow> (\<not> b \<Longrightarrow> within k m') \<Longrightarrow> within k (if b then m else m')"
  "(v = None \<Longrightarrow> within k m) \<Longrightarrow> (\<And>x. v = Some x \<Longrightarrow> within k (g x)) \<Longrightarrow> within k (case v of None \<Rightarrow> m | Some x \<Rightarrow> g x)"
  "(\<And>x. within k (g1 x)) \<Longrightarrow> (\<And>y. within k (g2 y)) \<Longrightarrow> within k (case w of Inl x \<Rightarrow> g1 x | Inr y \<Rightarrow> g2 y)"
  "(\<And>x y. within k (g3 x y)) \<Longrightarrow> within k (case q of (x, y) \<Rightarrow> g3 x y)"
  by (simp_all split: option.split sum.split prod.split)

lemma within_handle [within_intros]:
  assumes "within k m" and "\<And>e. within 0 (h e)"
  shows "within k (handle_exc m h)"
  unfolding within_def
proof
  fix s
  obtain r s1 where r: "m s = (r, s1)" by fastforce
  obtain n1 where n1: "calls s1 = calls s @ n1" "turns n1 \<le> k" "list_all (\<lambda>c. \<not> is_control c) n1"
    using assms(1) r unfolding within_def by (metis snd_conv)
  show "\<exists>new. calls (snd (handle_exc m h s)) = calls s @ new \<and> turns new \<le> k \<and> list_all (\<lambda>c. \<not> is_control c) new"
  proof (cases r)
    case (Inl e)
    obtain n2 where "calls (snd (h e s1)) = calls s1 @ n2" "turns n2 \<le> 0" "list_all (\<lambda>c. \<not> is_control c) n2"
      using assms(2) [of e] unfolding within_def by blast
    then show ?thesis using r n1 Inl by (intro exI [of _ "n1 @ n2"]) (simp add: handle_exc_def)
  next
    case (Inr x)
    then show ?thesis using r n1 by (intro exI [of _ n1]) (simp add: handle_exc_def)
  qed
qed
lemma within_reader [within_intros]: "within k (of_reader m)"
  by (rule within_silent) (simp add: of_reader_def split: prod.split sum.split)

lemma within_thunk: "(\<And>s. calls (snd (t s)) = calls s) \<Longrightarrow> within k (force_thunk t)"
  by (rule within_silent) (metis force_thunk_def case_prod_unfold snd_conv)

lemma within_logs [within_intros]:
  "within 0 (log_call Clone_checked)" "within 0 (log_call (Ledger_admitted a b n))"
  "within 0 (log_call (Ledger_attempt a outc n why))" "within 0 (log_call (Veto_asked a))"
  "within 0 (log_call Thread_read)" "within 0 (log_call (Decisions_recorded ms))" "within 0 (log_call (Hook_asked ms))"
  "within 0 (log_call (Admission_asked m))" "within 0 (log_call (Bounce_stored m a))" "within 0 (log_call (Annotated m))"
  "within 0 (log_call (Pr_state_read pr))" "within 0 (log_call (Rollup_read pr))" "within 0 (log_call (Resume_verified cand))"
  "within 0 (log_call (Gate_fired a))" "within 0 (log_call (Post a b))" "within 0 (log_call (Spawn r a))"
  "within 0 (log_call Retreat_read)" "within 0 (log_call Retreat_delivered)" "within 0 (log_call Owner_read)"
  by (simp_all add: within_log)

lemma within_post [within_intros]: "within 0 (post_as p author body)"
  unfolding post_as_def by (intro within_intros) (auto intro: within_intros split: post_outcome.split)

lemma within_posts [within_intros]: "within 0 (post_as_relay p body)" "within 0 (post_as_conductor_relay p body)"
  unfolding post_as_relay_def post_as_conductor_relay_def by (rule within_post)+

lemma within_fetch [within_intros]: "within 0 (fetch_messages p)"
  unfolding fetch_messages_def by (intro within_intros)

lemma within_spawn [within_intros]: "within 0 (spawn p r i)"
proof -
  have "within 0 (spawn_attempts p r i n)" for n
    by (induction n) (auto intro!: within_intros split: spawn_outcome.split)
  then show ?thesis by (simp add: spawn_def)
qed

lemma within_retreat [within_intros]: "within 0 (pending_clone_retreat p r)"
  unfolding pending_clone_retreat_def by (intro within_intros) simp

lemma within_park [within_intros]: "within 0 (post_git_sync_park p)"
  unfolding post_git_sync_park_def by (intro within_intros)

lemma within_session [within_intros]: "within 0 (session_for p r i)"
  unfolding session_for_def by (intro within_intros) simp

lemma within_dispatch: "within (Suc 0) (dispatch_recording c p h msg messages r t)"
proof -
  have rest: "within 0 (case o' of
      Turn_cancelled \<Rightarrow> raise e | Turn_deferred \<Rightarrow> raise e'
    | Turn_parked \<Rightarrow> andthen (post_git_sync_park p) (\<lambda>i. ret (Some i))
    | Turn_failed code \<Rightarrow> andthen (modify (\<lambda>s. s\<lparr>stop_slot := g code\<rparr>)) (\<lambda>_. raise (e2 code))
    | Delivered \<Rightarrow>
        andthen (if a then modify (\<lambda>s. s\<lparr>notice_delivered := True\<rparr>) else ret ()) (\<lambda>_.
        andthen (if b then log_call Retreat_delivered else ret ()) (\<lambda>_. ret None)))" for o' e e' g e2 a b
    by (cases o') (auto intro!: within_intros)
  show ?thesis
    unfolding dispatch_recording_def Let_def
    by (intro within_then [OF within_retreat] within_then [OF within_basic(3)] within_turn [OF within_log_dispatch] rest)
qed

lemma within_run_turn [within_intros]: "within (Suc 0) (run_turn c p r i msg messages t)"
  unfolding run_turn_def by (intro within_intros within_turn [OF within_dispatch])

lemma within_implementer [within_intros]: "within (Suc 0) (dispatch_implementer c p i trigger thread t)"
  unfolding dispatch_implementer_def by (rule within_run_turn)

lemma within_end_run [within_intros]: "within k (end_run t why i)"
  unfolding end_run_def by (rule within_basic)

lemma within_gate_reads [within_intros]: "within 0 (post_if_pr_settled p pr)" "within 0 (fire_pr_gate p ref)"
  "within 0 (slices_before_implementer c p posted)"
  unfolding post_if_pr_settled_def fire_pr_gate_def slices_before_implementer_def Let_def by (intro within_intros)+

lemma within_admit [within_intros]: "within 0 (admit_gate c p pr latest messages)"
  unfolding admit_gate_def Let_def
  by (intro within_intros) (auto intro!: within_intros split: fetched.split option.split)

lemma within_gate_posts [within_intros]:
  "within 0 (post_already_reviewed_note c p ref d rollup messages)" "within 0 (post_admission_escalation p ref d)"
  "within 0 (post_ci_route c p ref d rollup)"
  unfolding post_already_reviewed_note_def post_admission_escalation_def post_ci_route_def Let_def
  by (intro within_intros)+

lemma within_hand [within_intros]: "within (Suc 0) (hand_to_implementer c p i posted messages t)"
  unfolding hand_to_implementer_def by (intro within_intros within_turn [OF within_implementer])

lemma within_review [within_intros]: "within (Suc 0) (gate_review c p pr messages latest_id t)"
  unfolding gate_review_def by (intro within_intros)

lemma within_admission [within_intros]: "within (Suc 0) (act_on_admission c p pr messages latest_id t d)"
proof (cases d)
  case (Pair decision rollup)
  show ?thesis
    unfolding act_on_admission_def Pair prod.case
    by (cases "admission decision") (simp_all, (intro within_intros)+)
qed

lemma within_pr_round [within_intros]: "within (Suc 0) (pr_review_round c p h messages t)"
  unfolding pr_review_round_def Let_def by (intro within_intros)

lemma within_stalled [within_intros]: "within 0 (stand_down_if_stalled c p latest_id target t cause)"
  unfolding stand_down_if_stalled_def by (intro within_intros)

lemma within_continuation [within_intros]: "within (Suc 0) (act_on_continuation c p vp messages latest_id t)"
proof (cases vp)
  case (Pair v plan)
  have "within 0 (ledger_admitted c a b n)" for a b n
    unfolding ledger_admitted_def by (intro within_intros)
  then show ?thesis unfolding act_on_continuation_def Pair prod.case Let_def by (intro within_intros)
qed

lemma within_hook [within_intros]: "within 0 (decider_hook p h messages)"
  unfolding decider_hook_def by (intro within_intros)

lemma within_bounce [within_intros]: "within 0 (post_bounce p body)"
  unfolding post_bounce_def by (intro within_intros)

lemma within_tierc [within_intros]: "within 0 (tierc_bounce c p h messages d likely_not)"
  unfolding tierc_bounce_def enforce_tierc_gate_def
  by (intro within_intros) (auto intro!: within_intros split: tierc_answer.split)

lemma within_annotate [within_intros]: "within 0 (annotate_tierc c p h latest)"
  unfolding annotate_tierc_def by (intro within_intros)

lemma within_bounce_round [within_intros]: "within (Suc 0) (bounce_round c p messages bounce t)"
  unfolding bounce_round_def by (intro within_intros within_turn [OF within_run_turn])

lemma within_field_stop [within_intros]: "within 0 (post_field_stop_notice c p h latest why latest_id)"
  unfolding post_field_stop_notice_def Let_def by (intro within_intros)

lemma within_terminal: "within 0 (terminal_stop c p h messages d t)"
  unfolding terminal_stop_def Let_def by (intro within_intros)

lemma within_routed [within_intros]: "within (Suc 0) (routed_turn c p messages d r t)"
  unfolding routed_turn_def Let_def by (intro within_intros within_turn [OF within_dispatch])

lemma within_ledger [within_intros]: "within 0 (ledger_admitted c a b n)" "within 0 (ledger_attempt c a oc n why)"
  unfolding ledger_admitted_def ledger_attempt_def by (intro within_intros)+

lemma guard_i_calls: "calls (snd (guard_i c messages s)) = calls s"
  by (auto simp: guard_i_def guard_proposer_to_implementer_def carve_out_observed thunk_simps proceed_vetoed_for_def
      Let_def split: option.split bool.split)

lemma within_diagnose [within_intros]: "within 0 (diagnose_guard_i_redirect c r messages scan)"
  by (rule within_silent) (simp add: diagnose_guard_i_redirect_def Let_def andthen_def gets_def modify_def
      force_thunk_def diagnose_carve_out_iii_def thunk_simps)

lemma within_prefetch [within_intros]: "within 0 (prefetch_proceed_veto c rp h messages)"
  unfolding prefetch_proceed_veto_def Let_def
  by (intro within_intros within_thunk) (simp_all add: carve_out_observed thunk_simps)

lemma within_turn_of [within_intros]: "within k (turn_of h)"
  by (rule within_silent) (simp add: turn_of_def ret_def raise_def split: option.split)

lemma within_continue_relay [within_intros]: "within 0 (continue_relay_admissible c rp author messages)"
  unfolding continue_relay_admissible_def Let_def by (intro within_intros)

lemma within_to_implementer [within_intros]: "within 0 (route_to_implementer c rp h messages)"
  unfolding route_to_implementer_def Let_def by (intro within_intros within_thunk guard_i_calls) simp

lemma within_clone_thunk:
  "within 0 (\<lambda>s. case continuation_admissible b n cap (clone_is_clean rp) (s, []) of
     (verdict, (s', refusals)) \<Rightarrow> (Inr (verdict, refusals), s'))"
  unfolding within_def
proof
  fix s
  show "\<exists>new. calls (snd (case continuation_admissible b n cap (clone_is_clean rp) (s, []) of
        (verdict, (s', refusals)) \<Rightarrow> (Inr (verdict, refusals), s'))) = calls s @ new \<and>
      turns new \<le> 0 \<and> list_all (\<lambda>c. \<not> is_control c) new"
    by (auto simp: continuation_admissible_def clone_is_clean_def Let_def split: option.split
        intro: exI [of _ "[]"] exI [of _ "[Clone_checked]"])
qed

lemma within_verdict [within_intros]: "within 0 (by_continue_verdict c author head body n verdict refusals)"
  unfolding by_continue_verdict_def
  by (cases verdict; cases refusals) (auto intro!: within_intros)

lemma within_route_continuation [within_intros]: "within 0 (route_continuation c rp author r messages)"
  unfolding route_continuation_def Let_def by (intro within_intros within_clone_thunk)

lemma within_route [within_intros]: "within 0 (route c rp h messages)"
  unfolding route_def Let_def by (intro within_intros)

lemma within_route_round [within_intros]: "within (Suc 0) (route_round c p h messages t)"
  unfolding route_round_def Let_def
  by (intro within_intros within_turn [OF within_continuation] within_mono [OF within_terminal]) simp_all

lemma within_resume [within_intros]: "within (Suc 0) (resume_round c p h messages t)"
  unfolding resume_round_def Let_def by (intro within_intros within_turn [OF within_implementer])

lemma within_head_round [within_intros]: "within (Suc 0) (head_round c p messages t)"
  unfolding head_round_def Let_def by (intro within_intros)

text \<open>The calls of one reading of the control state.\<close>

definition ends_at_hold :: "loop_call list \<Rightarrow> bool" where
  "ends_at_hold cs \<longleftrightarrow> Control_read Hold \<notin> set (butlast cs)"

lemma ends_at_hold_append: "Control_read Hold \<notin> set xs \<Longrightarrow> ends_at_hold (xs @ ys) = ends_at_hold ys"
  by (auto simp: ends_at_hold_def butlast_append dest: in_set_butlastD)

lemma no_hold_ends: "Control_read Hold \<notin> set cs \<Longrightarrow> ends_at_hold cs"
  by (auto simp: ends_at_hold_def dest: in_set_butlastD)

lemma no_control_no_hold: "list_all (\<lambda>c. \<not> is_control c) cs \<Longrightarrow> Control_read Hold \<notin> set cs"
  by (induction cs) auto

definition control_part :: "control_state option \<Rightarrow> loop_call list \<Rightarrow> bool" where
  "control_part st new \<longleftrightarrow> turns new = 0 \<and> ends_at_hold new \<and>
     (st \<noteq> None \<and> st \<noteq> Some Hold \<longrightarrow> Control_read Hold \<notin> set new)"

lemma owner_part:
  assumes "read_owner_summon p s = (r, s')"
  shows "calls s' = calls s \<or> calls s' = calls s @ [Owner_read]"
  using assms
  by (auto simp: read_owner_summon_def andthen_def gets_def log_call_def modify_def ret_def raise_def
      split: option.splits sum.splits summon_read.splits)

lemma of_reader_calls: "of_reader m s = (r, s') \<Longrightarrow> calls s' = calls s"
  by (auto simp: of_reader_def split: prod.splits sum.splits)

lemma state_and_owner_calls:
  assumes "state_and_owner p snapshot s = (r, s')"
  shows "calls s' = calls s \<or> calls s' = calls s @ [Owner_read]"
proof -
  obtain r1 s1 where r1: "read_owner_summon p s = (r1, s1)" by fastforce
  then have "s' = s1 \<or> s' = s"
    using assms by (auto simp: state_and_owner_def andthen_def ret_def split: sum.splits if_splits)
  then show ?thesis using owner_part [OF r1] by auto
qed

lemma settle_control_calls:
  assumes "settle_control c p mcp snapshot so s = (r, s')"
  shows "calls s' = calls s @ [Control_read (fst so)] \<and> (\<forall>st. r = Inr st \<longrightarrow> st = fst so)"
  using assms of_reader_calls
  by (cases so) (fastforce simp: settle_control_def andthen_def log_call_def modify_def ret_def
      split: sum.splits prod.splits if_splits)

lemma control_part_read:
  "pre \<in> {[], [Owner_read]} \<Longrightarrow> (\<And>st'. st = Some st' \<Longrightarrow> st' = x) \<Longrightarrow> control_part st (pre @ [Control_read x])"
  by (cases st) (auto simp: control_part_def ends_at_hold_def)

lemma read_control_calls:
  assumes "read_control c p s = (r, s')"
  shows "\<exists>new. calls s' = calls s @ new \<and> control_part (case r of Inl e \<Rightarrow> None | Inr st \<Rightarrow> Some st) new"
proof (cases "control_service p")
  case None
  then show ?thesis using assms
    by (auto simp: read_control_def andthen_def modify_def gets_def control_part_def ends_at_hold_def)
next
  case (Some mcp)
  obtain r1 s1 where r1: "of_reader (read_snapshot mcp) (s\<lparr>yield_target := None\<rparr>) = (r1, s1)" by fastforce
  have c1: "calls s1 = calls s" using of_reader_calls [OF r1] by simp
  show ?thesis
  proof (cases r1)
    case (Inl e)
    then show ?thesis using assms r1 c1 by (auto simp: read_control_def Some modify_def andthen_def control_part_def ends_at_hold_def)
  next
    case (Inr snapshot)
    obtain r2 s2 where r2: "state_and_owner p snapshot s1 = (r2, s2)" by fastforce
    have c2: "calls s2 = calls s \<or> calls s2 = calls s @ [Owner_read]" using state_and_owner_calls [OF r2] c1 by simp
    show ?thesis
    proof (cases r2)
      case (Inl e)
      then show ?thesis using assms r1 r2 Inr c2
        by (auto simp: read_control_def Some modify_def andthen_def control_part_def ends_at_hold_def)
    next
      case so: (Inr so)
      have "settle_control c p mcp snapshot so s2 = (r, s')"
        using assms r1 r2 Inr so by (simp add: read_control_def Some modify_def andthen_def)
      then have step: "calls s' = calls s2 @ [Control_read (fst so)]" and st: "\<forall>st. r = Inr st \<longrightarrow> st = fst so"
        using settle_control_calls by blast+
      define pre where "pre = (if calls s2 = calls s then [] else [Owner_read])"
      have "calls s' = calls s @ pre @ [Control_read (fst so)]"
        using c2 step by (auto simp: pre_def)
      moreover have "control_part (case r of Inl e \<Rightarrow> None | Inr st \<Rightarrow> Some st) (pre @ [Control_read (fst so)])"
        proof (rule control_part_read)
        show "pre \<in> {[], [Owner_read]}" by (simp add: pre_def)
        show "st' = fst so" if "(case r of Inl e \<Rightarrow> None | Inr st \<Rightarrow> Some st) = Some st'" for st'
          using st that by (cases r) auto
      qed
      ultimately show ?thesis by blast
    qed
  qed
qed

text \<open>One round: its control reads come before its calls, and after a hold it ends the run.\<close>

lemma after_control:
  assumes "control_part (Some st) pre" and "within k m" and "m s = (r, s')" and "st \<noteq> Hold"
  shows "\<exists>new. calls s' = calls s @ new \<and> turns (pre @ new) \<le> k \<and> ends_at_hold (pre @ new) \<and>
    Control_read Hold \<notin> set (pre @ new)"
proof -
  obtain new where new: "calls s' = calls s @ new" "turns new \<le> k" "list_all (\<lambda>c. \<not> is_control c) new"
    using assms(2,3) unfolding within_def by (metis snd_conv)
  have "Control_read Hold \<notin> set new" using no_control_no_hold [OF new(3)] .
  then have "turns (pre @ new) \<le> k \<and> ends_at_hold (pre @ new) \<and> Control_read Hold \<notin> set (pre @ new)"
    using assms(1,4) new(2) by (simp add: control_part_def ends_at_hold_append no_hold_ends)
  then show ?thesis using new(1) by blast
qed

definition after_control_round ::
    "conductor \<Rightarrow> loop_ports \<Rightarrow> pystr option \<Rightarrow> tally \<Rightarrow> step loop_act" where
  "after_control_round c p processed t =
     andthen (gets yield_target) (\<lambda>to.
     if to \<noteq> None then ret (Ended (stop t Summon_yield processed))
     else andthen (fetch_messages p) (\<lambda>messages.
     if messages = [] then ret (Ended (stop t Empty_thread processed))
     else if processed = Some (chat_id (last messages)) then end_run t No_progress (chat_id (last messages))
     else andthen (if decisions_wired p then log_call (Decisions_recorded messages) else ret ()) (\<lambda>_.
          head_round c p messages t)))"

lemma run_round_split:
  "run_round c p processed t =
     andthen (read_control c p) (\<lambda>state.
     if state = Hold then ret (Ended (stop t On_hold processed)) else after_control_round c p processed t)"
  unfolding run_round_def after_control_round_def ..

lemma within_after_control: "within (Suc 0) (after_control_round c p processed t)"
  unfolding after_control_round_def by (intro within_intros)

lemma round_calls:
  assumes "run_round c p processed t s = (r, s')"
  shows "\<exists>new. calls s' = calls s @ new \<and> turns new \<le> Suc 0 \<and> ends_at_hold new \<and>
    (\<forall>i t'. r = Inr (Processed i t') \<longrightarrow> Control_read Hold \<notin> set new)"
proof -
  obtain r1 s1 where r1: "read_control c p s = (r1, s1)" by fastforce
  obtain pre where pre: "calls s1 = calls s @ pre"
      "control_part (case r1 of Inl e \<Rightarrow> None | Inr st \<Rightarrow> Some st) pre"
    using read_control_calls [OF r1] by blast
  show ?thesis
  proof (cases "r1 = Inr Hold \<or> (\<exists>e. r1 = Inl e)")
    case True
    then have "s' = s1 \<and> (\<forall>i t'. r \<noteq> Inr (Processed i t'))"
      using assms r1 by (auto simp: run_round_split andthen_def ret_def)
    then show ?thesis using pre by (intro exI [of _ pre]) (simp add: control_part_def)
  next
    case False
    then obtain st where st: "r1 = Inr st" "st \<noteq> Hold" by (cases r1) auto
    have rest: "after_control_round c p processed t s1 = (r, s')"
      using assms r1 st by (simp add: run_round_split andthen_def)
    obtain new where "calls s' = calls s1 @ new" "turns (pre @ new) \<le> Suc 0" "ends_at_hold (pre @ new)"
        "Control_read Hold \<notin> set (pre @ new)"
      using after_control [OF _ within_after_control rest st(2)] pre(2) st(1) by auto
    then show ?thesis using pre(1) by (intro exI [of _ "pre @ new"]) simp
  qed
qed

lemma rounds_calls:
  "run_rounds c p ks processed t s = (r, s') \<Longrightarrow>
   \<exists>new. calls s' = calls s @ new \<and> turns new \<le> length ks \<and> ends_at_hold new"
proof (induction ks arbitrary: processed t s)
  case Nil
  then show ?case by (simp add: ret_def ends_at_hold_def)
next
  case (Cons k ks)
  obtain r1 s1 where r1: "run_round c p processed (t\<lparr>round_no := k\<rparr>) s = (r1, s1)" by fastforce
  obtain n1 where n1: "calls s1 = calls s @ n1" "turns n1 \<le> Suc 0" "ends_at_hold n1"
      "\<forall>i t'. r1 = Inr (Processed i t') \<longrightarrow> Control_read Hold \<notin> set n1"
    using round_calls [OF r1] by blast
  show ?case
  proof (cases "\<exists>i t'. r1 = Inr (Processed i t')")
    case True
    then obtain i t' where p: "r1 = Inr (Processed i t')" by blast
    have "run_rounds c p ks (Some i) t' s1 = (r, s')" using Cons.prems r1 p by (simp add: andthen_def)
    then obtain n2 where "calls s' = calls s1 @ n2" "turns n2 \<le> length ks" "ends_at_hold n2"
      using Cons.IH by blast
    then show ?thesis using n1 p by (intro exI [of _ "n1 @ n2"]) (simp add: ends_at_hold_append)
  next
    case False
    then have "s' = s1" using Cons.prems r1 by (auto simp: andthen_def ret_def split: sum.splits step.splits)
    then show ?thesis using n1 by (intro exI [of _ n1]) simp
  qed
qed

text \<open>C3. Whatever the thread, the sessions, the gate and the control service answer, a run over a cap of \<open>n\<close>
  rounds returns with a trace that extends the one it started with by at most \<open>n\<close> turns.\<close>

theorem run_turns_within_cap:
  "\<exists>new. calls (snd (run_loop c p s)) = calls s @ new \<and> turns new \<le> max_rounds c"
proof -
  obtain r s' where "run_loop c p s = (r, s')" by fastforce
  then show ?thesis using rounds_calls [of c p "[0..<max_rounds c]"] by (fastforce simp: run_loop_def)
qed

text \<open>C2. A read of Hold is the last call of a run: after it the run makes no turn, no post, no spawn, no gate call
  and reads neither the thread nor the control state again.\<close>

theorem hold_stops_the_run:
  "\<exists>new. calls (snd (run_loop c p s)) = calls s @ new \<and> ends_at_hold new"
proof -
  obtain r s' where "run_loop c p s = (r, s')" by fastforce
  then show ?thesis using rounds_calls [of c p "[0..<max_rounds c]"] by (fastforce simp: run_loop_def)
qed

section \<open>A red head and its routing\<close>

text \<open>The post that routes a red head holds the marker of that head, whatever its prose says as long as that opens no
  comment: the reference, the names of the failing checks, the reason and the name of the implementer.\<close>

definition plain_prose :: "conductor \<Rightarrow> loop_ports \<Rightarrow> pystr \<Rightarrow> admission_result \<Rightarrow> check_rollup \<Rightarrow> bool" where
  "plain_prose c p ref d r \<longleftrightarrow>
     \<not> opens_comment ref \<and> \<not> opens_comment (reason_wording p (reason d)) \<and>
     list_all (\<lambda>row. row_is_red row \<longrightarrow> \<not> opens_comment (check_name row)) (rollup_rows r) \<and>
     (case implementer_identity c of None \<Rightarrow> True | Some i \<Rightarrow> \<not> opens_comment i)"

lemma take_hex_plain: "hex_sha s \<Longrightarrow> 60 \<notin> set (take n s)"
  by (auto simp: hex_sha_def list_all_iff hex_value_def dest!: in_set_takeD)

lemma opens_plain_prefix: "60 \<notin> set a \<Longrightarrow> opens_comment (a @ b) \<longleftrightarrow> opens_comment b"
  by (induction a) auto

lemma verdict_value_plain: "60 \<notin> set (verdict_value v)"
  by (cases v) (simp_all add: verdict_value_def lit_Cons)

lemma rule_name_plain: "60 \<notin> set (rule_name r)"
  by (cases r) (simp_all add: rule_name_def lit_Cons)

lemma ci_route_body_split:
  assumes "plain_prose c p ref d r" and "hex_sha (rollup_head_sha r)"
  obtains pre where "\<not> opens_comment pre"
    "ci_route_body c p ref d r = pre @ render_ci_route_marker (lower_case c) (rollup_head_sha r) (lit ''failure'')
       (map check_name (filter row_is_red (rollup_rows r)))"
proof -
  let ?failing = "map check_name (filter row_is_red (rollup_rows r))"
  define checks where "checks = (if ?failing = [] then lit ''<no named failing check>'' else join (lit '', '') ?failing)"
  define who where "who = (case implementer_identity c of Some i \<Rightarrow> if i = [] then lit ''human'' else i | None \<Rightarrow> lit ''human'')"
  have checks: "\<not> opens_comment checks" using assms(1)
    by (auto simp: checks_def plain_prose_def opens_comment_join lit_Cons list_ex_iff list_all_iff)
  have who: "\<not> opens_comment who" using assms(1)
    by (auto simp: who_def plain_prose_def lit_Cons split: option.splits)
  let ?pre = "render_admission_heading ref @ [10, 10]
       @ lit ''ADMISSION: '' @ verdict_value (admission d) @ lit '' (rule='' @ rule_name (rule d)
       @ lit '')'' @ [10, 10]
       @ lit ''CI is red on '' @ take 12 (rollup_head_sha r) @ lit '': '' @ checks @ [10, 10]
       @ reason_wording p (reason d) @ [10, 10]
       @ lit ''The gate was NOT fired '' @ [8212]
       @ lit '' there is no review verdict to act on. Fix CI and push; the next tick re-reads the rollup on the new head.''
       @ [10, 10] @ lit ''NEXT: '' @ who @ [10, 10]"
  have "\<not> opens_comment ?pre"
    using assms(1) checks who take_hex_plain [OF assms(2), of 12]
    by (simp add: plain_prose_def render_admission_heading_def admission_heading_prefix_def lit_Cons
        opens_plain_prefix verdict_value_plain rule_name_plain)
  then show thesis by (rule that) (simp add: ci_route_body_def Let_def checks_def who_def)
qed

text \<open>A head a relay body of the thread routed is among the heads the admission is given.\<close>

lemma routed_head_read:
  assumes "lowers_ascii (lower_case c)" and "hex_sha (rollup_head_sha r)" and "plain_prose c p ref d r"
    and "list_all (\<lambda>row. list_all scalar (check_name row)) (rollup_rows r)"
    and "ci_route_body c p ref d r \<in> set bodies"
  shows "normalize_sha (lower_case c) (rollup_head_sha r) \<in> ci_route_heads (lower_case c) bodies"
proof -
  obtain pre where pre: "\<not> opens_comment pre"
    "ci_route_body c p ref d r = pre @ render_ci_route_marker (lower_case c) (rollup_head_sha r) (lit ''failure'')
       (map check_name (filter row_is_red (rollup_rows r)))"
    using ci_route_body_split [OF assms(3,2)] .
  have "list_all (list_all scalar) (map check_name (filter row_is_red (rollup_rows r)))"
    using assms(4) by (auto simp: list_all_iff)
  from ci_route_marker_read [OF assms(1,2) _ this pre(1), of "lit ''failure''" "[]"]
  have "ci_route_heads (lower_case c) [ci_route_body c p ref d r] = {ascii_lower (rollup_head_sha r)}"
    by (simp add: pre(2) lit_Cons scalar_def)
  then show ?thesis
    using ci_route_heads_mem [OF assms(5), of "lower_case c"] normalize_hex_sha [OF assms(1,2)] by auto
qed

lemma admit_gate_Inr:
  assumes "admit_gate c p pr latest messages s = (Inr (Some (d, r)), s')"
  shows "\<exists>now. d = gate_admission (rollup_rows r) (normalize_sha (lower_case c) (rollup_head_sha r))
     (head_committed_date r) (head_pushed_at r) now (\<not> is_human c (chat_author latest))
     (verdict_heads (lower_case c) (map chat_content (filter (\<lambda>m. chat_author m = RELAY_AUTHOR) messages)))
     (ci_route_heads (lower_case c) (map chat_content (filter (\<lambda>m. chat_author m = RELAY_AUTHOR) messages)))"
  using assms
  by (auto simp: admit_gate_def andthen_eq_Inr_iff gets_def ret_def raise_def Let_def
      split: option.splits fetched.splits)

lemma gate_red_routed:
  "sha \<in> rh \<Longrightarrow> self \<Longrightarrow> rollup_is_red rows \<Longrightarrow>
     admission (gate_admission rows sha dc dp now self vh rh) = Route_human \<and>
     rule (gate_admission rows sha dc dp now self vh rh) = R5"
  by (auto simp: gate_admission_def rollup_is_red_def concluded_def Let_def)

text \<open>C31. A head whose build is red is routed to the implementer once: when the thread holds the relay post with which
  the conductor routed it, no later admission of that head routes it again, whoever nominates the review, whatever
  the build says by then and whatever else the thread holds; nominated by the loop and still red it goes to the human.
  Assumed: the head is a hexadecimal sha, lower casing acts on ASCII as ASCII lower casing, the names of the checks hold
  no lone surrogate, and the free parts of the post's prose (the reference, the names of the failing checks, the wording of the
  reason, the name of the implementer) open no HTML comment.\<close>

theorem red_head_routed_once:
  assumes "post_ci_route c p ref d r s = (Inr posted, s1)" and "m \<in> set messages"
    and "chat_author m = chat_author posted" and "chat_content m = chat_content posted"
    and "admit_gate c q pr latest messages s2 = (Inr (Some (d', r')), s3)"
    and "normalize_sha (lower_case c) (rollup_head_sha r') = normalize_sha (lower_case c) (rollup_head_sha r)"
    and "lowers_ascii (lower_case c)" and "hex_sha (rollup_head_sha r)" and "plain_prose c p ref d r"
    and "list_all (\<lambda>row. list_all scalar (check_name row)) (rollup_rows r)"
  shows "admission d' \<noteq> Route_implementer \<and>
    (\<not> is_human c (chat_author latest) \<and> rollup_is_red (rollup_rows r') \<longrightarrow> admission d' = Route_human \<and> rule d' = R5)"
proof -
  have "chat_author posted = RELAY_AUTHOR \<and> chat_content posted = ci_route_body c p ref d r"
    using assms(1) by (auto simp: post_ci_route_def post_as_relay_def post_as_def andthen_eq_Inr_iff ret_def raise_def
      gets_def split: post_outcome.splits)
  then have "ci_route_body c p ref d r \<in> set (map chat_content (filter (\<lambda>m. chat_author m = RELAY_AUTHOR) messages))"
    using assms(2-4) by force
  from routed_head_read [OF assms(7-10) this]
  show ?thesis using admit_gate_Inr [OF assms(5)] assms(6) gate_red_routed route_implementer_iff by auto
qed

definition red_rollup :: check_rollup where
  "red_rollup = \<lparr>rollup_head_sha = lit ''ABC1234'', head_committed_date = 0, head_pushed_at = 0,
     rollup_rows = [\<lparr>check_name = lit ''build <linux>'', check_status = COMPLETED, conclusion = Some (lit ''failure''),
       started_at = None, check_created_at = None\<rparr>]\<rparr>"

definition red_ports :: loop_ports where
  "red_ports = \<lparr>routes = sample_ports, control_service = None, owner_project = None, owner_port = None,
     thread_port = (\<lambda>_. Inr []), post_port = (\<lambda>_ _ _. Posted (lit ''m2'')), spawn_port = (\<lambda>_ _ _. Spawn_timeout),
     dispatch_port = (\<lambda>_ _ _. Delivered), gate_port = (\<lambda>_ _. Inl []), settled_port = None,
     sources_port = (\<lambda>_. \<lparr>rollup_source = Some (\<lambda>_. Fetched (Some red_rollup)), review_source = None, head_source = None\<rparr>),
     now_port = (\<lambda>_. 0), decider_port = None, tierc_port = None, jev_port = (\<lambda>_ _ _. None), decider_bounces = False,
     annotates = False, decisions_wired = False, retreat_port = (\<lambda>_. False), retry_pending = False,
     resume_notice_set = False, conditional_notice_set = False, wording = (\<lambda>_ _. []), reason_wording = (\<lambda>_. [])\<rparr>"

definition red_pr :: pr_ref where "red_pr = \<lparr>owner = lit ''o'', repo = lit ''r'', pr_number = 1\<rparr>"

lemma red_head_routed_once_witness:
  "\<exists>posted s1 d s3. post_ci_route sample_conductor red_ports (lit ''o/r#1'') \<lparr>admission = Route_implementer, rule = R4,
       reason = Red_once (lit ''ABC1234'')\<rparr> red_rollup sample_state = (Inr posted, s1) \<and>
     admit_gate sample_conductor red_ports red_pr (sample_post ''Bohr'') [posted] s1 = (Inr (Some (d, red_rollup)), s3) \<and>
     admission d = Route_human"
proof -
  let ?d = "\<lparr>admission = Route_implementer, rule = R4, reason = Red_once (lit ''ABC1234'')\<rparr>"
  obtain posted s1 where post: "post_ci_route sample_conductor red_ports (lit ''o/r#1'') ?d red_rollup sample_state = (Inr posted, s1)"
    by (simp add: post_ci_route_def post_as_relay_def post_as_def red_ports_def andthen_def gets_def log_call_def modify_def
        ret_def)
  obtain d s3 where admit: "admit_gate sample_conductor red_ports red_pr (sample_post ''Bohr'') [posted] s1 =
      (Inr (Some (d, red_rollup)), s3)"
    by (simp add: admit_gate_def red_ports_def andthen_def gets_def log_call_def modify_def ret_def Let_def)
  have red: "rollup_is_red (rollup_rows red_rollup)"
    by (simp add: red_rollup_def rollup_is_red_def concluded_def row_is_red_def RED_CONCLUSIONS_def lit_Cons)
  have "implementer_identity sample_conductor = Some (lit ''Fey'')"
    by (simp add: implementer_identity_def sample_conductor_def derive_identity_by_role_def)
  then have "plain_prose sample_conductor red_ports (lit ''o/r#1'') ?d red_rollup"
    by (simp add: plain_prose_def red_ports_def red_rollup_def lit_Cons)
  moreover have "hex_sha (rollup_head_sha red_rollup)"
    by (simp add: red_rollup_def lit_Cons hex_sha_def hex_value_def)
  moreover have "lowers_ascii (lower_case sample_conductor)" by (simp add: sample_conductor_def lowers_ascii_def)
  moreover have "list_all (\<lambda>row. list_all scalar (check_name row)) (rollup_rows red_rollup)"
    by (simp add: red_rollup_def lit_Cons scalar_def)
  moreover have "\<not> is_human sample_conductor (chat_author (sample_post ''Bohr''))"
    using sample_humans(2) by (simp add: sample_post_def)
  ultimately have "admission d = Route_human"
    using red_head_routed_once [OF post _ refl refl admit refl] red by simp
  then show ?thesis using post admit by blast
qed

end
