(* ===== verification/JsonLog.thy ===== *)
theory JsonLog
  imports Json
begin

text \<open>
  Append-only files of JSON rows, one row per line, as the program keeps them: reading a file by lines,
  appending a row, and the contract of a log whose rows have a key (\<open>keyed_log\<close>). The files of
  \<open>conductor/continuation_ledger.py\<close>, \<open>clone_retreat_log.py\<close> and \<open>tier_c_decisions_log.py\<close> rest on it.
  A file is its decoded text, \<open>None\<close> when it does not exist.
\<close>

type_synonym log_file = "pystr option"
type_synonym row = "(pystr \<times> json) list"

section \<open>Lines\<close>

text \<open>The newline translation of a text file that is read.\<close>

fun newlines :: "pystr \<Rightarrow> pystr" where
  "newlines [] = []"
| "newlines [c] = [if c = 13 then 10 else c]"
| "newlines (c # d # s) =
     (if c = 13 \<and> d = 10 then 10 # newlines s else (if c = 13 then 10 else c) # newlines (d # s))"

definition contents :: "log_file \<Rightarrow> pystr" where
  "contents f = (case f of None \<Rightarrow> [] | Some s \<Rightarrow> s)"

text \<open>\<open>for line in fh\<close>; the end of a line is left out.\<close>

definition text_lines :: "pystr \<Rightarrow> pystr list" where
  "text_lines s = (let ps = split_char 10 (newlines s) in if last ps = [] then butlast ps else ps)"

lemma split_char_nonempty [simp]: "split_char c s \<noteq> []"
  by (induction s) (auto split: list.split)

lemma split_char_at: "split_char c (a @ c # b) = split_char c a @ split_char c b"
proof (induction a)
  case (Cons x a)
  then show ?case by (cases "split_char c a") auto
qed simp

lemma split_char_none: "c \<notin> set s \<Longrightarrow> split_char c s = [s]"
  by (induction s) auto

lemma newlines_append:
  "a = [] \<or> last a \<noteq> 13 \<or> b = [] \<or> hd b \<noteq> 10 \<Longrightarrow> newlines (a @ b) = newlines a @ newlines b"
proof (induction a rule: newlines.induct)
  case (2 c)
  then show ?case by (cases b) auto
next
  case (3 c d s)
  then show ?case by (cases "s = []") auto
qed simp

lemma newlines_plain: "10 \<notin> set s \<Longrightarrow> 13 \<notin> set s \<Longrightarrow> newlines s = s"
  by (induction s rule: newlines.induct) auto

lemma newlines_empty_iff [simp]: "newlines s = [] \<longleftrightarrow> s = []"
  by (cases s rule: newlines.cases) auto

lemma last_newlines: "s \<noteq> [] \<Longrightarrow> last (newlines s) = 10 \<longleftrightarrow> last s \<in> {10, 13}"
  by (induction s rule: newlines.induct) auto

text \<open>The lines of a file after a line was added to it: a last line without an end is closed first.\<close>

definition ends_line :: "log_file \<Rightarrow> bool" where
  "ends_line f \<longleftrightarrow> contents f = [] \<or> last (contents f) = 10"

definition add_line :: "bool \<Rightarrow> pystr \<Rightarrow> log_file \<Rightarrow> log_file" where
  "add_line repair line f =
     Some (contents f @ (if \<not> repair \<or> ends_line f then [] else [10]) @ line @ [10])"

definition plain_line :: "pystr \<Rightarrow> bool" where
  "plain_line s \<longleftrightarrow> s \<noteq> [] \<and> 10 \<notin> set s \<and> 13 \<notin> set s"

definition lines_of :: "pystr \<Rightarrow> pystr list" where
  "lines_of s = (let ps = split_char 10 s in if last ps = [] then butlast ps else ps)"

lemma lines_closed:
  assumes "a = [] \<or> last a = 10" and "plain_line line"
  shows "lines_of (a @ line @ [10]) = lines_of a @ [line]"
proof -
  have one: "split_char 10 (line @ [10]) = [line, []]"
    using assms(2) split_char_at [of 10 line "[]"] by (simp add: split_char_none plain_line_def)
  show ?thesis
  proof (cases "a = []")
    case True
    then show ?thesis using one by (simp add: lines_of_def)
  next
    case False
    then obtain b where b: "a = b @ [10]" using assms(1) by (metis append_butlast_last_id)
    have "split_char 10 a = split_char 10 b @ [[]]" using split_char_at [of 10 b "[]"] b by simp
    moreover have "split_char 10 (a @ line @ [10]) = split_char 10 b @ [line, []]"
      using split_char_at [of 10 b "line @ [10]"] one b by simp
    ultimately show ?thesis by (simp add: lines_of_def butlast_append)
  qed
qed

lemma last_split_char: "s \<noteq> [] \<Longrightarrow> last s \<noteq> c \<Longrightarrow> last (split_char c s) \<noteq> []"
proof (induction s)
  case (Cons x s)
  then show ?case by (cases "s = []"; cases "split_char c s") auto
qed simp

lemma lines_open:
  assumes "a \<noteq> []" and "last a \<noteq> 10" and "plain_line line"
  shows "lines_of (a @ 10 # line @ [10]) = lines_of a @ [line]"
proof -
  have "split_char 10 (line @ [10]) = [line, []]"
    using assms(3) split_char_at [of 10 line "[]"] by (simp add: split_char_none plain_line_def)
  then show ?thesis
    using split_char_at [of 10 a "line @ [10]"] last_split_char [OF assms(1,2)]
    by (simp add: lines_of_def butlast_append)
qed

lemma text_lines_newlines: "text_lines s = lines_of (newlines s)"
  by (simp add: text_lines_def lines_of_def)

lemma newlines_line:
  assumes "plain_line line"
  shows "newlines (line @ [10]) = line @ [10]"
proof -
  have l: "line \<noteq> []" "10 \<notin> set line" "13 \<notin> set line" using assms by (simp_all add: plain_line_def)
  then have "last line \<noteq> 13" using last_in_set [of line] by metis
  then show ?thesis using newlines_append [of line "[10]"] newlines_plain [OF l(2,3)] by simp
qed

lemma lines_add_line:
  assumes line: "plain_line line" and r: "repair \<or> ends_line f"
  shows "text_lines (contents (add_line repair line f)) = text_lines (contents f) @ [line]"
proof -
  let ?s = "contents f"
  have hd: "hd line \<noteq> 10" and ne: "line \<noteq> []" using line hd_in_set [of line] by (metis plain_line_def)+
  have nl: "newlines (?s @ line @ [10]) = newlines ?s @ line @ [10]"
    using newlines_append [of ?s "line @ [10]"] newlines_line [OF line] hd ne by simp
  show ?thesis
  proof (cases "ends_line f")
    case True
    then have "newlines ?s = [] \<or> last (newlines ?s) = 10"
      using last_newlines [of ?s] by (auto simp: ends_line_def)
    then show ?thesis
      using True nl lines_closed [OF _ line] by (simp add: add_line_def contents_def text_lines_newlines split: option.splits)
  next
    case False
    then have s: "?s \<noteq> []" "last ?s \<noteq> 10" by (auto simp: ends_line_def)
    have add: "contents (add_line repair line f) = ?s @ 10 # line @ [10]"
      using False r by (simp add: add_line_def contents_def)
    have tail: "newlines (10 # line @ [10]) = 10 # line @ [10]"
      using newlines_append [of "[10]" "line @ [10]"] newlines_line [OF line] by simp
    show ?thesis
    proof (cases "last ?s = 13")
      case True
      then obtain b where b: "?s = b @ [13]" using s by (metis append_butlast_last_id)
      have "newlines (13 # 10 # line @ [10]) = 10 # line @ [10]"
        using newlines_line [OF line] by simp
      then have "newlines (?s @ 10 # line @ [10]) = newlines b @ 10 # line @ [10]"
        using b newlines_append [of b "13 # 10 # line @ [10]"] by simp
      moreover have "newlines ?s = newlines b @ [10]" using b newlines_append [of b "[13]"] by simp
      ultimately show ?thesis
        using lines_closed [of "newlines b @ [10]", OF _ line] by (simp add: add text_lines_newlines)
    next
      case False
      then have "newlines (?s @ 10 # line @ [10]) = newlines ?s @ 10 # line @ [10]"
        using newlines_append [of ?s "10 # line @ [10]"] tail by simp
      moreover have "newlines ?s \<noteq> []" "last (newlines ?s) \<noteq> 10" using s False last_newlines [of ?s] by auto
      ultimately show ?thesis
        using lines_open [OF _ _ line] by (simp add: add text_lines_newlines)
    qed
  qed
qed

section \<open>Rows\<close>

text \<open>A row as it is written: its keys sorted, on one line. A dictionary with a numeral that is too long or with a lone
  surrogate is not written.\<close>

definition sort_keys :: "row \<Rightarrow> row" where
  "sort_keys r = sort_key fst r"

definition row_line :: "row \<Rightarrow> pystr" where
  "row_line r = dumps_line (Obj (sort_keys r))"

definition writable :: "row \<Rightarrow> bool" where
  "writable r \<longleftrightarrow> json_ok (Obj (sort_keys r))"

definition json_row :: "pystr \<Rightarrow> row option" where
  "json_row line = (case loads line of Some (Obj kvs) \<Rightarrow> Some kvs | _ \<Rightarrow> None)"

lemma map_of_sort_keys [simp]: "distinct (map fst r) \<Longrightarrow> map_of (sort_keys r) = map_of r"
  unfolding sort_keys_def by (subst map_of_inject_set) (simp_all add: distinct_map)

lemma writable_iff:
  "writable r \<longleftrightarrow> list_all (\<lambda>(k, v). list_all scalar k \<and> json_ok v) r \<and> distinct (map fst r)"
  by (auto simp: writable_def sort_keys_def list_all_iff distinct_map)

lemma list_all_join: "list_all P sep \<Longrightarrow> list_all (list_all P) xs \<Longrightarrow> list_all P (join sep xs)"
  by (induction sep xs rule: join.induct) auto

lemma hex4_high: "list_all (\<lambda>c. 32 \<le> c) (hex4 u)"
  by (simp add: hex4_def hex_digit_def)

lemma json_string_high: "list_all (\<lambda>c. 32 \<le> c) (json_string line_char s)"
proof -
  have "list_all (\<lambda>c. 32 \<le> c) (escape_char line_char c)" for c
    by (auto simp: escape_char_def short_escapes_def line_char_def hex4_high split: option.split)
  then have "list_all (\<lambda>c. 32 \<le> c) (concat (map (escape_char line_char) s))"
    by (induction s) auto
  then show ?thesis by (simp add: json_string_def)
qed

lemma int_text_high: "list_all (\<lambda>c. 32 \<le> c) (int_text i)"
proof -
  have "list_all (\<lambda>c. 32 \<le> c) (decimal n)" for n
    using decimal_digits by (fastforce simp: list_all_iff)
  then show ?thesis by (simp add: int_text_def)
qed

lemma json_line_high: "json_ok v \<Longrightarrow> list_all (\<lambda>c. 32 \<le> c) (json_text [32] line_char v)"
proof (induction v rule: json_ok.induct)
  case (6 vs)
  then have "list_all (list_all (\<lambda>c. 32 \<le> c)) (map (json_text [32] line_char) vs)"
    by (auto simp: list_all_iff)
  then show ?case using list_all_join [of "\<lambda>c. 32 \<le> c" "[44, 32]"] by simp
next
  case (7 fs)
  have "list_all (\<lambda>c. 32 \<le> c) (json_string line_char k @ 58 # [32] @ json_text [32] line_char v)"
    if "(k, v) \<in> set fs" for k v
  proof -
    have "json_ok v" using 7(2) that by (auto simp: list_all_iff)
    then show ?thesis using 7(1) [OF that] json_string_high by simp
  qed
  then have "list_all (list_all (\<lambda>c. 32 \<le> c))
      (map (\<lambda>(k, v). json_string line_char k @ 58 # [32] @ json_text [32] line_char v) fs)"
    by (auto simp: list_all_iff)
  then show ?case using list_all_join [of "\<lambda>c. 32 \<le> c" "[44, 32]"] by simp
qed (simp_all add: lit_Cons json_string_high int_text_high)

lemma row_line_plain: "writable r \<Longrightarrow> plain_line (row_line r) \<and> \<not> blank (row_line r)"
proof
  assume r: "writable r"
  then have high: "list_all (\<lambda>c. 32 \<le> c) (row_line r)"
    using json_line_high by (simp only: writable_def row_line_def dumps_line_def)
  have start: "row_line r = 123 # tl (row_line r)" by (simp add: row_line_def dumps_line_def)
  show "plain_line (row_line r)" using high start by (auto simp: plain_line_def list_all_iff)
  show "\<not> blank (row_line r)" by (subst start) (simp add: blank_def is_space_def)
qed

lemma json_row_line: "writable r \<Longrightarrow> json_row (row_line r) = Some (sort_keys r)"
  by (simp only: json_row_def row_line_def writable_def loads_dumps_line option.case json.case)

section \<open>Logs with keys\<close>

text \<open>The rows a reader keeps: an object with a key. Other lines that are not blank are malformed.\<close>

definition log_lines :: "log_file \<Rightarrow> pystr list" where
  "log_lines f = filter (\<lambda>l. \<not> blank l) (text_lines (contents f))"

definition keyed_row :: "(row \<Rightarrow> 'k option) \<Rightarrow> pystr \<Rightarrow> row option" where
  "keyed_row key line = (case json_row line of None \<Rightarrow> None | Some r \<Rightarrow> if key r = None then None else Some r)"

definition log_rows :: "(row \<Rightarrow> 'k option) \<Rightarrow> log_file \<Rightarrow> row list" where
  "log_rows key f = List.map_filter (keyed_row key) (log_lines f)"

definition log_malformed :: "(row \<Rightarrow> 'k option) \<Rightarrow> log_file \<Rightarrow> nat" where
  "log_malformed key f = length (filter (\<lambda>l. keyed_row key l = None) (log_lines f))"

text \<open>
  The readers skip a line \<open>json.loads\<close> refuses with a \<open>JSONDecodeError\<close>; the plain \<open>ValueError\<close> of a numeral that is too
  long they do not catch (\<open>None\<close>).
\<close>

definition log_readable :: "log_file \<Rightarrow> bool" where
  "log_readable f \<longleftrightarrow> list_all (\<lambda>l. \<not> value_error l) (log_lines f)"

definition read_log :: "(row \<Rightarrow> 'k option) \<Rightarrow> log_file \<Rightarrow> (row list \<times> nat) option" where
  "read_log key f = (if log_readable f then Some (log_rows key f, log_malformed key f) else None)"

datatype log_error = Not_a_row | Unwritable | Unread_numeral

text \<open>A numeral that is too long is refused before the file is opened, a lone surrogate when it is written.\<close>

definition short_numerals :: "row \<Rightarrow> bool" where
  "short_numerals r \<longleftrightarrow>
     list_all (\<lambda>(_, v). case v of Number i \<Rightarrow> length (decimal (nat \<bar>i\<bar>)) \<le> 4300 | _ \<Rightarrow> True) r"

definition write_row :: "bool \<Rightarrow> row \<Rightarrow> (log_file, log_error, unit) act" where
  "write_row repair r =
     (if \<not> short_numerals r then raise Unwritable
      else if \<not> writable r then andthen (modify (\<lambda>f. Some (contents f))) (\<lambda>_. raise Unwritable)
      else modify (add_line repair (row_line r)))"

definition append_once :: "(row \<Rightarrow> 'k option) \<Rightarrow> row \<Rightarrow> (log_file, log_error, bool) act" where
  "append_once key r =
     (if key r = None then raise Not_a_row
      else andthen (gets (read_log key)) (\<lambda>read.
           case read of
             None \<Rightarrow> raise Unread_numeral
           | Some (rows, _) \<Rightarrow>
               if \<exists>old \<in> set rows. key old = key r then ret False
               else andthen (write_row True r) (\<lambda>_. ret True)))"

text \<open>What such a log stands for: the first row of each key.\<close>

definition log_map :: "(row \<Rightarrow> 'k option) \<Rightarrow> log_file \<Rightarrow> 'k \<rightharpoonup> row" where
  "log_map key f = map_of (map (\<lambda>r. (the (key r), r)) (log_rows key f))"

lemma log_lines_add:
  "writable r \<Longrightarrow> repair \<or> ends_line f \<Longrightarrow> log_lines (add_line repair (row_line r) f) = log_lines f @ [row_line r]"
  using row_line_plain [of r] lines_add_line [of "row_line r" repair f] by (simp add: log_lines_def)

lemma row_line_readable: "writable r \<Longrightarrow> \<not> value_error (row_line r)"
  unfolding writable_def row_line_def by (rule loads_no_error [OF loads_dumps_line])

lemma readable_add:
  "writable r \<Longrightarrow> repair \<or> ends_line f \<Longrightarrow> log_readable (add_line repair (row_line r) f) = log_readable f"
  by (simp add: log_readable_def log_lines_add row_line_readable)

lemma append_once_unreadable:
  "\<not> log_readable f \<Longrightarrow> key r \<noteq> None \<Longrightarrow> append_once key r f = (Inl Unread_numeral, f)"
  by (simp add: append_once_def read_log_def act_simps)

lemma append_once_readable:
  "log_readable f \<Longrightarrow> key r \<noteq> None \<Longrightarrow> append_once key r f =
     (if \<exists>old \<in> set (log_rows key f). key old = key r then (Inr False, f)
      else andthen (write_row True r) (\<lambda>_. ret True) f)"
  by (cases "key r") (simp_all add: append_once_def read_log_def act_simps)

lemma append_once_read: "append_once key r f = (Inr fresh, f') \<Longrightarrow> log_readable f \<and> key r \<noteq> None"
  using append_once_unreadable [of f key r] by (cases "key r = None") (auto simp: append_once_def act_simps)

lemma key_some: "r \<in> set (log_rows key f) \<Longrightarrow> key r \<noteq> None"
  by (auto simp: log_rows_def keyed_row_def map_filter_def split: option.splits if_splits)

lemma json_get_cong: "map_of r = map_of r' \<Longrightarrow> json_get k r = json_get k r'"
  by (simp add: json_get.simps)

text \<open>The contract of a key: it depends on the row as a dictionary only.\<close>

locale keyed_log =
  fixes key :: "row \<Rightarrow> 'k option"
  assumes key_cong: "map_of r = map_of r' \<Longrightarrow> key r = key r'"
begin

lemma key_sorted: "distinct (map fst r) \<Longrightarrow> key (sort_keys r) = key r"
  by (rule key_cong) simp

lemma rows_add:
  assumes "writable r" and "repair \<or> ends_line f" and "distinct (map fst r)" and "key r = Some k"
  shows "log_rows key (add_line repair (row_line r) f) = log_rows key f @ [sort_keys r]"
  using assms by (simp add: log_rows_def log_lines_add map_filter_def keyed_row_def json_row_line key_sorted)

lemma malformed_add:
  assumes "writable r" and "repair \<or> ends_line f" and "distinct (map fst r)" and "key r = Some k"
  shows "log_malformed key (add_line repair (row_line r) f) = log_malformed key f"
  using assms by (simp add: log_malformed_def log_lines_add keyed_row_def json_row_line key_sorted)

lemma in_log_map: "k \<in> dom (log_map key f) \<longleftrightarrow> (\<exists>r \<in> set (log_rows key f). key r = Some k)"
proof -
  have "k \<in> dom (log_map key f) \<longleftrightarrow> k \<in> (\<lambda>r. the (key r)) ` set (log_rows key f)"
    by (simp add: log_map_def dom_map_of_conv_image_fst image_image)
  also have "\<dots> \<longleftrightarrow> (\<exists>r \<in> set (log_rows key f). key r = Some k)"
    using key_some [of _ key f] by force
  finally show ?thesis .
qed

text \<open>Appending once refines the update of a map that keeps the first value of a key.\<close>

lemma append_once_refines:
  assumes "append_once key r f = (Inr fresh, f')" and "distinct (map fst r)"
  obtains k where "key r = Some k" "fresh \<longleftrightarrow> k \<notin> dom (log_map key f)"
    "log_map key f' = (if fresh then (log_map key f)(k \<mapsto> sort_keys r) else log_map key f)"
    "log_malformed key f' = log_malformed key f" "log_readable f \<and> log_readable f'"
    "distinct (map key (log_rows key f)) \<Longrightarrow> distinct (map key (log_rows key f'))"
proof -
  have read: "log_readable f" and "key r \<noteq> None" using append_once_read [OF assms(1)] by simp_all
  then obtain k where k: "key r = Some k" by auto
  have once: "append_once key r f =
     (if \<exists>old \<in> set (log_rows key f). key old = key r then (Inr False, f)
      else andthen (write_row True r) (\<lambda>_. ret True) f)"
    by (rule append_once_readable) (simp_all add: read k)
  show ?thesis
  proof (cases "k \<in> dom (log_map key f)")
    case True
    then have "fresh = False \<and> f' = f"
      using assms(1) k in_log_map [of k f] by (auto simp: once)
    then show ?thesis using that [OF k] True read by simp
  next
    case False
    then have none: "\<not> (\<exists>old \<in> set (log_rows key f). key old = key r)" using k in_log_map [of k f] by simp
    then have w: "fresh = True \<and> f' = add_line True (row_line r) f \<and> writable r"
      using assms(1) k none
      by (auto simp: once write_row_def andthen_def modify_def raise_def ret_def split: if_splits)
    then have rows: "log_rows key f' = log_rows key f @ [sort_keys r]"
      using rows_add [of r True f, OF _ _ assms(2) k] by simp
    have "log_map key f' = (log_map key f)(k \<mapsto> sort_keys r)"
      using False by (auto simp: log_map_def rows key_sorted [OF assms(2)] k map_add_def fun_eq_iff dom_def split: option.splits)
    moreover have "distinct (map key (log_rows key f'))" if "distinct (map key (log_rows key f))"
      using that none by (auto simp: rows key_sorted [OF assms(2)])
    moreover have "log_malformed key f' = log_malformed key f"
      using malformed_add [of r True f, OF _ _ assms(2) k] w by simp
    moreover have "log_readable f'" using readable_add [of r True f] w read by simp
    ultimately show ?thesis using that [OF k] False w read by simp
  qed
qed

end

end
