(* ===== verification/Ledgers.thy ===== *)
theory Ledgers
  imports JsonLog Conductor
begin

text \<open>
  Two logs of the conductor: the continuation ledger (\<open>conductor/continuation_ledger.py\<close>), whose rows are
  written once, and the record of clone retreats (\<open>clone_retreat_log.py\<close>). The text of the instant a row is
  written at and the random part of a record id are arguments.
\<close>

section \<open>The continuation ledger\<close>

definition ADMITTED_KIND :: pystr where "ADMITTED_KIND = lit ''continue_admitted''"
definition ATTEMPT_KIND :: pystr where "ATTEMPT_KIND = lit ''continue_attempt''"

definition outcome_value :: "attempt_outcome \<Rightarrow> pystr" where
  "outcome_value out = (case out of Attempt_dirty \<Rightarrow> lit ''dirty'' | Attempt_cap \<Rightarrow> lit ''cap''
     | Relay_recovered_dirty \<Rightarrow> lit ''relay_recovered_dirty'')"

definition OUTCOME_VALUES :: "pystr set" where
  "OUTCOME_VALUES = outcome_value ` {Attempt_dirty, Attempt_cap, Relay_recovered_dirty}"

definition row_key :: "row \<Rightarrow> pystr list option" where
  "row_key r =
     (case (json_get (lit ''project'') r, json_get (lit ''thread'') r) of
        (Str project, Str thread) \<Rightarrow>
          if json_get (lit ''kind'') r = Str ADMITTED_KIND
          then (case json_get (lit ''relay_msg_id'') r of
                  Str relay \<Rightarrow> if relay \<noteq> [] then Some [ADMITTED_KIND, project, thread, relay] else None
                | _ \<Rightarrow> None)
          else if json_get (lit ''kind'') r = Str ATTEMPT_KIND
          then (case (json_get (lit ''msg_id'') r, json_get (lit ''outcome'') r) of
                  (Str msg, Str out) \<Rightarrow>
                    if msg \<noteq> [] \<and> out \<in> OUTCOME_VALUES then Some [ATTEMPT_KIND, project, thread, msg, out] else None
                | _ \<Rightarrow> None)
          else None
      | _ \<Rightarrow> None)"

definition admitted_row :: "pystr \<Rightarrow> pystr \<Rightarrow> pystr \<Rightarrow> pystr \<Rightarrow> pystr \<Rightarrow> int \<Rightarrow> int \<Rightarrow> row" where
  "admitted_row stamp project thread relay report n cap =
     [(lit ''kind'', Str ADMITTED_KIND), (lit ''at'', Str stamp), (lit ''project'', Str project),
      (lit ''thread'', Str thread), (lit ''relay_msg_id'', Str relay), (lit ''report_msg_id'', Str report),
      (lit ''n'', Number n), (lit ''cap'', Number cap)]"

definition attempt_row ::
    "pystr \<Rightarrow> pystr \<Rightarrow> pystr \<Rightarrow> pystr \<Rightarrow> attempt_outcome \<Rightarrow> int \<Rightarrow> int \<Rightarrow> pystr option \<Rightarrow> row" where
  "attempt_row stamp project thread msg out n cap clone =
     [(lit ''kind'', Str ATTEMPT_KIND), (lit ''at'', Str stamp), (lit ''project'', Str project),
      (lit ''thread'', Str thread), (lit ''msg_id'', Str msg), (lit ''outcome'', Str (outcome_value out)),
      (lit ''n'', Number n), (lit ''cap'', Number cap)] @
     (case clone of None \<Rightarrow> [] | Some c \<Rightarrow> [(lit ''clone'', Str c)])"

definition record_admitted ::
    "pystr \<Rightarrow> pystr \<Rightarrow> pystr \<Rightarrow> pystr \<Rightarrow> pystr \<Rightarrow> int \<Rightarrow> int \<Rightarrow> (log_file, log_error, bool) act" where
  "record_admitted stamp project thread relay report n cap =
     append_once row_key (admitted_row stamp project thread relay report n cap)"

definition record_attempt ::
    "pystr \<Rightarrow> pystr \<Rightarrow> pystr \<Rightarrow> pystr \<Rightarrow> attempt_outcome \<Rightarrow> int \<Rightarrow> int \<Rightarrow> pystr option \<Rightarrow>
     (log_file, log_error, bool) act" where
  "record_attempt stamp project thread msg out n cap clone =
     append_once row_key (attempt_row stamp project thread msg out n cap clone)"

interpretation continuation_log: keyed_log row_key
proof
  fix r r' :: row
  assume "map_of r = map_of r'"
  then have "json_get k r = json_get k r'" for k by (rule json_get_cong)
  then show "row_key r = row_key r'" by (simp only: row_key_def)
qed

subsection \<open>The weekly view\<close>

record thread_summary =
  sum_project :: pystr
  sum_thread :: pystr
  admitted_count :: nat
  max_n :: int
  cap_hits :: nat
  dirty_count :: nat
  recovered_dirty :: nat

text \<open>\<open>fromiso\<close> is \<open>datetime.fromisoformat\<close>: the local reading and the offset in microseconds, if there is one.\<close>

definition parse_at :: "(pystr \<Rightarrow> (time \<times> duration option) option) \<Rightarrow> json \<Rightarrow> time option" where
  "parse_at fromiso v =
     (case v of
        Str s \<Rightarrow> map_option (\<lambda>(local, off). case off of None \<Rightarrow> local | Some d \<Rightarrow> local - d) (fromiso s)
      | _ \<Rightarrow> None)"

definition json_str :: "json \<Rightarrow> pystr" where
  "json_str v = (case v of Str s \<Rightarrow> s | _ \<Rightarrow> [])"

definition count_in :: "row \<Rightarrow> thread_summary \<Rightarrow> thread_summary" where
  "count_in r s =
     (if json_get (lit ''kind'') r = Str ADMITTED_KIND
      then s\<lparr>admitted_count := admitted_count s + 1,
             max_n := (case json_get (lit ''n'') r of Number n \<Rightarrow> max (max_n s) n | _ \<Rightarrow> max_n s)\<rparr>
      else if json_get (lit ''outcome'') r = Str (outcome_value Attempt_cap) then s\<lparr>cap_hits := cap_hits s + 1\<rparr>
      else if json_get (lit ''outcome'') r = Str (outcome_value Attempt_dirty) then s\<lparr>dirty_count := dirty_count s + 1\<rparr>
      else s\<lparr>recovered_dirty := recovered_dirty s + 1\<rparr>)"

definition new_summary :: "pystr \<times> pystr \<Rightarrow> thread_summary" where
  "new_summary k = \<lparr>sum_project = fst k, sum_thread = snd k, admitted_count = 0, max_n = 0, cap_hits = 0,
     dirty_count = 0, recovered_dirty = 0\<rparr>"

definition thread_of_row :: "row \<Rightarrow> pystr \<times> pystr" where
  "thread_of_row r = (json_str (json_get (lit ''project'') r), json_str (json_get (lit ''thread'') r))"

fun count_rows ::
    "(pystr \<Rightarrow> (time \<times> duration option) option) \<Rightarrow> time \<Rightarrow> row list \<Rightarrow>
     ((pystr \<times> pystr) \<times> thread_summary) list \<Rightarrow> nat \<Rightarrow> ((pystr \<times> pystr) \<times> thread_summary) list \<times> nat" where
  "count_rows fromiso earliest [] d undated = (d, undated)"
| "count_rows fromiso earliest (r # rs) d undated =
     (case parse_at fromiso (json_get (lit ''at'') r) of
        None \<Rightarrow> count_rows fromiso earliest rs d (undated + 1)
      | Some t \<Rightarrow>
          if t < earliest then count_rows fromiso earliest rs d undated
          else (let k = thread_of_row r; s = (case map_of d k of None \<Rightarrow> new_summary k | Some s \<Rightarrow> s)
                in count_rows fromiso earliest rs (dict_set k (count_in r s) d) undated))"

definition summarize ::
    "(pystr \<Rightarrow> (time \<times> duration option) option) \<Rightarrow> time \<Rightarrow> row list \<Rightarrow> thread_summary list \<times> nat" where
  "summarize fromiso earliest rows =
     (let (d, undated) = count_rows fromiso earliest rows [] 0 in (map snd (sort_key fst d), undated))"

section \<open>Events as a map\<close>

text \<open>What is recorded, and the abstract ledger: the first row recorded for each event.\<close>

datatype ledger_event =
    Continuation_admitted pystr pystr pystr pystr pystr int int
  | Continuation_refused pystr pystr pystr pystr attempt_outcome int int "pystr option"

fun event_row :: "ledger_event \<Rightarrow> row" where
  "event_row (Continuation_admitted stamp project thread relay report n cap) =
     admitted_row stamp project thread relay report n cap"
| "event_row (Continuation_refused stamp project thread msg out n cap clone) =
     attempt_row stamp project thread msg out n cap clone"

fun event_key :: "ledger_event \<Rightarrow> pystr list" where
  "event_key (Continuation_admitted stamp project thread relay report n cap) = [ADMITTED_KIND, project, thread, relay]"
| "event_key (Continuation_refused stamp project thread msg out n cap clone) =
     [ATTEMPT_KIND, project, thread, msg, outcome_value out]"

fun event_id :: "ledger_event \<Rightarrow> pystr" where
  "event_id (Continuation_admitted stamp project thread relay report n cap) = relay"
| "event_id (Continuation_refused stamp project thread msg out n cap clone) = msg"

fun record_event :: "ledger_event \<Rightarrow> (log_file, log_error, bool) act" where
  "record_event (Continuation_admitted stamp project thread relay report n cap) =
     record_admitted stamp project thread relay report n cap"
| "record_event (Continuation_refused stamp project thread msg out n cap clone) =
     record_attempt stamp project thread msg out n cap clone"

primrec record_all :: "ledger_event list \<Rightarrow> (log_file, log_error, bool list) act" where
  "record_all [] = ret []"
| "record_all (e # es) = andthen (record_event e) (\<lambda>fresh. andthen (record_all es) (\<lambda>rest. ret (fresh # rest)))"

text \<open>The map keeps the first row of an event; the answer is whether the event was new.\<close>

definition keep_first :: "(pystr list \<rightharpoonup> row) \<Rightarrow> ledger_event \<Rightarrow> (pystr list \<rightharpoonup> row)" where
  "keep_first M e = (if event_key e \<in> dom M then M else M(event_key e \<mapsto> sort_keys (event_row e)))"

primrec keep_all :: "ledger_event list \<Rightarrow> (pystr list \<rightharpoonup> row) \<Rightarrow> bool list \<times> (pystr list \<rightharpoonup> row)" where
  "keep_all [] M = ([], M)"
| "keep_all (e # es) M = (let (rest, M') = keep_all es (keep_first M e) in ((event_key e \<notin> dom M) # rest, M'))"

text \<open>An event the conductor records: its message has an id and its texts can be written.\<close>

definition event_ok :: "ledger_event \<Rightarrow> bool" where
  "event_ok e \<longleftrightarrow> event_id e \<noteq> [] \<and> writable (event_row e) \<and> short_numerals (event_row e)"

lemmas ledger_literals = ADMITTED_KIND_def ATTEMPT_KIND_def outcome_value_def OUTCOME_VALUES_def

lemma event_row_key: "event_id e \<noteq> [] \<Longrightarrow> row_key (event_row e) = Some (event_key e)"
  by (cases e) (simp_all add: row_key_def admitted_row_def attempt_row_def json_get.simps ledger_literals
      split: attempt_outcome.split)

lemma event_row_distinct: "distinct (map fst (event_row e))"
  by (cases e) (simp_all add: admitted_row_def attempt_row_def split: option.split)

lemma record_event_eq: "record_event e = append_once row_key (event_row e)"
  by (cases e) (simp_all add: record_admitted_def record_attempt_def)

lemma record_event_runs: "event_ok e \<Longrightarrow> log_readable f \<Longrightarrow> \<exists>fresh f'. record_event e f = (Inr fresh, f')"
  by (auto simp: record_event_eq append_once_readable event_ok_def event_row_key act_simps write_row_def)

lemma record_event_unreadable:
  "event_ok e \<Longrightarrow> \<not> log_readable f \<Longrightarrow> record_event e f = (Inl Unread_numeral, f)"
  unfolding record_event_eq by (rule append_once_unreadable) (simp_all add: event_ok_def event_row_key)

lemma record_event_refines:
  assumes "event_ok e" and "log_readable f"
  obtains f' where "record_event e f = (Inr (event_key e \<notin> dom (log_map row_key f)), f')"
    "log_map row_key f' = keep_first (log_map row_key f) e" "log_malformed row_key f' = log_malformed row_key f"
    "log_readable f'" "distinct (map row_key (log_rows row_key f)) \<Longrightarrow> distinct (map row_key (log_rows row_key f'))"
proof -
  obtain fresh f' where r: "record_event e f = (Inr fresh, f')" using record_event_runs [OF assms] by blast
  have key: "row_key (event_row e) = Some (event_key e)" using assms event_row_key by (simp add: event_ok_def)
  have once: "append_once row_key (event_row e) f = (Inr fresh, f')" using r by (simp add: record_event_eq)
  show thesis
    by (rule continuation_log.append_once_refines [OF once event_row_distinct])
      (rule that; use key r in \<open>auto simp: keep_first_def\<close>)
qed

text \<open>C6. The ledger refines a map that keeps the first row of each event. From a file that can be read, whatever events are
  recorded, in whatever order and however often a restart repeats them: each recording answers whether the event was
  new, the readable rows stand for the map, no event gets a second row, no malformed line is added or hidden and the file
  can still be read. A file with a numeral of more than 4300 digits in a line cannot be read: every recording raises and
  leaves it as it is. Assumed of the events: their message has an id, and their texts and numbers can be written.\<close>

theorem ledger_refines_map:
  assumes "\<forall>e \<in> set es. event_ok e"
  shows "if log_readable f
     then (\<exists>f'. record_all es f = (Inr (fst (keep_all es (log_map row_key f))), f') \<and>
        log_map row_key f' = snd (keep_all es (log_map row_key f)) \<and>
        log_malformed row_key f' = log_malformed row_key f \<and> log_readable f' \<and>
        (distinct (map row_key (log_rows row_key f)) \<longrightarrow> distinct (map row_key (log_rows row_key f'))))
     else (\<forall>e \<in> set es. record_event e f = (Inl Unread_numeral, f))"
proof (cases "log_readable f")
  case True
  then show ?thesis
    using assms
  proof (induction es arbitrary: f)
    case (Cons e es)
    obtain f1 where one: "record_event e f = (Inr (event_key e \<notin> dom (log_map row_key f)), f1)"
      "log_map row_key f1 = keep_first (log_map row_key f) e" "log_malformed row_key f1 = log_malformed row_key f"
      "log_readable f1" "distinct (map row_key (log_rows row_key f)) \<Longrightarrow> distinct (map row_key (log_rows row_key f1))"
      using record_event_refines [of e f] Cons.prems by auto
    obtain f' where rest: "record_all es f1 = (Inr (fst (keep_all es (log_map row_key f1))), f')"
      "log_map row_key f' = snd (keep_all es (log_map row_key f1))" "log_malformed row_key f' = log_malformed row_key f1"
      "log_readable f'" "distinct (map row_key (log_rows row_key f1)) \<longrightarrow> distinct (map row_key (log_rows row_key f'))"
      using Cons.IH [OF one(4)] Cons.prems(2) one(4) by auto
    show ?case
      using one rest Cons.prems(1) by (auto simp: andthen_run ret_run split: prod.split)
  qed (simp add: ret_run)
next
  case False
  then show ?thesis using assms record_event_unreadable by simp
qed

definition sample_event :: ledger_event where
  "sample_event = Continuation_admitted (lit ''now'') (lit ''p'') (lit ''T'') (lit ''m1'') (lit ''m0'') 1 3"

lemma sample_event_ok: "event_ok sample_event"
  by (simp add: event_ok_def sample_event_def writable_def short_numerals_def admitted_row_def sort_keys_def
      ledger_literals lit_Cons scalar_def sort_key_simps decimal.simps [of 3] decimal.simps [of "Suc 0"])

lemma ledger_refines_map_witness:
  "\<exists>f'. record_all [sample_event, sample_event] None = (Inr [True, False], f') \<and>
     log_map row_key f' = [event_key sample_event \<mapsto> sort_keys (event_row sample_event)]"
  using ledger_refines_map [of "[sample_event, sample_event]" None] sample_event_ok
  by (auto simp: keep_first_def log_map_def log_rows_def log_lines_def log_readable_def text_lines_def contents_def
      map_filter_def)

section \<open>Clone retreats\<close>

definition RETREAT_KIND :: pystr where "RETREAT_KIND = lit ''retreat''"
definition DELIVERED_KIND :: pystr where "DELIVERED_KIND = lit ''delivered''"

datatype retreat_outcome = Retreat_clean | Not_eligible | Retreated | Discarded | Discard_incomplete | Retreat_failed

definition retreat_value :: "retreat_outcome \<Rightarrow> pystr" where
  "retreat_value out = (case out of Retreat_clean \<Rightarrow> lit ''clean'' | Not_eligible \<Rightarrow> lit ''not_eligible''
     | Retreated \<Rightarrow> lit ''retreated'' | Discarded \<Rightarrow> lit ''discarded''
     | Discard_incomplete \<Rightarrow> lit ''discard_incomplete'' | Retreat_failed \<Rightarrow> lit ''failed'')"

definition NO_OP_OUTCOMES :: "pystr set" where "NO_OP_OUTCOMES = {lit ''clean'', lit ''not_eligible''}"

record retreat_result =
  retreat_outcome :: retreat_outcome
  retreat_thread :: pystr
  retreat_branch :: "pystr option"
  retreat_pushed :: "bool option"
  retreat_files :: "int option"
  retreat_insertions :: "int option"
  retreat_deletions :: "int option"
  retreat_patch :: "pystr option"
  retreat_untracked :: "pystr option"
  retreat_marker :: "pystr option"
  retreat_detail :: pystr

definition opt_json :: "('a \<Rightarrow> json) \<Rightarrow> 'a option \<Rightarrow> json" where
  "opt_json g v = (case v of None \<Rightarrow> Null | Some x \<Rightarrow> g x)"

definition dash :: "pystr \<Rightarrow> pystr" where
  "dash s = (if s = [] then lit ''-'' else s)"

definition build_record :: "retreat_result \<Rightarrow> pystr \<Rightarrow> pystr \<Rightarrow> pystr \<Rightarrow> pystr \<Rightarrow> pystr \<Rightarrow> row option" where
  "build_record res repo_dir head_msg why stamp suffix =
     (let out = retreat_value (retreat_outcome res) in
      if out \<in> NO_OP_OUTCOMES then None
      else Some
        [(lit ''kind'', Str RETREAT_KIND),
         (lit ''record_id'', Str (retreat_thread res @ lit ''@'' @ stamp @ lit ''#'' @ suffix)),
         (lit ''at'', Str stamp), (lit ''thread_id'', Str (retreat_thread res)), (lit ''repo_dir'', Str repo_dir),
         (lit ''head_msg'', Str (dash head_msg)), (lit ''stop_reason'', Str (dash why)), (lit ''outcome'', Str out),
         (lit ''pushed'', opt_json Bool (retreat_pushed res)), (lit ''branch'', opt_json Str (retreat_branch res)),
         (lit ''files'', opt_json Number (retreat_files res)),
         (lit ''insertions'', opt_json Number (retreat_insertions res)),
         (lit ''deletions'', opt_json Number (retreat_deletions res)),
         (lit ''patch'', opt_json Str (retreat_patch res)), (lit ''untracked'', opt_json Str (retreat_untracked res)),
         (lit ''marker'', opt_json Str (retreat_marker res)), (lit ''detail'', Str (retreat_detail res))])"

definition record_result ::
    "retreat_result \<Rightarrow> pystr \<Rightarrow> pystr \<Rightarrow> pystr \<Rightarrow> pystr \<Rightarrow> pystr \<Rightarrow> (log_file, log_error, row option) act" where
  "record_result res repo_dir head_msg why stamp suffix =
     (case build_record res repo_dir head_msg why stamp suffix of
        None \<Rightarrow> ret None
      | Some r \<Rightarrow> andthen (write_row True r) (\<lambda>_. ret (Some r)))"

definition record_id :: "row \<Rightarrow> pystr option" where
  "record_id r = (case json_get (lit ''record_id'') r of Str i \<Rightarrow> Some i | _ \<Rightarrow> None)"

interpretation retreat_log: keyed_log record_id
proof
  fix r r' :: row
  assume "map_of r = map_of r'"
  then have "json_get k r = json_get k r'" for k by (rule json_get_cong)
  then show "record_id r = record_id r'" by (simp only: record_id_def)
qed

text \<open>The last retreat of a thread, unless one of its delivered rows names it.\<close>

fun scan_retreats :: "pystr \<Rightarrow> row list \<Rightarrow> row option \<Rightarrow> pystr set \<Rightarrow> row option \<times> pystr set" where
  "scan_retreats thread [] latest delivered = (latest, delivered)"
| "scan_retreats thread (r # rs) latest delivered =
     (if json_get (lit ''thread_id'') r \<noteq> Str thread then scan_retreats thread rs latest delivered
      else if json_get (lit ''kind'') r = Str RETREAT_KIND then scan_retreats thread rs (Some r) delivered
      else if json_get (lit ''kind'') r = Str DELIVERED_KIND
      then scan_retreats thread rs latest (insert (the (record_id r)) delivered)
      else scan_retreats thread rs latest delivered)"

definition pending_record :: "log_file \<Rightarrow> pystr \<Rightarrow> log_error + row option" where
  "pending_record f thread =
     (case read_log record_id f of
        None \<Rightarrow> Inl Unread_numeral
      | Some (rows, _) \<Rightarrow>
          Inr (case scan_retreats thread rows None {} of
                 (None, _) \<Rightarrow> None
               | (Some r, delivered) \<Rightarrow> if the (record_id r) \<in> delivered then None else Some r))"

definition mark_delivered :: "row \<Rightarrow> pystr \<Rightarrow> pystr \<Rightarrow> (log_file, log_error, unit) act" where
  "mark_delivered r session_role stamp =
     write_row True
       [(lit ''kind'', Str DELIVERED_KIND), (lit ''record_id'', json_get (lit ''record_id'') r),
        (lit ''thread_id'', json_get (lit ''thread_id'') r), (lit ''at'', Str stamp), (lit ''role'', Str session_role)]"

subsection \<open>A retreat reaches one turn\<close>

lemma scan_retreats_append:
  "scan_retreats t (xs @ ys) latest delivered =
     (case scan_retreats t xs latest delivered of (l, d) \<Rightarrow> scan_retreats t ys l d)"
  by (induction t xs latest delivered rule: scan_retreats.induct) auto

lemma delivered_ids:
  "snd (scan_retreats t xs latest delivered) \<subseteq> delivered \<union> (\<lambda>r. the (record_id r)) ` set xs"
  by (induction t xs latest delivered rule: scan_retreats.induct) (auto split: if_splits)

lemma latest_thread:
  "fst (scan_retreats t xs latest delivered) = Some r \<Longrightarrow> latest = Some r \<or> json_get (lit ''thread_id'') r = Str t"
  by (induction t xs latest delivered rule: scan_retreats.induct) (auto split: if_splits)

lemma write_row_done: "write_row True r f = (Inr u, f') \<Longrightarrow> f' = add_line True (row_line r) f \<and> writable r"
  by (auto simp: write_row_def act_simps andthen_def modify_def raise_def split: if_splits)

lemma get_sorted: "distinct (map fst r) \<Longrightarrow> json_get k (sort_keys r) = json_get k r"
  by (rule json_get_cong) simp

lemma build_record_fields:
  assumes "build_record res repo_dir head_msg why stamp suffix = Some r"
  shows "distinct (map fst r)" "json_get (lit ''kind'') r = Str RETREAT_KIND"
    "json_get (lit ''thread_id'') r = Str (retreat_thread res)"
    "record_id r = Some (retreat_thread res @ lit ''@'' @ stamp @ lit ''#'' @ suffix)"
  using assms by (auto simp: build_record_def record_id_def json_get_Cons Let_def split: if_splits)

lemma pending_append:
  assumes "log_rows record_id f' = log_rows record_id f @ [r]" and "log_readable f'"
  shows "pending_record f' t =
    (case scan_retreats t (log_rows record_id f) None {} of
       (l, d) \<Rightarrow> Inr (case scan_retreats t [r] l d of
          (None, _) \<Rightarrow> None | (Some r', d') \<Rightarrow> if the (record_id r') \<in> d' then None else Some r'))"
  by (simp add: pending_record_def read_log_def assms scan_retreats_append split: prod.split)

lemma pending_unread: "\<not> log_readable f \<Longrightarrow> pending_record f t = Inl Unread_numeral"
  by (simp add: pending_record_def read_log_def)

lemma mark_delivered_rows:
  assumes "mark_delivered r role stamp f = (Inr u, f')" and "json_get (lit ''thread_id'') r = Str t"
    and "record_id r = Some i"
  obtains d where "log_rows record_id f' = log_rows record_id f @ [d]" "log_readable f' = log_readable f" "json_get (lit ''kind'') d = Str DELIVERED_KIND"
    "json_get (lit ''thread_id'') d = Str t" "record_id d = Some i"
proof -
  let ?d = "[(lit ''kind'', Str DELIVERED_KIND), (lit ''record_id'', json_get (lit ''record_id'') r),
        (lit ''thread_id'', json_get (lit ''thread_id'') r), (lit ''at'', Str stamp), (lit ''role'', Str role)]"
  have id: "json_get (lit ''record_id'') r = Str i" using assms(3) by (auto simp: record_id_def split: json.splits)
  have d: "distinct (map fst ?d)" "record_id ?d = Some i"
    by (simp_all add: record_id_def json_get_Cons id)
  have w: "f' = add_line True (row_line ?d) f" "writable ?d"
    using write_row_done [of ?d] assms(1) by (simp_all add: mark_delivered_def)
  have "log_rows record_id f' = log_rows record_id f @ [sort_keys ?d]"
    using retreat_log.rows_add [OF w(2) _ d] w(1) by simp
  moreover have "log_readable f' = log_readable f" using readable_add [OF w(2), of True f] w(1) by simp
  ultimately show ?thesis
    by (rule that) (use d assms(2) retreat_log.key_sorted [OF d(1)] get_sorted [OF d(1)] in \<open>simp_all add: json_get_Cons\<close>)
qed

text \<open>C7. A retreat that left work behind is pending for its thread from the moment it is recorded until one turn got
  it: after it is marked delivered nothing is pending for that thread, and the other threads see no difference. A log
  that could not be read before, for a numeral of more than 4300 digits, still cannot: every reading raises.\<close>

theorem retreat_reaches_one_turn:
  assumes "record_result res repo_dir head_msg why stamp suffix f = (Inr (Some r), f1)"
    and "record_id r \<notin> record_id ` set (log_rows record_id f)"
    and "mark_delivered (sort_keys r) role stamp' f1 = (Inr (), f2)"
  shows "if log_readable f
     then pending_record f1 (retreat_thread res) = Inr (Some (sort_keys r)) \<and>
        pending_record f2 (retreat_thread res) = Inr None \<and>
        (\<forall>t. t = retreat_thread res \<or> pending_record f2 t = pending_record f t)
     else (\<forall>t. pending_record f1 t = Inl Unread_numeral \<and> pending_record f2 t = Inl Unread_numeral)"
proof -
  let ?t = "retreat_thread res" and ?rows = "log_rows record_id f"
  have built: "build_record res repo_dir head_msg why stamp suffix = Some r"
    using assms(1) by (auto simp: record_result_def act_simps andthen_eq_Inr_iff ret_def split: option.splits)
  note fields = build_record_fields [OF built]
  obtain i where i: "record_id r = Some i" using fields(4) by simp
  have w: "f1 = add_line True (row_line r) f" "writable r"
    using assms(1) write_row_done [of r f] by (auto simp: record_result_def built andthen_eq_Inr_iff ret_def)
  have sorted: "record_id (sort_keys r) = Some i" "json_get (lit ''thread_id'') (sort_keys r) = Str ?t"
    "json_get (lit ''kind'') (sort_keys r) = Str RETREAT_KIND"
    using fields i get_sorted [OF fields(1)] retreat_log.key_sorted [OF fields(1)] by simp_all
  have rows1: "log_rows record_id f1 = ?rows @ [sort_keys r]"
    using retreat_log.rows_add [OF w(2) _ fields(1) i] w(1) by simp
  have read1: "log_readable f1 = log_readable f" using readable_add [OF w(2), of True f] w(1) by simp
  obtain d where rows2: "log_rows record_id f2 = log_rows record_id f1 @ [d]"
    and read2: "log_readable f2 = log_readable f1"
    and d: "json_get (lit ''kind'') d = Str DELIVERED_KIND" "json_get (lit ''thread_id'') d = Str ?t" "record_id d = Some i"
    by (rule mark_delivered_rows [OF assms(3) sorted(2,1)])
  have kinds: "RETREAT_KIND \<noteq> DELIVERED_KIND" by (simp add: RETREAT_KIND_def DELIVERED_KIND_def)
  have new: "i \<notin> snd (scan_retreats t ?rows None {})" for t
  proof
    assume "i \<in> snd (scan_retreats t ?rows None {})"
    then obtain x where "x \<in> set ?rows" "the (record_id x) = i" using delivered_ids [of t ?rows None "{}"] by auto
    then have "record_id x = Some i" using key_some [of x record_id f] by auto
    then show False using assms(2) i \<open>x \<in> set ?rows\<close> by force
  qed
  show ?thesis
  proof (cases "log_readable f")
    case False
    then show ?thesis using read1 read2 pending_unread by simp
  next
    case True
    then have r1: "log_readable f1" and r2: "log_readable f2" using read1 read2 by simp_all
    have "pending_record f1 ?t = Inr (Some (sort_keys r))"
      using new [of ?t] sorted by (cases "scan_retreats ?t ?rows None {}") (simp add: pending_append [OF rows1 r1])
    moreover have "pending_record f2 ?t = Inr None"
      using sorted d kinds
      by (cases "scan_retreats ?t ?rows None {}") (simp add: pending_append [OF rows2 r2] rows1 scan_retreats_append)
    moreover have "pending_record f2 t = pending_record f t" if "t \<noteq> ?t" for t
      using sorted d that True
      by (cases "scan_retreats t ?rows None {}")
        (simp add: pending_append [OF rows2 r2] rows1 scan_retreats_append pending_record_def [of f] read_log_def)
    ultimately show ?thesis using True by auto
  qed
qed

definition sample_retreat :: retreat_result where
  "sample_retreat = \<lparr>retreat_outcome = Retreated, retreat_thread = lit ''T'', retreat_branch = Some (lit ''wip/T''),
     retreat_pushed = Some True, retreat_files = Some 2, retreat_insertions = Some 5, retreat_deletions = None,
     retreat_patch = None, retreat_untracked = None, retreat_marker = None, retreat_detail = []\<rparr>"

definition sample_retreat_row :: row where
  "sample_retreat_row = the (build_record sample_retreat (lit ''/r'') [] [] (lit ''now'') (lit ''ab''))"

lemma sample_retreat_built:
  "build_record sample_retreat (lit ''/r'') [] [] (lit ''now'') (lit ''ab'') = Some sample_retreat_row"
  by (simp add: sample_retreat_row_def build_record_def sample_retreat_def retreat_value_def NO_OP_OUTCOMES_def Let_def)

lemma sample_row_eq:
  "sample_retreat_row =
     [(lit ''kind'', Str (lit ''retreat'')), (lit ''record_id'', Str (lit ''T@now#ab'')), (lit ''at'', Str (lit ''now'')),
      (lit ''thread_id'', Str (lit ''T'')), (lit ''repo_dir'', Str (lit ''/r'')), (lit ''head_msg'', Str (lit ''-'')),
      (lit ''stop_reason'', Str (lit ''-'')), (lit ''outcome'', Str (lit ''retreated'')), (lit ''pushed'', Bool True),
      (lit ''branch'', Str (lit ''wip/T'')), (lit ''files'', Number 2), (lit ''insertions'', Number 5),
      (lit ''deletions'', Null), (lit ''patch'', Null), (lit ''untracked'', Null), (lit ''marker'', Null),
      (lit ''detail'', Str [])]"
  by (simp add: sample_retreat_row_def build_record_def sample_retreat_def retreat_value_def NO_OP_OUTCOMES_def Let_def
      RETREAT_KIND_def opt_json_def dash_def lit_append [symmetric])

lemma sample_rows_writable:
  "writable sample_retreat_row" "short_numerals sample_retreat_row"
  by (simp_all add: writable_iff sample_row_eq scalar_lit short_numerals_def decimal.simps [of 2] decimal.simps [of 5])

definition sample_log :: log_file where
  "sample_log = add_line True (row_line sample_retreat_row) None"

definition sample_mark :: row where
  "sample_mark = [(lit ''kind'', Str (lit ''delivered'')), (lit ''record_id'', Str (lit ''T@now#ab'')),
     (lit ''thread_id'', Str (lit ''T'')), (lit ''at'', Str (lit ''later'')), (lit ''role'', Str (lit ''implementer''))]"

lemma sample_recorded:
  "record_result sample_retreat (lit ''/r'') [] [] (lit ''now'') (lit ''ab'') None = (Inr (Some sample_retreat_row), sample_log)"
  using sample_rows_writable
  by (simp add: record_result_def sample_retreat_built write_row_def act_simps sample_log_def)

lemma sample_marked:
  "mark_delivered (sort_keys sample_retreat_row) (lit ''implementer'') (lit ''later'') sample_log =
     (Inr (), add_line True (row_line sample_mark) sample_log)"
proof -
  have d: "distinct (map fst sample_retreat_row)" by (simp add: sample_row_eq)
  have "json_get (lit ''record_id'') (sort_keys sample_retreat_row) = Str (lit ''T@now#ab'')"
    "json_get (lit ''thread_id'') (sort_keys sample_retreat_row) = Str (lit ''T'')"
    unfolding get_sorted [OF d] by (simp_all add: sample_row_eq json_get_Cons)
  moreover have "writable sample_mark" "short_numerals sample_mark"
    by (simp_all add: writable_iff sample_mark_def scalar_lit short_numerals_def)
  ultimately show ?thesis
    by (simp add: mark_delivered_def write_row_def act_simps sample_mark_def DELIVERED_KIND_def)
qed

lemma retreat_reaches_one_turn_witness:
  "pending_record sample_log (lit ''T'') = Inr (Some (sort_keys sample_retreat_row)) \<and>
   pending_record (add_line True (row_line sample_mark) sample_log) (lit ''T'') = Inr None"
  using retreat_reaches_one_turn [OF sample_recorded _ sample_marked]
  by (simp add: log_rows_def log_lines_def log_readable_def text_lines_def contents_def map_filter_def sample_retreat_def)

end
