(* ===== verification/TierC.thy ===== *)
theory TierC
  imports Ledgers "HOL-Library.Multiset"
begin

text \<open>
  The Tier-C gate: which requests to the human are admitted (\<open>tier_c_admission_gate.py\<close>), the log of its
  decisions (\<open>tier_c_decisions_log.py\<close>) and the admission over that log (\<open>conductor/tierc_gate.py\<close>).
  \<open>lo\<close> is \<open>str.lower\<close>.
\<close>

section \<open>The lines a body may carry\<close>

definition blanks :: rx where "blanks = star (any_of [32, 9])"

definition retry_line_re :: rx where
  "retry_line_re = seqs [line_start, blanks, text_rx ''RETRY:'', blanks, Grp ''uuid'' (plus non_space),
     blanks, opt (chr 13), line_end]"

text \<open>A letter under \<open>IGNORECASE\<close>, which adds the long s and the Kelvin sign.\<close>

definition letter_i :: "nat \<Rightarrow> bool" where
  "letter_i c \<longleftrightarrow> ascii_letter c \<or> c = 383 \<or> c = 8490"

definition label_line_re :: rx where
  "label_line_re = seqs [line_start, blanks, itext_rx ''TIER-C:'', blanks,
     Grp ''label'' (alts [seqs [itext_rx ''other:'', star (Test (\<lambda>c. c \<noteq> 13 \<and> c \<noteq> 10))],
                          itext_rx ''unsure:goal?'',
                          Seq (Test letter_i) (star (Test (\<lambda>c. letter_i c \<or> 48 \<le> c \<and> c \<le> 57 \<or> c = 95 \<or> c = 45)))]),
     blanks, opt (chr 13), line_end]"

definition extract_retry_uuid :: "pystr \<Rightarrow> pystr option" where
  "extract_retry_uuid body = map_option (\<lambda>m. group m ''uuid'') (rx_search retry_line_re body)"

definition extract_label :: "(pystr \<Rightarrow> pystr) \<Rightarrow> pystr \<Rightarrow> pystr option" where
  "extract_label lo body =
     (case rx_search label_line_re body of
        None \<Rightarrow> None
      | Some m \<Rightarrow>
          (let raw = group m ''label'' in
           if startswith (lo raw) (lit ''other:'') then Some (lit ''other:'' @ strip (drop 6 raw)) else Some (lo raw)))"

section \<open>The admission\<close>

datatype tierc_verdict = Admitted | Bounced

datatype log_kind = Decided_entry | Deferred_entry | Bounced_entry | Label_migration | Admit_unsure | Retry_admit

definition kind_value :: "log_kind \<Rightarrow> pystr" where
  "kind_value k = (case k of Decided_entry \<Rightarrow> lit ''DECIDED'' | Deferred_entry \<Rightarrow> lit ''DEFERRED''
     | Bounced_entry \<Rightarrow> lit ''BOUNCED'' | Label_migration \<Rightarrow> lit ''LABEL_MIGRATION''
     | Admit_unsure \<Rightarrow> lit ''ADMIT_UNSURE'' | Retry_admit \<Rightarrow> lit ''RETRY_ADMIT'')"

datatype retry_reason = Label_corrected | Unsure_after_retry | Second_time

definition retry_reason_value :: "retry_reason \<Rightarrow> pystr" where
  "retry_reason_value r = (case r of Label_corrected \<Rightarrow> lit ''label_corrected''
     | Unsure_after_retry \<Rightarrow> lit ''unsure_after_retry'' | Second_time \<Rightarrow> lit ''second_time_force_admit'')"

datatype bounce_reason =
  No_label | Other_not_admitted | Release_needs_choice | Unknown_label | Merge_is_not_tier_c | Jev_likely_not

definition bounce_reason_value :: "bounce_reason \<Rightarrow> pystr" where
  "bounce_reason_value r = (case r of No_label \<Rightarrow> lit ''no-label'' | Other_not_admitted \<Rightarrow> lit ''other-not-admitted''
     | Release_needs_choice \<Rightarrow> lit ''release-cross-repo-needs-author-choice'' | Unknown_label \<Rightarrow> lit ''unknown-label''
     | Merge_is_not_tier_c \<Rightarrow> lit ''merge-is-not-tier-c'' | Jev_likely_not \<Rightarrow> lit ''jev-likely-not'')"

definition ADMIT_LABELS :: "pystr set" where
  "ADMIT_LABELS = {lit ''goal'', lit ''cost'', lit ''irreversible''}"

definition MERGE_LABEL :: pystr where "MERGE_LABEL = lit ''merge-protected''"

definition LEGACY_LABEL_MAP :: "pystr \<rightharpoonup> pystr" where
  "LEGACY_LABEL_MAP = [lit ''scope'' \<mapsto> lit ''goal'', lit ''billing'' \<mapsto> lit ''cost'']"

definition UNSURE_LABEL :: pystr where "UNSURE_LABEL = lit ''unsure:goal?''"
definition RELEASE_CROSS_REPO_LABEL :: pystr where "RELEASE_CROSS_REPO_LABEL = lit ''release-cross-repo''"

definition RELEASE_CROSS_REPO_HINT :: pystr where
  "RELEASE_CROSS_REPO_HINT = lit ''choose irreversible (public release); a merge or a protected-branch deploy is requested by its PR and is not a Tier-C escalation''"

record log_entry =
  entry_kind :: log_kind
  payload :: row

text \<open>The decision; the hint of a bounce is a text of its reason.\<close>

record tierc_decision =
  tierc_verdict :: tierc_verdict
  tierc_rule :: pystr
  bounce_reason :: "bounce_reason option"
  normalized_label :: "pystr option"
  log_entries :: "log_entry list"

definition entry_of :: "pystr \<Rightarrow> pystr \<Rightarrow> log_kind \<Rightarrow> row \<Rightarrow> log_entry" where
  "entry_of ts author k extra =
     \<lparr>entry_kind = k, payload = [(lit ''ts'', Str ts), (lit ''author'', Str author)] @ extra\<rparr>"

definition admit_with :: "string \<Rightarrow> pystr option \<Rightarrow> log_entry list \<Rightarrow> tierc_decision" where
  "admit_with rl label es =
     \<lparr>tierc_verdict = Admitted, tierc_rule = lit rl, bounce_reason = None, normalized_label = label, log_entries = es\<rparr>"

definition bounce_with :: "pystr \<Rightarrow> pystr \<Rightarrow> string \<Rightarrow> bounce_reason \<Rightarrow> row \<Rightarrow> tierc_decision" where
  "bounce_with ts author rl why extra =
     \<lparr>tierc_verdict = Bounced, tierc_rule = lit rl, bounce_reason = Some why, normalized_label = None,
      log_entries = [entry_of ts author Bounced_entry ((lit ''reason'', Str (bounce_reason_value why)) # extra)]\<rparr>"

text \<open>A retry of a bounce is admitted whatever its label.\<close>

definition admit_retry :: "pystr \<Rightarrow> pystr \<Rightarrow> pystr option \<Rightarrow> pystr \<Rightarrow> tierc_decision" where
  "admit_retry ts author label uuid =
     (let migrated = (case label of None \<Rightarrow> None | Some l \<Rightarrow> LEGACY_LABEL_MAP l);
          normalized = (if migrated \<noteq> None then migrated else label);
          migration = (case (label, migrated) of
            (Some l, Some to) \<Rightarrow>
              [entry_of ts author Label_migration
                 [(lit ''from'', Str l), (lit ''to'', Str to), (lit ''via'', Str (lit ''retry'')), (lit ''retry_uuid'', Str uuid)]]
          | _ \<Rightarrow> []);
          why = (case normalized of
            None \<Rightarrow> Second_time
          | Some n \<Rightarrow> if n \<in> ADMIT_LABELS then Label_corrected
                     else if n = UNSURE_LABEL then Unsure_after_retry else Second_time)
      in \<lparr>tierc_verdict = Admitted, tierc_rule = lit ''R0-RETRY:'' @ retry_reason_value why, bounce_reason = None,
          normalized_label = normalized,
          log_entries = migration @
            [entry_of ts author Retry_admit
               [(lit ''reason'', Str (retry_reason_value why)), (lit ''retry_uuid'', Str uuid),
                (lit ''label'', opt_json Str label), (lit ''normalized_label'', opt_json Str normalized)]]\<rparr>)"

definition decide_label :: "pystr \<Rightarrow> pystr \<Rightarrow> pystr option \<Rightarrow> pystr \<Rightarrow> tierc_decision" where
  "decide_label ts author label bounce_uuid =
     (let tagged = (\<lambda>shown. [(lit ''label'', shown), (lit ''retry_uuid'', Str bounce_uuid)]) in
      case label of
        None \<Rightarrow> bounce_with ts author ''R1-no-label'' No_label (tagged Null)
      | Some l \<Rightarrow>
          if l = MERGE_LABEL then bounce_with ts author ''R1-merge-not-tier-c'' Merge_is_not_tier_c (tagged (Str l))
          else if l \<in> ADMIT_LABELS then admit_with ''R1-admit'' (Some l) []
          else if l = UNSURE_LABEL
          then admit_with ''R1-admit-unsure'' (Some l) [entry_of ts author Admit_unsure [(lit ''label'', Str l)]]
          else if startswith l (lit ''other:'')
          then bounce_with ts author ''R1-other-not-admitted'' Other_not_admitted (tagged (Str l))
          else (case LEGACY_LABEL_MAP l of
              Some to \<Rightarrow> admit_with ''R1-legacy-migration'' (Some to)
                [entry_of ts author Label_migration
                   [(lit ''from'', Str l), (lit ''to'', Str to), (lit ''via'', Str (lit ''main''))]]
            | None \<Rightarrow>
                if l = RELEASE_CROSS_REPO_LABEL
                then bounce_with ts author ''R1-release-cross-repo'' Release_needs_choice
                       [(lit ''label'', Str l), (lit ''hint'', Str RELEASE_CROSS_REPO_HINT), (lit ''retry_uuid'', Str bounce_uuid)]
                else bounce_with ts author ''R1-unknown-label'' Unknown_label (tagged (Str l))))"

text \<open>The lookup of a bounce is asked for a body with a \<open>RETRY:\<close> line only; \<open>None\<close> is the \<open>ValueError\<close> it raised.\<close>

definition decide_admission ::
    "(pystr \<Rightarrow> pystr) \<Rightarrow> pystr \<Rightarrow> pystr \<Rightarrow> (pystr \<Rightarrow> pystr \<Rightarrow> bool option) \<Rightarrow> pystr \<Rightarrow> pystr \<Rightarrow> tierc_decision option" where
  "decide_admission lo body author retry_lookup ts bounce_uuid =
     (let label = extract_label lo body in
      case extract_retry_uuid body of
        Some uuid \<Rightarrow>
          map_option (\<lambda>bounced. if bounced then admit_retry ts author label uuid
                                else decide_label ts author label bounce_uuid) (retry_lookup uuid author)
      | None \<Rightarrow> Some (decide_label ts author label bounce_uuid))"

section \<open>The log\<close>

definition dict_update :: "row \<Rightarrow> row \<Rightarrow> row" where
  "dict_update d es = foldl (\<lambda>d (k, v). dict_set k v d) d es"

definition entry_to_dict :: "log_entry \<Rightarrow> pystr option \<Rightarrow> pystr option \<Rightarrow> row" where
  "entry_to_dict e thread msg_id =
     dict_update ((lit ''kind'', Str (kind_value (entry_kind e))) #
                  (case thread of None \<Rightarrow> [] | Some t \<Rightarrow> [(lit ''thread'', Str t)]) @
                  (case msg_id of None \<Rightarrow> [] | Some m \<Rightarrow> [(lit ''msg_id'', Str m)])) (payload e)"

definition append_log_entry ::
    "pystr option \<Rightarrow> pystr option \<Rightarrow> log_entry \<Rightarrow> (log_file, log_error, unit) act" where
  "append_log_entry thread msg_id e = write_row False (entry_to_dict e thread msg_id)"

fun append_log_entries ::
    "pystr option \<Rightarrow> pystr option \<Rightarrow> log_entry list \<Rightarrow> (log_file, log_error, unit) act" where
  "append_log_entries thread msg_id [] = ret ()"
| "append_log_entries thread msg_id (e # es) =
     andthen (append_log_entry thread msg_id e) (\<lambda>_. append_log_entries thread msg_id es)"

definition object_rows :: "log_file \<Rightarrow> row list" where
  "object_rows f = List.map_filter (\<lambda>line. json_row (strip line)) (log_lines f)"

text \<open>Lines that are not JSON are skipped; \<open>None\<close> is the plain \<open>ValueError\<close> of a numeral that is too long.\<close>

definition rows_readable :: "log_file \<Rightarrow> bool" where
  "rows_readable f \<longleftrightarrow> list_all (\<lambda>l. \<not> value_error (strip l)) (log_lines f)"

definition iter_rows :: "log_file \<Rightarrow> row list option" where
  "iter_rows f = (if rows_readable f then Some (object_rows f) else None)"

fun unredeemed :: "pystr \<Rightarrow> pystr \<Rightarrow> row list \<Rightarrow> bool \<Rightarrow> bool" where
  "unredeemed uuid author [] bounced = bounced"
| "unredeemed uuid author (r # rs) bounced =
     (if json_get (lit ''retry_uuid'') r \<noteq> Str uuid \<or> json_get (lit ''author'') r \<noteq> Str author
      then unredeemed uuid author rs bounced
      else if json_get (lit ''kind'') r = Str (kind_value Bounced_entry) then unredeemed uuid author rs True
      else if json_get (lit ''kind'') r = Str (kind_value Retry_admit) then unredeemed uuid author rs False
      else unredeemed uuid author rs bounced)"

definition retry_lookup :: "log_file \<Rightarrow> pystr \<Rightarrow> pystr \<Rightarrow> bool option" where
  "retry_lookup f uuid author = map_option (\<lambda>rows. unredeemed uuid author rows False) (iter_rows f)"

text \<open>\<open>TierCGate.admit\<close>; the fresh uuid is an argument.\<close>

definition admit_head ::
    "(pystr \<Rightarrow> pystr) \<Rightarrow> pystr \<Rightarrow> pystr \<Rightarrow> pystr \<Rightarrow> pystr \<Rightarrow> pystr \<Rightarrow> pystr \<Rightarrow>
     (log_file, log_error, tierc_decision) act" where
  "admit_head lo body author thread msg_id ts fresh =
     andthen (gets (\<lambda>f. decide_admission lo body author (retry_lookup f) ts fresh)) (\<lambda>decided.
     case decided of
       None \<Rightarrow> raise Unread_numeral
     | Some d \<Rightarrow>
         andthen (append_log_entries (Some thread) (Some msg_id) (log_entries d)) (\<lambda>_.
         ret d))"

definition bounce_retry_uuid :: "tierc_decision \<Rightarrow> json option" where
  "bounce_retry_uuid d =
     (if tierc_verdict d \<noteq> Bounced then None
      else map_option (\<lambda>e. json_get (lit ''retry_uuid'') (payload e)) (find (\<lambda>e. entry_kind e = Bounced_entry) (log_entries d)))"

section \<open>A bounce and its retry\<close>

lemma unredeemed_append: "unredeemed u a (rs @ ss) b = unredeemed u a ss (unredeemed u a rs b)"
  by (induction u a rs b rule: unredeemed.induct) auto

lemma entry_distinct: "distinct (map fst (entry_to_dict e thread msg_id))"
proof -
  have "distinct (map fst (dict_update d es))" if "distinct (map fst d)" for d es
    using that by (induction es arbitrary: d) (auto simp: dict_update_def distinct_dict_set split: prod.split)
  then show ?thesis by (simp add: entry_to_dict_def split: option.split)
qed

lemma strip_row_line: "strip (row_line r) = row_line r"
proof -
  have "hd (row_line r) = 123" "last (row_line r) = 125" by (simp_all add: row_line_def dumps_line_def)
  then show ?thesis by (intro strip_fixed) (simp_all add: is_space_def)
qed

lemma iter_rows_Some: "iter_rows f = Some rows \<longleftrightarrow> rows_readable f \<and> rows = object_rows f"
  by (auto simp: iter_rows_def)

lemma write_plain:
  assumes "write_row False r f = (Inr u, f')" and "ends_line f" and "distinct (map fst r)"
  shows "iter_rows f' = map_option (\<lambda>rows. rows @ [sort_keys r]) (iter_rows f)" "ends_line f'"
proof -
  have w: "f' = add_line False (row_line r) f" "writable r"
    using assms(1) by (auto simp: write_row_def act_simps andthen_def modify_def raise_def split: if_splits)
  then show "iter_rows f' = map_option (\<lambda>rows. rows @ [sort_keys r]) (iter_rows f)"
    using assms(2)
    by (simp add: iter_rows_def rows_readable_def object_rows_def log_lines_add map_filter_def strip_row_line json_row_line
        row_line_readable)
  show "ends_line f'" by (simp add: w(1) add_line_def ends_line_def contents_def)
qed

lemma append_entries_rows:
  assumes "append_log_entries thread msg_id es f = (Inr u, f')" and "ends_line f"
  shows "iter_rows f' = map_option (\<lambda>rows. rows @ map (\<lambda>e. sort_keys (entry_to_dict e thread msg_id)) es) (iter_rows f) \<and>
    ends_line f'"
  using assms
proof (induction thread msg_id es arbitrary: f rule: append_log_entries.induct)
  case (1 thread msg_id)
  then show ?case by (simp add: ret_def option.map_ident)
next
  case (2 thread msg_id e es)
  obtain f1 where f1: "append_log_entry thread msg_id e f = (Inr (), f1)"
    "append_log_entries thread msg_id es f1 = (Inr u, f')"
    using "2.prems"(1) by (auto simp: andthen_eq_Inr_iff)
  have one: "iter_rows f1 = map_option (\<lambda>rows. rows @ [sort_keys (entry_to_dict e thread msg_id)]) (iter_rows f)" "ends_line f1"
    using write_plain [OF _ "2.prems"(2) entry_distinct] f1(1) by (auto simp: append_log_entry_def)
  then show ?case using "2.IH" [OF f1(2) one(2)] by (cases "iter_rows f") simp_all
qed

lemma entry_get:
  "json_get k (sort_keys (entry_to_dict e thread msg_id)) = json_get k (entry_to_dict e thread msg_id)"
  by (rule get_sorted [OF entry_distinct])

lemmas entry_simps = entry_to_dict_def dict_update_def entry_of_def json_get_Cons kind_value_def

text \<open>An entry about a uuid of an author, as a row of the log.\<close>

definition tells_of :: "log_kind \<Rightarrow> pystr \<Rightarrow> pystr \<Rightarrow> log_entry \<Rightarrow> bool" where
  "tells_of k uuid author e \<longleftrightarrow> (\<forall>t m. let r = entry_to_dict e (Some t) (Some m) in
     json_get (lit ''retry_uuid'') r = Str uuid \<and> json_get (lit ''author'') r = Str author \<and>
     json_get (lit ''kind'') r = Str (kind_value k))"

lemma unredeemed_entry:
  assumes "tells_of k uuid author e"
  shows "unredeemed uuid author [sort_keys (entry_to_dict e (Some t) (Some m))] b =
    (if k = Bounced_entry then True else if k = Retry_admit then False else b)"
  using assms by (cases k) (simp_all add: tells_of_def Let_def entry_get kind_value_def)

definition bounces_as :: "pystr \<Rightarrow> pystr \<Rightarrow> tierc_decision \<Rightarrow> bool" where
  "bounces_as fresh author d \<longleftrightarrow> (\<exists>e. log_entries d = [e] \<and> entry_kind e = Bounced_entry \<and>
     json_get (lit ''retry_uuid'') (payload e) = Str fresh \<and> tells_of Bounced_entry fresh author e)"

lemma bounce_with_tells:
  "bounces_as fresh author (bounce_with ts author rl why [(lit ''label'', x), (lit ''retry_uuid'', Str fresh)])"
  "bounces_as fresh author
     (bounce_with ts author rl why [(lit ''label'', x), (lit ''hint'', y), (lit ''retry_uuid'', Str fresh)])"
  by (simp_all add: bounces_as_def bounce_with_def tells_of_def Let_def entry_simps)

definition if_bounced :: "pystr \<Rightarrow> pystr \<Rightarrow> tierc_decision \<Rightarrow> bool" where
  "if_bounced fresh author d \<longleftrightarrow> (tierc_verdict d = Bounced \<longrightarrow> bounces_as fresh author d)"

lemma if_bounced_intros:
  "if_bounced fresh author (bounce_with ts author rl why [(lit ''label'', x), (lit ''retry_uuid'', Str fresh)])"
  "if_bounced fresh author
     (bounce_with ts author rl why [(lit ''label'', x), (lit ''hint'', y), (lit ''retry_uuid'', Str fresh)])"
  "if_bounced fresh author (admit_with rl l es)"
  "if_bounced fresh author d \<Longrightarrow> if_bounced fresh author d' \<Longrightarrow> if_bounced fresh author (if b then d else d')"
  "if_bounced fresh author d \<Longrightarrow> (\<And>x. if_bounced fresh author (g x)) \<Longrightarrow>
     if_bounced fresh author (case v of None \<Rightarrow> d | Some x \<Rightarrow> g x)"
  by (auto simp: if_bounced_def bounce_with_tells admit_with_def split: option.split)

lemma bounce_entry:
  "tierc_verdict (decide_label ts author label fresh) = Bounced \<Longrightarrow> bounces_as fresh author (decide_label ts author label fresh)"
proof -
  have "if_bounced fresh author (decide_label ts author label fresh)"
    unfolding decide_label_def Let_def by (intro if_bounced_intros)
  then show "tierc_verdict (decide_label ts author label fresh) = Bounced \<Longrightarrow>
      bounces_as fresh author (decide_label ts author label fresh)"
    by (simp add: if_bounced_def)
qed

lemma retry_entries:
  obtains es e where "tierc_verdict (admit_retry ts author label uuid) = Admitted"
    "log_entries (admit_retry ts author label uuid) = es @ [e]" "tells_of Retry_admit uuid author e"
proof -
  have "\<exists>es w x y. log_entries (admit_retry ts author label uuid) = es @ [entry_of ts author Retry_admit
      [(lit ''reason'', w), (lit ''retry_uuid'', Str uuid), (lit ''label'', x), (lit ''normalized_label'', y)]]"
    unfolding admit_retry_def Let_def tierc_decision.simps by blast
  moreover have "tells_of Retry_admit uuid author (entry_of ts author Retry_admit
      [(lit ''reason'', w), (lit ''retry_uuid'', Str uuid), (lit ''label'', x), (lit ''normalized_label'', y)])" for w x y
    by (simp add: tells_of_def Let_def entry_simps)
  moreover have "tierc_verdict (admit_retry ts author label uuid) = Admitted" by (simp add: admit_retry_def Let_def)
  ultimately show ?thesis using that by blast
qed

lemma admit_head_Inr:
  assumes "admit_head lo body author thread msg ts fresh f = (Inr d, f')"
  shows "decide_admission lo body author (retry_lookup f) ts fresh = Some d"
    "append_log_entries (Some thread) (Some msg) (log_entries d) f = (Inr (), f')"
  using assms by (auto simp: admit_head_def andthen_eq_Inr_iff gets_def ret_def raise_def split: option.splits)

text \<open>C5. A bounce can be redeemed exactly once: the notice names the uuid of its row, from then on the author's \<open>RETRY:\<close>
  of that uuid is admitted whatever label it carries, and after one such admission the uuid is spent.\<close>

theorem bounce_redeemed_once:
  assumes "ends_line f" and "\<not> (\<exists>u. extract_retry_uuid body = Some u \<and> retry_lookup f u author = Some True)"
    and "admit_head lo body author thread msg ts fresh f = (Inr d, f1)" and "tierc_verdict d = Bounced"
    and "extract_retry_uuid body2 = Some fresh"
    and "admit_head lo body2 author thread2 msg2 ts2 fresh2 f1 = (Inr d2, f2)"
  shows "bounce_retry_uuid d = Some (Str fresh) \<and> retry_lookup f1 fresh author = Some True \<and>
    tierc_verdict d2 = Admitted \<and> retry_lookup f2 fresh author = Some False"
proof -
  have d: "d = decide_label ts author (extract_label lo body) fresh"
    and app: "append_log_entries (Some thread) (Some msg) (log_entries d) f = (Inr (), f1)"
    using admit_head_Inr [OF assms(3)] assms(2) by (auto simp: decide_admission_def Let_def split: option.splits if_splits)
  obtain e where e: "log_entries d = [e]" "entry_kind e = Bounced_entry" "json_get (lit ''retry_uuid'') (payload e) = Str fresh"
    "tells_of Bounced_entry fresh author e"
    using bounce_entry [of ts author "extract_label lo body" fresh] assms(4) unfolding d bounces_as_def by blast
  have rows1: "iter_rows f1 = map_option (\<lambda>rows. rows @ [sort_keys (entry_to_dict e (Some thread) (Some msg))]) (iter_rows f)"
      "ends_line f1"
    using append_entries_rows [OF app assms(1)] e(1) by simp_all
  have asked: "retry_lookup f1 fresh author \<noteq> None"
    using admit_head_Inr(1) [OF assms(6)] assms(5) by (auto simp: decide_admission_def Let_def)
  then obtain rows where rows: "iter_rows f = Some rows"
    using rows1(1) by (auto simp: retry_lookup_def)
  have look1: "retry_lookup f1 fresh author = Some True"
    by (simp add: retry_lookup_def rows1 rows unredeemed_append unredeemed_entry [OF e(4)] del: unredeemed.simps)
  then have d2: "d2 = admit_retry ts2 author (extract_label lo body2) fresh"
    and app2: "append_log_entries (Some thread2) (Some msg2) (log_entries d2) f1 = (Inr (), f2)"
    using admit_head_Inr [OF assms(6)] assms(5) by (auto simp: decide_admission_def Let_def)
  obtain es e2 where r: "tierc_verdict d2 = Admitted" "log_entries d2 = es @ [e2]" "tells_of Retry_admit fresh author e2"
    unfolding d2 by (rule retry_entries)
  have "\<exists>before. iter_rows f2 = Some (before @ [sort_keys (entry_to_dict e2 (Some thread2) (Some msg2))])"
    using append_entries_rows [OF app2 rows1(2)] by (simp add: rows1 rows r(2))
  then have "retry_lookup f2 fresh author = Some False"
    by (auto simp: retry_lookup_def unredeemed_append unredeemed_entry [OF r(3)] simp del: unredeemed.simps)
  then show ?thesis using look1 e(1-3) r(1) assms(4) by (simp add: bounce_retry_uuid_def)
qed

definition sample_bounce :: row where
  "sample_bounce = [(lit ''kind'', Str (lit ''BOUNCED'')), (lit ''thread'', Str (lit ''T'')), (lit ''msg_id'', Str (lit ''m1'')),
     (lit ''ts'', Str (lit ''t1'')), (lit ''author'', Str (lit ''a'')), (lit ''reason'', Str (lit ''no-label'')),
     (lit ''label'', Null), (lit ''retry_uuid'', Str (lit ''u1''))]"

definition sample_redeem :: row where
  "sample_redeem = [(lit ''kind'', Str (lit ''RETRY_ADMIT'')), (lit ''thread'', Str (lit ''T'')), (lit ''msg_id'', Str (lit ''m2'')),
     (lit ''ts'', Str (lit ''t2'')), (lit ''author'', Str (lit ''a'')), (lit ''reason'', Str (lit ''second_time_force_admit'')),
     (lit ''retry_uuid'', Str (lit ''u1'')), (lit ''label'', Null), (lit ''normalized_label'', Null)]"

definition bounced_log :: log_file where "bounced_log = add_line False (row_line sample_bounce) None"

lemma samples_writable:
  "writable sample_bounce" "short_numerals sample_bounce" "writable sample_redeem" "short_numerals sample_redeem"
  by (simp_all add: writable_iff sample_bounce_def sample_redeem_def scalar_lit short_numerals_def)

lemma blank_body: "extract_retry_uuid [] = None" "extract_label lo [] = None"
  by (simp_all add: extract_retry_uuid_def extract_label_def retry_line_re_def label_line_re_def regex_simps seqs_def
      blanks_def star_def line_start_def text_rx_def itext_rx_def chr_def)

lemma redeem_body: "extract_retry_uuid (lit ''RETRY: u1'') = Some (lit ''u1'')" "extract_label lo (lit ''RETRY: u1'') = None"
  by (simp_all add: extract_retry_uuid_def extract_label_def retry_line_re_def label_line_re_def regex_simps seqs_def
      blanks_def star_def line_start_def text_rx_def itext_rx_def chr_def lit_Cons any_of_def plus_def non_space_def
      is_space_def opt_def line_end_def folds_to_def ascii_lower_def)

lemma sample_bounced:
  "admit_head id [] (lit ''a'') (lit ''T'') (lit ''m1'') (lit ''t1'') (lit ''u1'') None =
     (Inr (decide_label (lit ''t1'') (lit ''a'') None (lit ''u1'')), bounced_log)"
  using samples_writable(1,2)
  by (simp add: admit_head_def act_simps decide_admission_def blank_body decide_label_def Let_def bounce_with_def
      bounce_reason_value_def append_log_entry_def entry_simps sample_bounce_def write_row_def bounced_log_def)

lemma empty_log_rows: "iter_rows None = Some []"
  by (simp add: iter_rows_def rows_readable_def object_rows_def log_lines_def text_lines_def contents_def map_filter_def)

lemma bounced_log_rows: "iter_rows bounced_log = Some [sort_keys sample_bounce]"
  using write_plain [of sample_bounce None "()" bounced_log] samples_writable(1,2)
  by (simp add: write_row_def act_simps bounced_log_def ends_line_def contents_def sample_bounce_def empty_log_rows)

lemma sample_lookup: "retry_lookup bounced_log (lit ''u1'') (lit ''a'') = Some True"
proof -
  have d: "distinct (map fst sample_bounce)" by (simp add: sample_bounce_def)
  show ?thesis
    by (simp add: retry_lookup_def bounced_log_rows get_sorted [OF d])
      (simp add: sample_bounce_def json_get_Cons kind_value_def)
qed

lemma sample_redeemed:
  "admit_head id (lit ''RETRY: u1'') (lit ''a'') (lit ''T'') (lit ''m2'') (lit ''t2'') (lit ''u2'') bounced_log =
     (Inr (admit_retry (lit ''t2'') (lit ''a'') None (lit ''u1'')), add_line False (row_line sample_redeem) bounced_log)"
  using samples_writable(3,4) sample_lookup
  by (simp add: admit_head_def act_simps decide_admission_def redeem_body admit_retry_def Let_def
      retry_reason_value_def append_log_entry_def entry_simps sample_redeem_def write_row_def opt_json_def)

lemma bounce_redeemed_once_witness:
  "retry_lookup bounced_log (lit ''u1'') (lit ''a'') = Some True \<and>
   retry_lookup (add_line False (row_line sample_redeem) bounced_log) (lit ''u1'') (lit ''a'') = Some False"
proof -
  have "tierc_verdict (decide_label (lit ''t1'') (lit ''a'') None (lit ''u1'')) = Bounced"
    by (simp add: decide_label_def Let_def bounce_with_def)
  moreover have "ends_line None" by (simp add: ends_line_def contents_def)
  moreover have "\<not> (\<exists>u. extract_retry_uuid [] = Some u \<and> retry_lookup None u (lit ''a'') = Some True)" by (simp add: blank_body)
  ultimately show ?thesis
    using bounce_redeemed_once [OF _ _ sample_bounced _ redeem_body(1) sample_redeemed] by simp
qed

end
