(* ===== verification/DecisionLog.thy ===== *)
theory DecisionLog
  imports TierC
begin

text \<open>
  The decisions the roles write into their posts: the lines (\<open>tier_c_decisions_log.py\<close>), the step of the
  conductor that copies each of them to the log once (\<open>Conductor._record_decision_lines\<close>), and the audit that
  compares the posts of a thread with the log (\<open>decision_log_audit.py\<close>). A \<open>Counter\<close> is a multiset. \<open>rp\<close> is
  \<open>str\<close> of a float, a list or a dictionary. The name and the status of a thread, which the audit only repeats,
  are left out.
\<close>

section \<open>Decision lines\<close>

definition DECISION_LOG_AUTHOR_ROLES :: "role set" where
  "DECISION_LOG_AUTHOR_ROLES = {Proposer, Implementer}"

definition decision_line_re :: rx where
  "decision_line_re = seqs [blanks, Grp ''kind'' (alts [text_rx ''DECIDED'', text_rx ''DEFERRED'']), chr 58,
     Grp ''rest'' (star dot), text_end]"

definition decision_fence_re :: rx where
  "decision_fence_re = seqs [blanks, alts [seqs [chr 96, chr 96, chr 96], text_rx ''~~~'']]"

record decision_line =
  line_kind :: log_kind
  what :: pystr
  why :: pystr

record decision_scan =
  decided :: "decision_line list"
  malformed_lines :: "pystr list"

text \<open>One line outside a fence: nothing, a malformed line, or a decision.\<close>

definition read_decision :: "pystr \<Rightarrow> (pystr + decision_line) option" where
  "read_decision raw =
     (case rx_match decision_line_re raw of
        None \<Rightarrow> None
      | Some m \<Rightarrow>
          (let (w, sep, r) = partition (group m ''rest'') [8212]; w = strip w; r = strip r in
           if \<not> sep \<or> w = [] \<or> r = [] then Some (Inl (strip raw))
           else Some (Inr \<lparr>line_kind = (if group m ''kind'' = lit ''DECIDED'' then Decided_entry else Deferred_entry),
                           what = w, why = r\<rparr>)))"

fun scan_lines :: "bool \<Rightarrow> pystr list \<Rightarrow> (pystr + decision_line) list" where
  "scan_lines in_fence [] = []"
| "scan_lines in_fence (raw # raws) =
     (if rx_match decision_fence_re raw \<noteq> None then scan_lines (\<not> in_fence) raws
      else if in_fence then scan_lines in_fence raws
      else (case read_decision raw of None \<Rightarrow> scan_lines in_fence raws | Some x \<Rightarrow> x # scan_lines in_fence raws))"

definition scan_decision_lines :: "pystr \<Rightarrow> decision_scan" where
  "scan_decision_lines body =
     (let xs = scan_lines False (splitlines body) in
      \<lparr>decided = List.map_filter (\<lambda>x. case x of Inr d \<Rightarrow> Some d | Inl _ \<Rightarrow> None) xs,
       malformed_lines = List.map_filter (\<lambda>x. case x of Inl s \<Rightarrow> Some s | Inr _ \<Rightarrow> None) xs\<rparr>)"

definition scan_empty :: "decision_scan \<Rightarrow> bool" where
  "scan_empty s \<longleftrightarrow> decided s = [] \<and> malformed_lines s = []"

text \<open>\<open>None\<close> is the \<open>ValueError\<close> for a role that may not write the log.\<close>

definition decision_log_entries :: "decision_scan \<Rightarrow> pystr \<Rightarrow> role \<Rightarrow> pystr \<Rightarrow> log_entry list option" where
  "decision_log_entries s author r ts =
     (if r \<notin> DECISION_LOG_AUTHOR_ROLES then None
      else Some (map (\<lambda>l. \<lparr>entry_kind = line_kind l,
        payload = [(lit ''ts'', Str ts), (lit ''author'', Str author), (lit ''author_role'', Str (role_value r)),
                   (lit ''what'', Str (what l)), (lit ''reason'', Str (why l))]\<rparr>) (decided s)))"

section \<open>Keys\<close>

type_synonym decision_key = "pystr \<times> pystr \<times> pystr \<times> pystr"

definition decision_key :: "(json \<Rightarrow> pystr) \<Rightarrow> pystr \<Rightarrow> log_entry \<Rightarrow> decision_key" where
  "decision_key rp msg_id e =
     (msg_id, kind_value (entry_kind e), get_str rp ''what'' (payload e), get_str rp ''reason'' (payload e))"

definition row_of_thread :: "(json \<Rightarrow> pystr) \<Rightarrow> pystr \<Rightarrow> row \<Rightarrow> bool" where
  "row_of_thread rp thread r \<longleftrightarrow> py_str rp (json_get (lit ''thread'') r) = thread"

definition decision_row :: "row \<Rightarrow> bool" where
  "decision_row r \<longleftrightarrow> json_get (lit ''kind'') r \<in> {Str (kind_value Decided_entry), Str (kind_value Deferred_entry)}"

definition row_decision_key :: "(json \<Rightarrow> pystr) \<Rightarrow> row \<Rightarrow> decision_key" where
  "row_decision_key rp r =
     (get_str rp ''msg_id'' r, py_str rp (json_get (lit ''kind'') r), get_str rp ''what'' r, get_str rp ''reason'' r)"

text \<open>The keys logged for one thread; \<open>None\<close> is what it raises: the \<open>ValueError\<close> of the reading, or the \<open>TypeError\<close> for a
  kind that cannot be hashed.\<close>

definition logged_decision_keys :: "(json \<Rightarrow> pystr) \<Rightarrow> pystr \<Rightarrow> log_file \<Rightarrow> decision_key multiset option" where
  "logged_decision_keys rp thread f =
     (case iter_rows f of
        None \<Rightarrow> None
      | Some all_rows \<Rightarrow>
          let rows = filter (row_of_thread rp thread) all_rows in
          if list_ex (\<lambda>r. unhashable (json_get (lit ''kind'') r)) rows then None
          else Some (mset (map (row_decision_key rp) (filter decision_row rows))))"

fun missing_decision_entries ::
    "(json \<Rightarrow> pystr) \<Rightarrow> pystr \<Rightarrow> log_entry list \<Rightarrow> decision_key multiset \<Rightarrow> log_entry list \<times> decision_key multiset" where
  "missing_decision_entries rp msg_id [] logged = ([], logged)"
| "missing_decision_entries rp msg_id (e # es) logged =
     (let k = decision_key rp msg_id e in
      if k \<in># logged then missing_decision_entries rp msg_id es (logged - {#k#})
      else (let (ms, rest) = missing_decision_entries rp msg_id es logged in (e # ms, rest)))"

section \<open>The recorder\<close>

record recorder =
  log_text :: log_file
  msgs_seen :: "pystr set"
  writes_pending :: "(pystr \<times> pystr \<times> role \<times> decision_scan) list"
  unattributed_count :: nat
  malformed_count :: nat

definition classify_decision_message ::
    "(pystr \<Rightarrow> role option) \<Rightarrow> chat_msg \<Rightarrow> recorder \<Rightarrow> (pystr \<times> role \<times> decision_scan) option \<times> recorder" where
  "classify_decision_message roleof m s =
     (let scan = scan_decision_lines (chat_content m) in
      if scan_empty scan then (None, s)
      else (case roleof (chat_author m) of
              None \<Rightarrow> (None, s\<lparr>unattributed_count := unattributed_count s + 1\<rparr>)
            | Some r \<Rightarrow>
                if r \<notin> DECISION_LOG_AUTHOR_ROLES then (None, s)
                else (if decided scan = [] then None else Some (chat_author m, r, scan),
                      s\<lparr>malformed_count := malformed_count s + length (malformed_lines scan)\<rparr>)))"

definition see_message :: "(pystr \<Rightarrow> role option) \<Rightarrow> chat_msg \<Rightarrow> recorder \<Rightarrow> recorder" where
  "see_message roleof m s =
     (if chat_id m = [] \<or> chat_id m \<in> msgs_seen s then s
      else (let (c, s') = classify_decision_message roleof m (s\<lparr>msgs_seen := insert (chat_id m) (msgs_seen s)\<rparr>) in
            case c of None \<Rightarrow> s'
            | Some x \<Rightarrow> s'\<lparr>writes_pending := dict_set (chat_id m) x (writes_pending s')\<rparr>))"

text \<open>One pending post: what is missing is appended; a failed write leaves the post pending.\<close>

definition write_pending ::
    "(json \<Rightarrow> pystr) \<Rightarrow> pystr \<Rightarrow> (pystr \<Rightarrow> pystr) \<Rightarrow> pystr \<times> pystr \<times> role \<times> decision_scan \<Rightarrow>
     decision_key multiset \<times> recorder \<Rightarrow> decision_key multiset \<times> recorder" where
  "write_pending rp thread stamp w ls =
     (let (logged, s) = ls; (msg_id, author, r, scan) = w;
          entries = (case decision_log_entries scan author r (stamp msg_id) of None \<Rightarrow> [] | Some es \<Rightarrow> es);
          (ms, logged') = missing_decision_entries rp msg_id entries logged in
      case append_log_entries (Some thread) (Some msg_id) ms (log_text s) of
        (Inl _, f) \<Rightarrow> (logged', s\<lparr>log_text := f\<rparr>)
      | (Inr _, f) \<Rightarrow> (logged', s\<lparr>log_text := f, writes_pending := dict_del msg_id (writes_pending s)\<rparr>))"

definition record_decision_lines ::
    "(json \<Rightarrow> pystr) \<Rightarrow> (pystr \<Rightarrow> role option) \<Rightarrow> pystr \<Rightarrow> (pystr \<Rightarrow> pystr) \<Rightarrow> chat_msg list \<Rightarrow> recorder \<Rightarrow> recorder" where
  "record_decision_lines rp roleof thread stamp messages s =
     (let s1 = fold (see_message roleof) messages s in
      if writes_pending s1 = [] then s1
      else (case logged_decision_keys rp thread (log_text s1) of
              None \<Rightarrow> s1
            | Some logged \<Rightarrow> snd (fold (write_pending rp thread stamp) (writes_pending s1) (logged, s1))))"

section \<open>The audit\<close>

record thread_audit =
  expected_keys :: "decision_key multiset"
  logged_keys :: "decision_key multiset"
  missing_keys :: "decision_key multiset"
  roster_changed :: "decision_key multiset"
  unmatched_rows :: "decision_key multiset"
  malformed_in :: "pystr multiset"
  unattributed_in :: "pystr multiset"

definition body_keys :: "(json \<Rightarrow> pystr) \<Rightarrow> chat_msg \<Rightarrow> decision_key multiset" where
  "body_keys rp m =
     mset (map (decision_key rp (chat_id m)) (the (decision_log_entries (scan_decision_lines (chat_content m)) [] Implementer [])))"

definition has_lines :: "chat_msg \<Rightarrow> bool" where
  "has_lines m \<longleftrightarrow> \<not> scan_empty (scan_decision_lines (chat_content m))"

definition by_author :: "(pystr \<Rightarrow> role option) \<Rightarrow> chat_msg \<Rightarrow> bool" where
  "by_author roleof m \<longleftrightarrow> roleof (chat_author m) \<in> Some ` DECISION_LOG_AUTHOR_ROLES"

definition audit_thread ::
    "(json \<Rightarrow> pystr) \<Rightarrow> (pystr \<Rightarrow> role option) \<Rightarrow> chat_msg list \<Rightarrow> decision_key multiset \<Rightarrow> thread_audit" where
  "audit_thread rp roleof messages logged =
     (let msgs = filter has_lines messages;
          ours = filter (by_author roleof) msgs;
          others = filter (\<lambda>m. \<not> by_author roleof m) msgs;
          expected = sum_list (map (body_keys rp) ours);
          demoted = sum_list (map (body_keys rp) others);
          extra = logged - expected;
          changed = extra \<inter># demoted
      in \<lparr>expected_keys = expected, logged_keys = logged, missing_keys = expected - logged,
          roster_changed = changed, unmatched_rows = extra - changed,
          malformed_in = sum_list (map (\<lambda>m. replicate_mset (length (malformed_lines (scan_decision_lines (chat_content m)))) (chat_id m)) ours),
          unattributed_in = mset (map chat_id (filter (\<lambda>m. roleof (chat_author m) = None) others))\<rparr>)"

section \<open>What the recorder leaves to the audit\<close>

definition entries_of :: "pystr \<Rightarrow> pystr \<times> pystr \<times> role \<times> decision_scan \<Rightarrow> log_entry list" where
  "entries_of ts w = (case w of (msg_id, author, r, scan) \<Rightarrow>
     (case decision_log_entries scan author r ts of None \<Rightarrow> [] | Some es \<Rightarrow> es))"

definition pending_keys :: "(json \<Rightarrow> pystr) \<Rightarrow> (pystr \<Rightarrow> pystr) \<Rightarrow> pystr \<times> pystr \<times> role \<times> decision_scan \<Rightarrow> decision_key multiset" where
  "pending_keys rp stamp w = mset (map (decision_key rp (fst w)) (entries_of (stamp (fst w)) w))"

text \<open>The rows of a pending post can be written.\<close>

definition recordable :: "pystr \<Rightarrow> (pystr \<Rightarrow> pystr) \<Rightarrow> pystr \<times> pystr \<times> role \<times> decision_scan \<Rightarrow> bool" where
  "recordable thread stamp w \<longleftrightarrow> list_all (\<lambda>e. let r = entry_to_dict e (Some thread) (Some (fst w)) in
     writable r \<and> short_numerals r) (entries_of (stamp (fst w)) w)"

lemma mset_diff_steps:
  "k \<in># L \<Longrightarrow> add_mset k M - L = M - (L - {#k#})"
  "k \<notin># L \<Longrightarrow> add_mset k M - L = add_mset k (M - L)"
  "k \<notin># L \<Longrightarrow> L - add_mset k M = L - M"
proof -
  show "add_mset k M - L = M - (L - {#k#})" if "k \<in># L"
  proof (rule multiset_eqI)
    fix x
    have "0 < count L k" using that by simp
    then show "count (add_mset k M - L) x = count (M - (L - {#k#})) x" by (cases "x = k") simp_all
  qed
  show "add_mset k M - L = add_mset k (M - L)" if "k \<notin># L"
    by (rule multiset_eqI) (use that in \<open>simp add: not_in_iff\<close>)
  show "L - add_mset k M = L - M" if "k \<notin># L"
    by (rule multiset_eqI) (use that in \<open>simp add: not_in_iff\<close>)
qed

lemma missing_entries_keys:
  "missing_decision_entries rp i es logged = (ms, rest) \<Longrightarrow>
   mset (map (decision_key rp i) ms) = mset (map (decision_key rp i) es) - logged \<and>
   rest = logged - mset (map (decision_key rp i) es) \<and> set ms \<subseteq> set es"
proof (induction es arbitrary: logged ms rest)
  case (Cons e es)
  show ?case
  proof (cases "decision_key rp i e \<in># logged")
    case True
    then have "missing_decision_entries rp i es (logged - {#decision_key rp i e#}) = (ms, rest)"
      using Cons.prems by (simp add: Let_def)
    from Cons.IH [OF this] show ?thesis using mset_diff_steps(1) [OF True] by auto
  next
    case False
    then obtain ms' where ms: "ms = e # ms'" "missing_decision_entries rp i es logged = (ms', rest)"
      using Cons.prems by (simp add: Let_def split: prod.splits)
    from Cons.IH [OF ms(2)] show ?thesis using mset_diff_steps(2,3) [OF False] by (auto simp: ms(1))
  qed
qed simp

lemma entry_shape:
  assumes "e \<in> set (entries_of ts w)"
  obtains l author r where "e = \<lparr>entry_kind = line_kind l,
        payload = [(lit ''ts'', Str ts), (lit ''author'', Str author), (lit ''author_role'', Str (role_value r)),
                   (lit ''what'', Str (what l)), (lit ''reason'', Str (why l))]\<rparr>"
    "l \<in> set (decided (snd (snd (snd w))))"
  using assms by (auto simp: entries_of_def decision_log_entries_def split: prod.splits if_splits option.splits)

lemma scan_lines_kinds: "Inr d \<in> set (scan_lines b ls) \<Longrightarrow> line_kind d \<in> {Decided_entry, Deferred_entry}"
  by (induction b ls rule: scan_lines.induct)
    (auto simp: read_decision_def Let_def split: if_splits option.splits prod.splits)

lemma decided_kinds:
  assumes "l \<in> set (decided (scan_decision_lines body))"
  shows "line_kind l \<in> {Decided_entry, Deferred_entry}"
proof -
  have "Inr l \<in> set (scan_lines False (splitlines body))"
    using assms by (auto simp: scan_decision_lines_def Let_def map_filter_def split: sum.splits)
  then show ?thesis by (rule scan_lines_kinds)
qed

definition scanned :: "pystr \<times> pystr \<times> role \<times> decision_scan \<Rightarrow> bool" where
  "scanned w \<longleftrightarrow> (\<forall>l \<in> set (decided (snd (snd (snd w)))). line_kind l \<in> {Decided_entry, Deferred_entry})"

text \<open>The row of an entry is a decision row of its thread, with the key of the entry.\<close>

lemma entry_row:
  fixes thread i :: pystr
  assumes "e \<in> set (entries_of ts w)" and "scanned w"
  defines "r \<equiv> sort_keys (entry_to_dict e (Some thread) (Some i))"
  shows "row_of_thread rp thread r \<and> decision_row r \<and> \<not> unhashable (json_get (lit ''kind'') r) \<and>
    row_decision_key rp r = decision_key rp i e"
proof -
  obtain l author ro where e: "e = \<lparr>entry_kind = line_kind l,
        payload = [(lit ''ts'', Str ts), (lit ''author'', Str author), (lit ''author_role'', Str (role_value ro)),
                   (lit ''what'', Str (what l)), (lit ''reason'', Str (why l))]\<rparr>"
    and mem: "l \<in> set (decided (snd (snd (snd w))))"
    by (rule entry_shape [OF assms(1)])
  have l: "line_kind l \<in> {Decided_entry, Deferred_entry}" using assms(2) mem by (simp add: scanned_def)
  let ?R = "[(lit ''kind'', Str (kind_value (line_kind l))), (lit ''thread'', Str thread), (lit ''msg_id'', Str i),
       (lit ''ts'', Str ts), (lit ''author'', Str author), (lit ''author_role'', Str (role_value ro)),
       (lit ''what'', Str (what l)), (lit ''reason'', Str (why l))]"
  have r: "entry_to_dict e (Some thread) (Some i) = ?R"
    by (simp add: e entry_to_dict_def dict_update_def)
  have m: "map_of r = map_of ?R" using map_of_sort_keys [OF entry_distinct, of e "Some thread" "Some i"] by (simp only: r_def r)
  have g: "map_of r (lit ''kind'') = Some (Str (kind_value (line_kind l)))" "map_of r (lit ''thread'') = Some (Str thread)"
    "map_of r (lit ''msg_id'') = Some (Str i)" "map_of r (lit ''what'') = Some (Str (what l))"
    "map_of r (lit ''reason'') = Some (Str (why l))"
    unfolding m by simp_all
  have p: "entry_kind e = line_kind l" "map_of (payload e) (lit ''what'') = Some (Str (what l))"
    "map_of (payload e) (lit ''reason'') = Some (Str (why l))"
    by (simp_all add: e)
  show ?thesis
    using l by (auto simp: row_of_thread_def decision_row_def row_decision_key_def decision_key_def get_str_def
        json_get.simps g p py_str_def unhashable_def)
qed

lemma append_decisions:
  assumes "append_log_entries (Some thread) (Some i) ms f = (Inr u, f')" and "ends_line f"
    and "set ms \<subseteq> set (entries_of ts w)" and "scanned w" and "logged_decision_keys rp thread f = Some F"
  shows "logged_decision_keys rp thread f' = Some (F + mset (map (decision_key rp i) ms)) \<and> ends_line f'"
proof -
  let ?row = "\<lambda>e. sort_keys (entry_to_dict e (Some thread) (Some i))"
  obtain before where f: "iter_rows f = Some before" using assms(5) by (auto simp: logged_decision_keys_def split: option.splits)
  have rows: "iter_rows f' = Some (before @ map ?row ms)" "ends_line f'"
    using append_entries_rows [OF assms(1,2)] f by simp_all
  have each: "row_of_thread rp thread (?row e) \<and> decision_row (?row e) \<and> \<not> unhashable (json_get (lit ''kind'') (?row e)) \<and>
      row_decision_key rp (?row e) = decision_key rp i e" if "e \<in> set ms" for e
    using entry_row [OF _ assms(4), where e = e and ts = ts and thread = thread and i = i and rp = rp] assms(3) that by blast
  have "filter (row_of_thread rp thread) (map ?row ms) = map ?row ms" "filter decision_row (map ?row ms) = map ?row ms"
    "\<not> list_ex (\<lambda>r. unhashable (json_get (lit ''kind'') r)) (map ?row ms)"
    "map (row_decision_key rp) (map ?row ms) = map (decision_key rp i) ms"
    using each by (auto simp: filter_id_conv list_ex_iff)
  then show ?thesis
    using assms(5) rows f by (auto simp: logged_decision_keys_def Let_def simp del: map_map split: if_splits)
qed

lemma append_decisions_runs:
  assumes "\<forall>e \<in> set ms. let r = entry_to_dict e t i in writable r \<and> short_numerals r"
  shows "\<exists>f'. append_log_entries t i ms f = (Inr (), f')"
  using assms
proof (induction t i ms arbitrary: f rule: append_log_entries.induct)
  case (2 t i e es)
  then show ?case by (simp add: append_log_entry_def write_row_def andthen_def modify_def Let_def)
qed (simp add: ret_def)

text \<open>Writing what is pending: the file then holds the keys of \<open>K\<close> and of the posts, none twice.\<close>

lemma write_pending_keys:
  assumes "list_all (recordable thread stamp) ws" and "list_all scanned ws" and "ends_line (log_text s)"
    and "logged_decision_keys rp thread (log_text s) = Some (K \<union># S)"
  shows "\<exists>s'. fold (write_pending rp thread stamp) ws (K - S, s) =
      (K - (S + sum_list (map (pending_keys rp stamp) ws)), s') \<and> ends_line (log_text s') \<and>
    logged_decision_keys rp thread (log_text s') = Some (K \<union># (S + sum_list (map (pending_keys rp stamp) ws))) \<and>
    (S + sum_list (map (pending_keys rp stamp) ws) \<subseteq># K \<longrightarrow> log_text s' = log_text s)"
  using assms
proof (induction ws arbitrary: s S)
  case Nil
  then show ?case by simp
next
  case (Cons w ws)
  obtain i author r scan where w: "w = (i, author, r, scan)" by (cases w)
  let ?es = "entries_of (stamp i) w" and ?E = "pending_keys rp stamp w"
  obtain ms rest where ms: "missing_decision_entries rp i ?es (K - S) = (ms, rest)" by fastforce
  have keys: "mset (map (decision_key rp i) ms) = ?E - (K - S)" "rest = (K - S) - ?E" "set ms \<subseteq> set ?es"
    using missing_entries_keys [OF ms] by (simp_all add: pending_keys_def w)
  have "\<forall>e \<in> set ms. let r = entry_to_dict e (Some thread) (Some i) in writable r \<and> short_numerals r"
    using Cons.prems(1) keys(3) by (auto simp: recordable_def w list_all_iff)
  then obtain f' where f': "append_log_entries (Some thread) (Some i) ms (log_text s) = (Inr (), f')"
    using append_decisions_runs by blast
  have sc: "scanned w" using Cons.prems(2) by simp
  have step: "logged_decision_keys rp thread f' = Some (K \<union># S + (?E - (K - S))) \<and> ends_line f'"
    using append_decisions [OF f' Cons.prems(3) keys(3) sc Cons.prems(4)] keys(1) by simp
  have sum: "K \<union># S + (?E - (K - S)) = K \<union># (S + ?E)" by (rule multiset_eqI) simp
  have rest: "rest = K - (S + ?E)" using keys(2) by simp
  let ?s = "s\<lparr>log_text := f', writes_pending := dict_del i (writes_pending s)\<rparr>"
  have one: "write_pending rp thread stamp w (K - S, s) = (K - (S + ?E), ?s)"
    using ms f' rest by (simp add: write_pending_def w entries_of_def Let_def)
  have same: "log_text ?s = log_text s" if "S + ?E \<subseteq># K"
  proof -
    have "?E - (K - S) = {#}"
    proof (rule multiset_eqI)
      fix x
      have "count S x + count ?E x \<le> count K x" using mset_subset_eq_count [OF that, of x] by simp
      then show "count (?E - (K - S)) x = count {#} x" by simp
    qed
    then have "ms = []" using keys(1) by simp
    then show ?thesis using f' by (simp add: ret_def)
  qed
  let ?T = "sum_list (map (pending_keys rp stamp) ws)"
  obtain s' where s': "fold (write_pending rp thread stamp) ws (K - (S + ?E), ?s) = (K - (S + ?E + ?T), s')"
    "ends_line (log_text s')" "logged_decision_keys rp thread (log_text s') = Some (K \<union># (S + ?E + ?T))"
    "S + ?E + ?T \<subseteq># K \<longrightarrow> log_text s' = log_text ?s"
    using Cons.IH [of ?s "S + ?E"] Cons.prems(1,2) step sum by auto
  have all: "S + sum_list (map (pending_keys rp stamp) (w # ws)) = S + ?E + ?T" by simp
  have "log_text s' = log_text s" if "S + ?E + ?T \<subseteq># K"
    using s'(4) that same subset_mset.order_trans [OF mset_subset_eq_add_left that] by simp
  then show ?case unfolding all using s'(1-3) one by auto
qed

text \<open>What one post leaves pending.\<close>

definition pend :: "(pystr \<Rightarrow> role option) \<Rightarrow> chat_msg \<Rightarrow> (pystr \<times> pystr \<times> role \<times> decision_scan) list" where
  "pend roleof m =
     (let scan = scan_decision_lines (chat_content m) in
      if by_author roleof m \<and> decided scan \<noteq> [] then [(chat_id m, chat_author m, the (roleof (chat_author m)), scan)] else [])"

lemma see_message_new:
  assumes "chat_id m \<noteq> []" and "chat_id m \<notin> msgs_seen s" and "fst ` set (writes_pending s) \<subseteq> msgs_seen s"
  shows "writes_pending (see_message roleof m s) = writes_pending s @ pend roleof m \<and>
    msgs_seen (see_message roleof m s) = insert (chat_id m) (msgs_seen s) \<and>
    log_text (see_message roleof m s) = log_text s"
proof -
  have "chat_id m \<notin> fst ` set (writes_pending s)" using assms(2,3) by blast
  then show ?thesis
    using assms(1,2)
    by (auto simp: see_message_def classify_decision_message_def Let_def pend_def by_author_def scan_empty_def
        dict_set_fresh split: option.split)
qed

lemma see_messages:
  assumes "distinct (map chat_id ms)" and "[] \<notin> chat_id ` set ms" and "chat_id ` set ms \<inter> msgs_seen s = {}"
    and "fst ` set (writes_pending s) \<subseteq> msgs_seen s"
  shows "writes_pending (fold (see_message roleof) ms s) = writes_pending s @ concat (map (pend roleof) ms) \<and>
    log_text (fold (see_message roleof) ms s) = log_text s"
  using assms
proof (induction ms arbitrary: s)
  case (Cons m ms)
  have new: "chat_id m \<noteq> []" "chat_id m \<notin> msgs_seen s" using Cons.prems(2,3) by auto
  note one = see_message_new [OF new Cons.prems(4), of roleof]
  have keys: "fst ` set (pend roleof m) \<subseteq> {chat_id m}" by (auto simp: pend_def Let_def)
  have "writes_pending (fold (see_message roleof) ms (see_message roleof m s)) =
      writes_pending (see_message roleof m s) @ concat (map (pend roleof) ms) \<and>
      log_text (fold (see_message roleof) ms (see_message roleof m s)) = log_text (see_message roleof m s)"
    by (rule Cons.IH) (use Cons.prems one keys in auto)
  then show ?case using one by simp
qed simp

definition line_keys :: "pystr \<Rightarrow> decision_scan \<Rightarrow> decision_key list" where
  "line_keys i scan = map (\<lambda>l. (i, kind_value (line_kind l), what l, why l)) (decided scan)"

lemma entries_keys:
  "r \<in> DECISION_LOG_AUTHOR_ROLES \<Longrightarrow>
   map (decision_key rp i) (the (decision_log_entries scan a r ts)) = line_keys i scan"
  by (simp add: decision_log_entries_def line_keys_def decision_key_def get_str_def py_str_def)

lemma body_keys_lines: "body_keys rp m = mset (line_keys (chat_id m) (scan_decision_lines (chat_content m)))"
  unfolding body_keys_def by (subst entries_keys) (simp_all add: DECISION_LOG_AUTHOR_ROLES_def)

lemma pend_keys:
  "sum_list (map (pending_keys rp stamp) (concat (map (pend roleof) ms))) =
   sum_list (map (body_keys rp) (filter (by_author roleof) (filter has_lines ms)))"
proof (induction ms)
  case (Cons m ms)
  have "sum_list (map (pending_keys rp stamp) (pend roleof m)) =
      (if has_lines m \<and> by_author roleof m then body_keys rp m else {#})"
  proof (cases "by_author roleof m \<and> decided (scan_decision_lines (chat_content m)) \<noteq> []")
    case True
    then obtain r where r: "roleof (chat_author m) = Some r" "r \<in> DECISION_LOG_AUTHOR_ROLES"
      by (auto simp: by_author_def)
    then have "entries_of t (chat_id m, chat_author m, r, scan_decision_lines (chat_content m)) =
        the (decision_log_entries (scan_decision_lines (chat_content m)) (chat_author m) r t)" for t
      by (simp add: entries_of_def decision_log_entries_def)
    then show ?thesis
      using True r by (simp add: pend_def Let_def pending_keys_def entries_keys body_keys_lines has_lines_def scan_empty_def)
  next
    case False
    then show ?thesis by (auto simp: pend_def Let_def body_keys_lines line_keys_def)
  qed
  then show ?case using Cons.IH by simp
qed simp

lemma pend_scanned: "list_all scanned (concat (map (pend roleof) ms))"
  using decided_kinds by (fastforce simp: list_all_iff pend_def Let_def scanned_def)

definition fresh_recorder :: "log_file \<Rightarrow> recorder" where
  "fresh_recorder f = \<lparr>log_text = f, msgs_seen = {}, writes_pending = [], unattributed_count = 0, malformed_count = 0\<rparr>"

definition expected_of :: "(json \<Rightarrow> pystr) \<Rightarrow> (pystr \<Rightarrow> role option) \<Rightarrow> chat_msg list \<Rightarrow> decision_key multiset" where
  "expected_of rp roleof ms = sum_list (map (body_keys rp) (filter (by_author roleof) (filter has_lines ms)))"

lemma recorder_keys:
  assumes "distinct (map chat_id ms)" and "[] \<notin> chat_id ` set ms"
    and "list_all (recordable thread stamp) (concat (map (pend roleof) ms))"
    and "ends_line f" and "logged_decision_keys rp thread f = Some K"
  shows "logged_decision_keys rp thread (log_text (record_decision_lines rp roleof thread stamp ms (fresh_recorder f))) =
      Some (K \<union># expected_of rp roleof ms) \<and>
    ends_line (log_text (record_decision_lines rp roleof thread stamp ms (fresh_recorder f))) \<and>
    (expected_of rp roleof ms \<subseteq># K \<longrightarrow>
      log_text (record_decision_lines rp roleof thread stamp ms (fresh_recorder f)) = f)"
proof -
  let ?s = "fold (see_message roleof) ms (fresh_recorder f)" and ?ws = "concat (map (pend roleof) ms)"
  have seen: "writes_pending ?s = ?ws" "log_text ?s = f"
    using see_messages [OF assms(1,2), of "fresh_recorder f" roleof] by (simp_all add: fresh_recorder_def)
  have E: "sum_list (map (pending_keys rp stamp) ?ws) = expected_of rp roleof ms"
    by (simp only: pend_keys expected_of_def)
  obtain s' where s': "fold (write_pending rp thread stamp) ?ws (K, ?s) = (K - expected_of rp roleof ms, s')"
    "ends_line (log_text s')" "logged_decision_keys rp thread (log_text s') = Some (K \<union># expected_of rp roleof ms)"
    "expected_of rp roleof ms \<subseteq># K \<longrightarrow> log_text s' = f"
    using write_pending_keys [of thread stamp ?ws ?s rp K "{#}"] assms(3-5) pend_scanned [of roleof ms] seen E by auto
  show ?thesis
  proof (cases "?ws = []")
    case True
    have "s' = ?s" using s'(1) unfolding True by simp
    then have "log_text s' = f" using seen(2) by simp
    moreover have "record_decision_lines rp roleof thread stamp ms (fresh_recorder f) = ?s"
      using seen(1) unfolding True by (simp add: record_decision_lines_def Let_def)
    ultimately show ?thesis using s'(2-4) seen(2) by simp
  next
    case False
    then show ?thesis using s' seen assms(5) by (simp add: record_decision_lines_def Let_def del: concat_eq_Nil_conv)
  qed
qed

text \<open>C4. After the conductor has recorded the messages of a thread, the audit of that thread finds none of their decisions
  missing from the log; the rows it cannot match and its verdict on the roster are those of before the recording; and a
  restart that reads the same messages again leaves the log untouched. Assumed: the ids of the messages are distinct and
  not empty, the rows can be encoded, and the log before can be read and is absent, empty or ends in a line feed.\<close>

theorem recorded_posts_pass_audit:
  assumes "distinct (map chat_id messages)" and "[] \<notin> chat_id ` set messages"
    and "list_all (recordable thread stamp) (concat (map (pend roleof) messages))"
    and "ends_line f" and "logged_decision_keys rp thread f = Some K"
    and "f' = log_text (record_decision_lines rp roleof thread stamp messages (fresh_recorder f))"
  shows "\<exists>K'. logged_decision_keys rp thread f' = Some K' \<and>
      missing_keys (audit_thread rp roleof messages K') = {#} \<and>
      roster_changed (audit_thread rp roleof messages K') = roster_changed (audit_thread rp roleof messages K) \<and>
      unmatched_rows (audit_thread rp roleof messages K') = unmatched_rows (audit_thread rp roleof messages K) \<and>
      log_text (record_decision_lines rp roleof thread stamp messages (fresh_recorder f')) = f'"
proof -
  let ?E = "expected_of rp roleof messages"
  note first = recorder_keys [OF assms(1-5), folded assms(6)]
  then have f': "logged_decision_keys rp thread f' = Some (K \<union># ?E)" "ends_line f'" by simp_all
  have again: "log_text (record_decision_lines rp roleof thread stamp messages (fresh_recorder f')) = f'"
    using recorder_keys [OF assms(1-3) f'(2,1)] by simp
  have "?E - (K \<union># ?E) = {#}" by (rule multiset_eqI) simp
  moreover have "(K \<union># ?E) - ?E = K - ?E" by (rule multiset_eqI) simp
  ultimately show ?thesis
    using f'(1) again
    by (intro exI [of _ "K \<union># ?E"]) (simp only: audit_thread_def Let_def thread_audit.simps expected_of_def simp_thms)
qed

definition sample_post :: chat_msg where
  "sample_post = \<lparr>chat_id = lit ''m1'', chat_author = lit ''mia'', chat_content = lit ''DECIDED: one '' @ [8212] @ lit '' two'', chat_field = None\<rparr>"

lemma sample_line:
  "read_decision (chat_content sample_post) =
   Some (Inr \<lparr>line_kind = Decided_entry, what = lit ''one'', why = lit ''two''\<rparr>)"
  by (simp add: read_decision_def sample_post_def decision_line_re_def regex_simps seqs_def alts_def
      blanks_def star_def text_rx_def chr_def lit_Cons text_end_def dot_def any_of_def partition_def strip_def Let_def
      split_at.simps startswith_def rstrip_def lstrip_def is_space_def)

lemma sample_fence: "rx_match decision_fence_re (chat_content sample_post) = None"
  by (simp add: sample_post_def decision_fence_re_def regex_simps seqs_def alts_def
      blanks_def star_def text_rx_def chr_def lit_Cons)

lemma sample_scan:
  "scan_decision_lines (chat_content sample_post) =
   \<lparr>decided = [\<lparr>line_kind = Decided_entry, what = lit ''one'', why = lit ''two''\<rparr>], malformed_lines = []\<rparr>"
proof -
  have "splitlines (chat_content sample_post) = [chat_content sample_post]"
    by (simp add: sample_post_def lit_Cons splitlines_def is_line_break_def)
  then show ?thesis by (simp add: scan_decision_lines_def sample_line sample_fence Let_def map_filter_def)
qed

lemma sample_pend: "pend (\<lambda>_. Some Implementer) sample_post = [(lit ''m1'', lit ''mia'', Implementer,
   \<lparr>decided = [\<lparr>line_kind = Decided_entry, what = lit ''one'', why = lit ''two''\<rparr>], malformed_lines = []\<rparr>)]"
  unfolding pend_def sample_scan by (simp add: Let_def by_author_def DECISION_LOG_AUTHOR_ROLES_def sample_post_def)

lemma recorded_posts_pass_audit_witness:
  "\<exists>K'. logged_decision_keys (\<lambda>_. []) (lit ''T'') (log_text (record_decision_lines (\<lambda>_. [])
       (\<lambda>_. Some Implementer) (lit ''T'') id [sample_post] (fresh_recorder None))) = Some K' \<and>
     missing_keys (audit_thread (\<lambda>_. []) (\<lambda>_. Some Implementer) [sample_post] K') = {#}"
proof -
  have "list_all (recordable (lit ''T'') id) (concat (map (pend (\<lambda>_. Some Implementer)) [sample_post]))"
    by (simp add: sample_pend recordable_def DECISION_LOG_AUTHOR_ROLES_def entries_of_def
        decision_log_entries_def writable_iff entry_to_dict_def dict_update_def scalar_lit short_numerals_def
        Let_def kind_value_def)
  moreover have "[] \<notin> chat_id ` set [sample_post]" by (simp add: sample_post_def lit_Cons)
  moreover have "ends_line None" by (simp add: ends_line_def contents_def)
  moreover have "logged_decision_keys (\<lambda>_. []) (lit ''T'') None = Some {#}"
    by (simp add: logged_decision_keys_def empty_log_rows)
  ultimately show ?thesis
    using recorded_posts_pass_audit [of "[sample_post]" "lit ''T''" id "\<lambda>_. Some Implementer" None "\<lambda>_. []" "{#}"]
    by auto
qed

end
