(* ===== verification/Stops.thy ===== *)
theory Stops
  imports Conductor
begin

text \<open>
  How a stop is told and read back: the events of the stop notices (\<open>conductor/stall.py\<close>,
  \<open>conductor/stand_down.py\<close>, \<open>conductor/spawn_timeout.py\<close>, \<open>conductor/run_budget.py\<close>,
  \<open>git_sync/notice.py\<close>), their marker (\<open>conductor/stop_marker.py\<close>), the vocabulary of the board
  (\<open>conductor/stop_kind.py\<close>), the disposition of a settled thread (\<open>conductor/disposition.py\<close>) and the lane
  of a parked one (\<open>conductor/parked_lane.py\<close>). The prose of a notice and the detail of an event are
  arguments; identifier and instant of an event do not reach the marker and are left out.
\<close>

section \<open>Events\<close>

record stop_event =
  event_kind :: pystr
  event_fields :: "(pystr \<times> json) list"

definition EVENT_KIND_STALLED :: pystr where "EVENT_KIND_STALLED = lit ''conductor.stalled''"
definition EVENT_KIND_STAND_DOWN :: pystr where "EVENT_KIND_STAND_DOWN = lit ''conductor.stand_down''"
definition EVENT_KIND_SPAWN_TIMEOUT :: pystr where "EVENT_KIND_SPAWN_TIMEOUT = lit ''spawn.timeout''"
definition EVENT_KIND_RUN_TIMEOUT :: pystr where "EVENT_KIND_RUN_TIMEOUT = lit ''conductor.run_timeout''"
definition EVENT_KIND_RUN_KILLED :: pystr where "EVENT_KIND_RUN_KILLED = lit ''conductor.run_killed''"
definition EVENT_KIND_GIT_SYNC_PARK :: pystr where "EVENT_KIND_GIT_SYNC_PARK = lit ''git_sync.park''"

datatype unresolved_item = Project_item | Thread_item | Repo_dir_item | Identity_item

definition item_value :: "unresolved_item \<Rightarrow> pystr" where
  "item_value i = (case i of Project_item \<Rightarrow> lit ''project'' | Thread_item \<Rightarrow> lit ''thread''
     | Repo_dir_item \<Rightarrow> lit ''repo_dir'' | Identity_item \<Rightarrow> lit ''identity'')"

definition reason_value :: "stand_down_reason \<Rightarrow> pystr" where
  "reason_value r = (case r of Project_unset \<Rightarrow> lit ''project_unset'' | Thread_unset \<Rightarrow> lit ''thread_unset''
     | Thread_unreadable \<Rightarrow> lit ''thread_unreadable'' | Repo_dir_unset \<Rightarrow> lit ''repo_dir_unset''
     | Repo_dir_missing \<Rightarrow> lit ''repo_dir_missing'' | Identity_unresolved \<Rightarrow> lit ''identity_unresolved''
     | Identity_role_ambiguous \<Rightarrow> lit ''identity_role_ambiguous''
     | Identity_operator_no_task \<Rightarrow> lit ''identity_operator_no_task''
     | Operator_no_tier_c_check \<Rightarrow> lit ''operator_no_tier_c_check''
     | Operator_tier_c_conflict \<Rightarrow> lit ''operator_tier_c_conflict''
     | Identity_not_spawnable \<Rightarrow> lit ''identity_not_spawnable'' | Field_body_divergence \<Rightarrow> lit ''target_divergence''
     | Field_not_resolvable \<Rightarrow> lit ''field_unresolvable'')"

definition stand_down_event :: "unresolved_item \<Rightarrow> stand_down_reason \<Rightarrow> pystr \<Rightarrow> pystr \<Rightarrow> pystr \<Rightarrow> stop_event" where
  "stand_down_event item r project thread detail =
     \<lparr>event_kind = EVENT_KIND_STAND_DOWN,
      event_fields = [(lit ''unresolved'', Str (item_value item)), (lit ''reason'', Str (reason_value r)),
        (lit ''project'', Str project), (lit ''thread'', Str thread), (lit ''detail'', Str detail)]\<rparr>"

definition CAUSE_MAX_CHARS :: nat where "CAUSE_MAX_CHARS = 300"

definition sanitize_cause :: "pystr \<Rightarrow> pystr" where
  "sanitize_cause cause =
     (let flat = join [32] (words_of (map (\<lambda>c. if c = 96 then 39 else c) cause)) in
      if length flat > CAUSE_MAX_CHARS then take (CAUSE_MAX_CHARS - 1) flat @ [8230] else flat)"

definition stalled_event :: "pystr \<Rightarrow> pystr \<Rightarrow> pystr \<Rightarrow> int \<Rightarrow> pystr \<Rightarrow> pystr option \<Rightarrow> stop_event" where
  "stalled_event project thread head_msg_id launches target cause =
     \<lparr>event_kind = EVENT_KIND_STALLED,
      event_fields = [(lit ''project'', Str project), (lit ''thread'', Str thread),
        (lit ''head_msg_id'', Str head_msg_id), (lit ''launches_same_head'', Number launches),
        (lit ''target'', Str target)] @
        (case cause of None \<Rightarrow> [] | Some c \<Rightarrow> [(lit ''cause'', Str (sanitize_cause c))])\<rparr>"

text \<open>Seconds are floats; their text is an argument.\<close>

definition spawn_timeout_event :: "pystr \<Rightarrow> pystr \<Rightarrow> role \<Rightarrow> int \<Rightarrow> pystr \<Rightarrow> stop_event" where
  "spawn_timeout_event adapter instance_name r attempt timeout_s =
     \<lparr>event_kind = EVENT_KIND_SPAWN_TIMEOUT,
      event_fields = [(lit ''adapter_id'', Str adapter), (lit ''instance_id'', Str instance_name),
        (lit ''role'', Str (role_value r)), (lit ''attempt'', Number attempt), (lit ''timeout_s'', Float timeout_s)]\<rparr>"

definition run_timeout_event :: "pystr \<Rightarrow> pystr \<Rightarrow> pystr \<Rightarrow> pystr \<Rightarrow> pystr \<Rightarrow> stop_event" where
  "run_timeout_event budget_s elapsed_s phase project thread =
     \<lparr>event_kind = EVENT_KIND_RUN_TIMEOUT,
      event_fields = [(lit ''budget_s'', Float budget_s), (lit ''elapsed_s'', Float elapsed_s),
        (lit ''phase'', Str phase), (lit ''project'', Str project), (lit ''thread'', Str thread)]\<rparr>"

definition git_sync_park_event :: "pystr \<Rightarrow> pystr \<Rightarrow> pystr \<Rightarrow> pystr \<Rightarrow> pystr option \<Rightarrow> pystr \<Rightarrow> stop_event" where
  "git_sync_park_event code phase project thread branch summary =
     \<lparr>event_kind = EVENT_KIND_GIT_SYNC_PARK,
      event_fields = [(lit ''code'', Str (lit ''git.'' @ code)), (lit ''phase'', Str phase), (lit ''project'', Str project),
        (lit ''thread'', Str thread), (lit ''branch'', Str (case branch of None \<Rightarrow> [] | Some b \<Rightarrow> b)),
        (lit ''summary'', Str summary)]\<rparr>"

section \<open>The vocabulary of the board\<close>

datatype stop_kind =
    Kind_stalled | Kind_stand_down | Kind_spawn_timeout | Kind_quarantine | Kind_silent | Kind_human_spin
  | Kind_run_timeout | Kind_run_killed | Kind_empty_thread | Kind_no_handoff | Kind_no_progress | Kind_round_cap

definition STOP_KIND_BY_EVENT_KIND :: "pystr \<rightharpoonup> stop_kind" where
  "STOP_KIND_BY_EVENT_KIND =
     [EVENT_KIND_STALLED \<mapsto> Kind_stalled, EVENT_KIND_STAND_DOWN \<mapsto> Kind_stand_down,
      EVENT_KIND_SPAWN_TIMEOUT \<mapsto> Kind_spawn_timeout, EVENT_KIND_RUN_TIMEOUT \<mapsto> Kind_run_timeout,
      EVENT_KIND_RUN_KILLED \<mapsto> Kind_run_killed]"

definition STOP_KIND_BY_STOP_REASON :: "ending \<Rightarrow> stop_kind option" where
  "STOP_KIND_BY_STOP_REASON e = (case e of
       By_stall \<Rightarrow> Some Kind_stalled | Empty_thread \<Rightarrow> Some Kind_empty_thread | No_handoff \<Rightarrow> Some Kind_no_handoff
     | No_progress \<Rightarrow> Some Kind_no_progress | Round_cap \<Rightarrow> Some Kind_round_cap | _ \<Rightarrow> None)"

section \<open>The marker\<close>

text \<open>\<open>None\<close> is the \<open>ValueError\<close> for a field that would shadow the kind.\<close>

definition render_stop_marker :: "stop_event \<Rightarrow> pystr option" where
  "render_stop_marker e =
     (if lit ''kind'' \<in> fst ` set (event_fields e) then None
      else Some (render_marker ''stop'' (Obj ((lit ''kind'', Str (event_kind e)) # event_fields e))))"

definition read_stop_payload :: "pystr \<Rightarrow> (pystr \<times> json) list option" where
  "read_stop_payload raw =
     (case loads raw of
        Some (Obj fs) \<Rightarrow> (case json_get (lit ''kind'') fs of Str _ \<Rightarrow> Some fs | _ \<Rightarrow> None)
      | _ \<Rightarrow> None)"

definition parse_stop_marker :: "pystr \<Rightarrow> (pystr \<times> json) list option" where
  "parse_stop_marker body =
     (let payloads = List.map_filter read_stop_payload (marker_payloads ''stop'' body) in
      if payloads = [] then None else Some (last payloads))"

definition rstrip_newlines :: "pystr \<Rightarrow> pystr" where
  "rstrip_newlines s = rev (lstrip_char 10 (rev s))"

text \<open>The marker goes above the last line of a notice.\<close>

definition with_stop_marker :: "pystr \<Rightarrow> stop_event \<Rightarrow> pystr option" where
  "with_stop_marker notice e =
     (let (head, sep, last_line) = rpartition (rstrip_newlines notice) [10] in
      if \<not> sep then Some notice
      else map_option (\<lambda>m. head @ [10] @ m @ [10, 10] @ last_line) (render_stop_marker e))"

section \<open>The disposition of a settled thread\<close>

datatype stop_class = Class_done | Class_blocked_on | Class_unclassified | Class_human_close

definition classify_stop :: "stop_line \<Rightarrow> bool \<Rightarrow> stop_class" where
  "classify_stop s author_is_human =
     (if stop_status s = Stop_done then Class_done
      else if stop_status s = Stop_blocked_on then Class_blocked_on
      else if author_is_human then Class_human_close else Class_unclassified)"

text \<open>Nothing to send, a payload, or a failed assertion.\<close>

datatype disposition = Send_nothing | Send_disposition json | Disposition_failed

definition disposition_payload :: "stop_line \<Rightarrow> disposition" where
  "disposition_payload s =
     (case stop_status s of
        Stop_done \<Rightarrow> Send_disposition (Obj [(lit ''kind'', Str (lit ''done''))])
      | Stop_blocked_on \<Rightarrow>
          (case (trigger_arm s, trigger_operand s, wake s) of
             (Some arm, Some ref, Some w) \<Rightarrow>
               Send_disposition (Obj [(lit ''kind'', Str (lit ''blocked_on'')),
                 (lit ''trigger'', Obj [(lit ''arm'', Str arm), (lit ''ref'', Str ref)]), (lit ''wake'', Str w)])
           | _ \<Rightarrow> Disposition_failed)
      | _ \<Rightarrow> Send_nothing)"

definition stop_line_of :: "(pystr \<Rightarrow> pystr) \<Rightarrow> pystr \<Rightarrow> roster \<Rightarrow> pystr option \<Rightarrow> stop_line option" where
  "stop_line_of cf body roster np =
     (let h = resolve_handoff cf body roster np in if kind h \<noteq> K_none then None else stop_of h)"

definition body_disposition :: "(pystr \<Rightarrow> pystr) \<Rightarrow> pystr \<Rightarrow> roster \<Rightarrow> disposition" where
  "body_disposition cf body roster =
     (case stop_line_of cf body roster None of None \<Rightarrow> Send_nothing | Some s \<Rightarrow> disposition_payload s)"

section \<open>The lane of a parked thread\<close>

datatype parked_lane = Lane_decision | Lane_operator_work | Lane_misroute | Lane_merge_wait

definition MISROUTE_REASONS :: "pystr set" where
  "MISROUTE_REASONS = reason_value ` {Identity_unresolved, Identity_role_ambiguous, Identity_operator_no_task,
     Operator_no_tier_c_check, Field_body_divergence, Field_not_resolvable}"

record parked_classification =
  lane :: parked_lane
  lane_task :: "pystr option"
  protocol_violation :: bool

definition in_lane :: "parked_lane \<Rightarrow> parked_classification" where
  "in_lane l = \<lparr>lane = l, lane_task = None, protocol_violation = False\<rparr>"

text \<open>The reason of an identity stand-down, if the marker tells one.\<close>

definition identity_reason :: "pystr \<Rightarrow> json option" where
  "identity_reason body =
     (case parse_stop_marker body of
        None \<Rightarrow> None
      | Some m \<Rightarrow>
          if json_get (lit ''kind'') m = Str EVENT_KIND_STAND_DOWN \<and>
             json_get (lit ''unresolved'') m = Str (item_value Identity_item)
          then Some (json_get (lit ''reason'') m) else None)"

definition classify_handoff :: "(pystr \<Rightarrow> pystr) \<Rightarrow> pystr \<Rightarrow> parked_classification" where
  "classify_handoff cf body =
     (let h = resolve_handoff cf body [] None in
      if kind h = K_human \<and> asks h = Some Operator_work
      then (in_lane Lane_operator_work)\<lparr>lane_task := operator_task h\<rparr> else in_lane Lane_decision)"

text \<open>\<open>None\<close> is the \<open>TypeError\<close> for a reason that cannot be hashed.\<close>

definition classify_parked :: "(pystr \<Rightarrow> pystr) \<Rightarrow> pystr \<Rightarrow> parked_classification option" where
  "classify_parked cf body =
     (if is_merge_wait_relay body then Some (in_lane Lane_merge_wait)
      else (case identity_reason body of
              None \<Rightarrow> Some (classify_handoff cf body)
            | Some r \<Rightarrow>
                if r = Str (reason_value Operator_tier_c_conflict)
                then Some ((in_lane Lane_decision)\<lparr>protocol_violation := True\<rparr>)
                else if unhashable r then None
                else if r \<in> Str ` MISROUTE_REASONS then Some (in_lane Lane_misroute)
                else Some (classify_handoff cf body)))"

section \<open>The retry notice\<close>

record retry_of =
  error_code :: pystr
  first_failure_at :: pystr

definition UNKNOWN_FIRST_FAILURE_AT :: pystr where "UNKNOWN_FIRST_FAILURE_AT = lit ''unknown''"

definition parse_retry_of :: "pystr option \<Rightarrow> retry_of option" where
  "parse_retry_of value =
     (case value of
        None \<Rightarrow> None
      | Some v \<Rightarrow>
          if strip v = [] then None
          else (let t = strip v; (code, sep, moment) = rpartition t [64];
                    code = strip (if sep then code else t); moment = strip (if sep then moment else [])
                in Some \<lparr>error_code = (if code = [] then lit ''unknown'' else code),
                         first_failure_at = (if moment = [] then UNKNOWN_FIRST_FAILURE_AT else moment)\<rparr>))"

text \<open>The notice of one dispatch; its paragraph is an argument.\<close>

definition retry_notice_for :: "(retry_of \<Rightarrow> pystr) \<Rightarrow> retry_of option \<Rightarrow> pystr \<Rightarrow> nat \<Rightarrow> pystr option" where
  "retry_notice_for render r role_name rounds =
     (case r of
        None \<Rightarrow> None
      | Some x \<Rightarrow> if rounds \<noteq> 0 \<or> role_name \<notin> role_value ` set RETRY_NOTICE_ROLES then None else Some (render x))"

section \<open>Reading a notice back\<close>

lemma stop_name: "marker_name ''stop''"
  by (simp add: marker_name_def is_space_def)

lemma parse_rendered:
  assumes "render_stop_marker e = Some m" and "json_ok (Obj ((lit ''kind'', Str (event_kind e)) # event_fields e))"
    and "\<not> opens_comment pre" and "\<not> opens_comment post"
  shows "parse_stop_marker (pre @ m @ post) = Some ((lit ''kind'', Str (event_kind e)) # event_fields e)"
proof -
  let ?fs = "(lit ''kind'', Str (event_kind e)) # event_fields e"
  have m: "m = render_marker ''stop'' (Obj ?fs)" using assms(1) by (simp add: render_stop_marker_def split: if_splits)
  have "marker_payloads ''stop'' (pre @ m @ post) = [json_text [] no_greater (Obj ?fs)]"
    unfolding m by (rule marker_payloads_render [OF stop_name assms(2-4)])
  moreover have "read_stop_payload (json_text [] no_greater (Obj ?fs)) = Some ?fs"
    using loads_json_text [OF _ printable_no_greater assms(2), of "[]"] by (simp add: read_stop_payload_def json_get_Cons)
  ultimately show ?thesis by (simp add: parse_stop_marker_def map_filter_simps)
qed

lemma with_marker_split:
  assumes "with_stop_marker notice e = Some body" and "body \<noteq> notice" and "\<not> opens_comment notice"
  obtains pre m post where "body = pre @ m @ post" "render_stop_marker e = Some m"
    "\<not> opens_comment pre" "\<not> opens_comment post"
proof -
  obtain head sep last_line where r: "rpartition (rstrip_newlines notice) [10] = (head, sep, last_line)"
    by (metis prod_cases3)
  have sep: "sep" using assms(1,2) r by (auto simp: with_stop_marker_def split: if_splits)
  then obtain m where m: "render_stop_marker e = Some m" "body = head @ [10] @ m @ [10, 10] @ last_line"
    using assms(1) r by (auto simp: with_stop_marker_def)
  obtain a b where ab: "split_at [10] (rev (rstrip_newlines notice)) = Some (a, b)" "head = rev b" "last_line = rev a"
    using r sep by (auto simp: rpartition_def split: option.splits)
  then have "rstrip_newlines notice = head @ [10] @ last_line"
    using split_at_sound [OF ab(1)] by (simp add: rev_swap)
  moreover have "notice = rstrip_newlines notice @ rev (takeWhile (\<lambda>c. c = 10) (rev notice))"
    unfolding rstrip_newlines_def lstrip_char_def by (metis rev_append rev_rev_ident takeWhile_dropWhile_id)
  ultimately have "\<not> opens_comment (head @ [10] @ last_line)" using assms(3) opens_commentI(1) by metis
  then have "\<not> opens_comment (head @ [10])" "\<not> opens_comment ([10, 10] @ last_line)"
    using opens_comment_sep [of 10 head last_line] opens_comment_sep [of 10 head "[]"] by auto
  then show thesis using that [of "head @ [10]" m "[10, 10] @ last_line"] m by simp
qed

lemma stand_down_ok:
  assumes "list_all scalar project" and "list_all scalar thread" and "list_all scalar detail"
  shows "json_ok (Obj ((lit ''kind'', Str (event_kind (stand_down_event i r project thread detail))) #
     event_fields (stand_down_event i r project thread detail)))"
proof -
  have "list_all scalar (item_value i)" "list_all scalar (reason_value r)"
    by (cases i; simp add: item_value_def scalar_lit) (cases r; simp add: reason_value_def scalar_lit)
  then show ?thesis
    using assms by (simp add: stand_down_event_def EVENT_KIND_STAND_DOWN_def scalar_lit)
qed

lemma misroute_value:
  "reason_value r \<in> MISROUTE_REASONS \<longleftrightarrow> r \<in> {Identity_unresolved, Identity_role_ambiguous, Identity_operator_no_task,
     Operator_no_tier_c_check, Field_body_divergence, Field_not_resolvable}"
  "reason_value r = reason_value r' \<longleftrightarrow> r = r'"
proof -
  show inj: "reason_value r = reason_value r' \<longleftrightarrow> r = r'" for r r' by (cases r; cases r'; simp add: reason_value_def)
  show "reason_value r \<in> MISROUTE_REASONS \<longleftrightarrow> r \<in> {Identity_unresolved, Identity_role_ambiguous, Identity_operator_no_task,
     Operator_no_tier_c_check, Field_body_divergence, Field_not_resolvable}"
    by (simp add: MISROUTE_REASONS_def inj)
qed

text \<open>C37. A stand-down that is posted is read by the board as what it is: a handoff that could not be routed lands in the
  misroute lane, a Tier-C request handed to the operator stays a decision and is marked as a violation, and no other
  stand-down is taken for either. This holds whatever the notice, the project, the thread and the detail are, provided
  the marker was added (the notice has more than one line), the notice opens no comment of its own, no line of
  the body is the mark of a merge relay, and project, thread and detail hold no lone surrogate.\<close>

theorem stand_down_lands_in_its_lane:
  assumes "with_stop_marker notice (stand_down_event Identity_item r project thread detail) = Some body"
    and "body \<noteq> notice" and "\<not> opens_comment notice" and "\<not> is_merge_wait_relay body"
    and "list_all scalar project" and "list_all scalar thread" and "list_all scalar detail"
  shows "\<exists>c. classify_parked cf body = Some c \<and>
     (lane c = Lane_misroute \<longleftrightarrow> r \<in> {Identity_unresolved, Identity_role_ambiguous, Identity_operator_no_task,
        Operator_no_tier_c_check, Field_body_divergence, Field_not_resolvable}) \<and>
     (protocol_violation c \<longleftrightarrow> r = Operator_tier_c_conflict) \<and>
     (r = Operator_tier_c_conflict \<longrightarrow> lane c = Lane_decision)"
proof -
  obtain pre m post where p: "body = pre @ m @ post" "\<not> opens_comment pre" "\<not> opens_comment post"
    "render_stop_marker (stand_down_event Identity_item r project thread detail) = Some m"
    by (rule with_marker_split [OF assms(1-3)])
  have "parse_stop_marker body = Some ((lit ''kind'', Str EVENT_KIND_STAND_DOWN) #
      event_fields (stand_down_event Identity_item r project thread detail))"
    using parse_rendered [OF p(4) stand_down_ok [OF assms(5-7)] p(2,3)] by (simp add: p(1) stand_down_event_def)
  then have "identity_reason body = Some (Str (reason_value r))"
    by (simp add: identity_reason_def stand_down_event_def json_get_Cons)
  then show ?thesis
    using assms(4) by (auto simp: classify_parked_def misroute_value unhashable_def in_lane_def classify_handoff_def Let_def)
qed

definition sample_stop :: stop_event where
  "sample_stop = stand_down_event Identity_item Operator_no_tier_c_check (lit ''p'') (lit ''T'') (lit ''d'')"

text \<open>A notice that names the declaration to use, as the notices of a refused operator handoff do.\<close>

definition sample_notice :: pystr where "sample_notice = lit ''TIER-C: <type>'' @ [10] @ lit ''NEXT: human''"

definition sample_marker :: pystr where
  "sample_marker = render_marker ''stop'' (Obj ((lit ''kind'', Str EVENT_KIND_STAND_DOWN) # event_fields sample_stop))"

lemma splitlines_from_set: "line \<in> set (splitlines_from cur s) \<Longrightarrow> set line \<subseteq> set cur \<union> set s"
proof (induction cur s arbitrary: line rule: splitlines_from.induct)
  case (2 cur c cs)
  have "set (after_break c cs) \<subseteq> set cs" by (cases cs) auto
  then show ?case using 2 by (fastforce split: if_splits)
qed (auto split: if_splits)

lemma no_merge_mark: "77 \<notin> set body \<Longrightarrow> \<not> is_merge_wait_relay body"
proof
  assume M: "77 \<notin> set body" and "is_merge_wait_relay body"
  then obtain line where "line \<in> set (splitlines body)" "startswith line MERGE_WAIT_MARK"
    by (auto simp: is_merge_wait_relay_def list_ex_iff)
  then have "77 \<in> set line" "set line \<subseteq> set body"
    using splitlines_from_set [of line "[]" body]
    by (auto simp: splitlines_def MERGE_WAIT_MARK_def lit_Cons startswith_iff)
  then show False using M by blast
qed

lemmas marker_eval = render_marker_def dumps_def json_string_def escape_char_def short_escapes_def ascii_printable_def
  replace_greater_def lit_Cons EVENT_KIND_STAND_DOWN_def item_value_def reason_value_def

lemma sample_marker_plain: "\<not> is_merge_wait_relay (lit ''TIER-C: <type>'' @ [10] @ sample_marker @ [10, 10] @ lit ''NEXT: human'')"
  by (rule no_merge_mark) (simp add: sample_marker_def sample_stop_def stand_down_event_def marker_eval)

lemma sample_with_marker:
  "with_stop_marker sample_notice sample_stop = Some (lit ''TIER-C: <type>'' @ [10] @ sample_marker @ [10, 10] @ lit ''NEXT: human'')"
proof -
  have "rstrip_newlines sample_notice = sample_notice"
    by (simp add: rstrip_newlines_def lstrip_char_def sample_notice_def lit_Cons)
  moreover have "rpartition sample_notice [10] = (lit ''TIER-C: <type>'', True, lit ''NEXT: human'')"
    unfolding sample_notice_def append.simps by (rule rpartition_char) (simp add: lit_Cons)
  moreover have "render_stop_marker sample_stop = Some sample_marker"
    by (simp add: render_stop_marker_def sample_stop_def sample_marker_def stand_down_event_def)
  ultimately show ?thesis by (simp add: with_stop_marker_def)
qed

lemma stand_down_lands_in_its_lane_witness:
  "\<exists>c. classify_parked id (lit ''TIER-C: <type>'' @ [10] @ sample_marker @ [10, 10] @ lit ''NEXT: human'') = Some c \<and> lane c = Lane_misroute"
proof -
  have "lit ''TIER-C: <type>'' @ [10] @ sample_marker @ [10, 10] @ lit ''NEXT: human'' \<noteq> sample_notice" "\<not> opens_comment sample_notice"
    by (simp_all add: sample_notice_def lit_Cons)
  then show ?thesis
    using stand_down_lands_in_its_lane [OF sample_with_marker [unfolded sample_stop_def] _ _
        sample_marker_plain scalar_lit scalar_lit scalar_lit, of id] by auto
qed

text \<open>Any object that a body carries as its one stop marker is the marker the reader finds.\<close>

lemma stop_marker_read:
  assumes "json_ok (Obj m)" and "\<exists>k. json_get (lit ''kind'') m = Str k" and "\<not> opens_comment pre" and "\<not> opens_comment post"
  shows "parse_stop_marker (pre @ render_marker ''stop'' (Obj m) @ post) = Some m"
proof -
  have "marker_payloads ''stop'' (pre @ render_marker ''stop'' (Obj m) @ post) = [json_text [] no_greater (Obj m)]"
    by (rule marker_payloads_render [OF stop_name assms(1,3,4)])
  moreover have "read_stop_payload (json_text [] no_greater (Obj m)) = Some m"
    using loads_json_text [OF _ printable_no_greater assms(1), of "[]"] assms(2) by (auto simp: read_stop_payload_def)
  ultimately show ?thesis by (simp add: parse_stop_marker_def map_filter_simps)
qed

text \<open>C38. The lane of a parked thread is not always an answer, although the function promises one for every body because a
  scheduled tick calls it. A body whose stop marker is some object with a kind makes the classification raise exactly when
  the object is an identity stand-down whose reason is a list or an object, and the body is not the relay of a merge. The
  marker's object is any object of JSON; around it stands any text that opens no comment.\<close>

theorem odd_marker_raises:
  assumes "json_ok (Obj m)" and "json_get (lit ''kind'') m = Str k"
    and "\<not> opens_comment pre" and "\<not> opens_comment post"
  shows "classify_parked cf (pre @ render_marker ''stop'' (Obj m) @ post) = None \<longleftrightarrow>
     k = EVENT_KIND_STAND_DOWN \<and> json_get (lit ''unresolved'') m = Str (item_value Identity_item) \<and>
     (case json_get (lit ''reason'') m of Arr _ \<Rightarrow> True | Obj _ \<Rightarrow> True | _ \<Rightarrow> False) \<and>
     \<not> is_merge_wait_relay (pre @ render_marker ''stop'' (Obj m) @ post)"
proof -
  have "parse_stop_marker (pre @ render_marker ''stop'' (Obj m) @ post) = Some m"
    using stop_marker_read [OF assms(1) _ assms(3,4)] assms(2) by blast
  then show ?thesis
    using assms(2)
    by (auto simp: classify_parked_def identity_reason_def unhashable_def reason_value_def split: json.splits)
qed

definition odd_payload :: "(pystr \<times> json) list" where
  "odd_payload = [(lit ''kind'', Str EVENT_KIND_STAND_DOWN), (lit ''unresolved'', Str (lit ''identity'')), (lit ''reason'', Arr [])]"

lemma odd_plain: "\<not> is_merge_wait_relay ([] @ render_marker ''stop'' (Obj odd_payload) @ [])"
  by (rule no_merge_mark) (simp add: odd_payload_def marker_eval)

lemma odd_marker_raises_witness: "classify_parked id ([] @ render_marker ''stop'' (Obj odd_payload) @ []) = None"
proof -
  have "json_ok (Obj odd_payload)" by (simp add: odd_payload_def scalar_lit EVENT_KIND_STAND_DOWN_def)
  from odd_marker_raises [OF this, of EVENT_KIND_STAND_DOWN "[]" "[]" id] odd_plain show ?thesis
    by (simp add: odd_payload_def json_get_Cons item_value_def)
qed

end
