(* ===== verification/StallLedger.thy ===== *)
theory StallLedger
  imports Json PyTime
begin

text \<open>
  The stall ledger's domain: units, events and records (\<open>stall_ledger/model.py\<close>), who caused an event
  (\<open>origin.py\<close>), when a unit is stalled (\<open>predicates.py\<close>), its class (\<open>classifier.py\<close>), the budget of the
  one automatic remedy (\<open>refire.py\<close>), the remedy marker (\<open>adapters.py\<close>), the health of a heartbeat
  (\<open>heartbeat.py\<close>). Instants and durations are microseconds.
\<close>

section \<open>The model of \<open>model.py\<close>\<close>

definition T_INFLIGHT :: duration where "T_INFLIGHT = minutes 30"
definition T_UNCERTAIN :: duration where "T_UNCERTAIN = minutes 30"
definition T_SKEW :: duration where "T_SKEW = minutes 5"

datatype unit_kind = Pr_unit | Thread_unit | Quarantine_unit

definition unit_kind_value :: "unit_kind \<Rightarrow> pystr" where
  "unit_kind_value k = (case k of Pr_unit \<Rightarrow> lit ''pr'' | Thread_unit \<Rightarrow> lit ''thread''
     | Quarantine_unit \<Rightarrow> lit ''quarantine'')"

definition read_unit_kind :: "pystr \<Rightarrow> unit_kind option" where
  "read_unit_kind s = find (\<lambda>k. unit_kind_value k = s) [Pr_unit, Thread_unit, Quarantine_unit]"

record work_unit =
  wu_kind :: unit_kind
  wu_ident :: pystr

definition unit_key :: "work_unit \<Rightarrow> pystr" where
  "unit_key u = unit_kind_value (wu_kind u) @ lit '':'' @ wu_ident u"

datatype remedy_state = In_flight | Completed | Id_lost

definition remedy_state_value :: "remedy_state \<Rightarrow> pystr" where
  "remedy_state_value s = (case s of In_flight \<Rightarrow> lit ''in-flight'' | Completed \<Rightarrow> lit ''completed''
     | Id_lost \<Rightarrow> lit ''id-lost'')"

definition read_remedy_state :: "pystr \<Rightarrow> remedy_state option" where
  "read_remedy_state s = find (\<lambda>k. remedy_state_value k = s) [In_flight, Completed, Id_lost]"

datatype remedy_outcome = No_state_change | State_changed | Outcome_unknown

record emitted_ids =
  github_review_ids :: "pystr list"
  chatroom_msg_ids :: "pystr list"

definition emitted_has :: "emitted_ids \<Rightarrow> pystr \<Rightarrow> bool" where
  "emitted_has e i \<longleftrightarrow> i \<in> set (github_review_ids e) \<or> i \<in> set (chatroom_msg_ids e)"

definition emitted_none :: "emitted_ids \<Rightarrow> bool" where
  "emitted_none e \<longleftrightarrow> github_review_ids e = [] \<and> chatroom_msg_ids e = []"

text \<open>The kind of an attempt is always \<open>gate-refire\<close> and is left out. The instant of an attempt carries the
  offset it was read with: the window around it is computed on the local reading.\<close>

record remedy_attempt =
  att_at :: time
  att_offset :: duration
  att_head :: pystr
  att_state :: remedy_state
  att_emitted :: emitted_ids
  att_outcome :: remedy_outcome
  att_flags :: "pystr list"

record class_entry =
  ce_at :: time
  ce_class :: pystr

record stall_record =
  sr_unit :: work_unit
  epoch_start :: time
  first_seen_at :: time
  sr_class :: pystr
  class_history :: "class_entry list"
  remedy_attempts :: "remedy_attempt list"
  ladder_stage :: pystr
  sr_flags :: "pystr list"
  evidence :: "(pystr \<times> json) list"

definition record_age :: "stall_record \<Rightarrow> time \<Rightarrow> duration" where
  "record_age r now = now - epoch_start r"

section \<open>Motion and its origin\<close>

text \<open>The types of motion are texts: a listing may carry others than the three the ledger knows.\<close>

definition HEAD_PUSH :: pystr where "HEAD_PUSH = lit ''head_push''"
definition REVIEW_MOTION :: pystr where "REVIEW_MOTION = lit ''review''"
definition CHATROOM_MSG :: pystr where "CHATROOM_MSG = lit ''chatroom_msg''"

record motion_event =
  mo_type :: pystr
  mo_id :: pystr
  mo_at :: time

datatype origin_kind = Loop_origin | Participant_origin

text \<open>Is an instant in the uncertain window of one of the attempts? The first window that holds it ends the search; a
  bound outside the calendar raises.\<close>

fun in_window :: "remedy_attempt list \<Rightarrow> time \<Rightarrow> overflow + bool" where
  "in_window [] t = Inr False"
| "in_window (a # attempts) t =
     (if att_state a = Completed then in_window attempts t
      else (case shifted (att_at a) (att_offset a) (- T_SKEW) of
              Inl x \<Rightarrow> Inl x
            | Inr lower \<Rightarrow>
                (case shifted (att_at a) (att_offset a) T_UNCERTAIN of
                   Inl x \<Rightarrow> Inl x
                 | Inr upper \<Rightarrow> if lower \<le> t \<and> t \<le> upper then Inr True else in_window attempts t)))"

definition origin :: "motion_event \<Rightarrow> remedy_attempt list \<Rightarrow> overflow + origin_kind" where
  "origin e attempts =
     (if list_ex (\<lambda>a. emitted_has (att_emitted a) (mo_id e)) attempts then Inr Loop_origin
      else (case in_window attempts (mo_at e) of
              Inl x \<Rightarrow> Inl x
            | Inr within \<Rightarrow> Inr (if within then Loop_origin else Participant_origin)))"

section \<open>Stalled units\<close>

record pr_state =
  pr_is_open :: bool
  pr_is_draft :: bool
  has_verdict :: bool
  verdict_is_rc :: bool
  verdict_is_indefinite :: bool
  merge_executable :: bool
  approve_awaits_human :: bool

definition needs_actor_pr :: "pr_state \<Rightarrow> bool" where
  "needs_actor_pr s =
     (if \<not> pr_is_open s \<or> pr_is_draft s then False
      else if approve_awaits_human s then False
      else if \<not> has_verdict s then True
      else if verdict_is_rc s then True
      else if verdict_is_indefinite s then True
      else \<not> merge_executable s)"

text \<open>Status and expiry of the dormant pin.\<close>

definition needs_actor_thread :: "pystr \<Rightarrow> bool \<Rightarrow> bool" where
  "needs_actor_thread status dormant_until_expired =
     (if status = lit ''resolved'' then False else dormant_until_expired)"

definition stalled :: "time \<Rightarrow> time \<Rightarrow> bool \<Rightarrow> duration \<Rightarrow> bool" where
  "stalled last_motion now needs_actor n = (if \<not> needs_actor then False else n < now - last_motion)"

definition N_PR :: duration where "N_PR = hours 12"
definition N_QUARANTINE :: duration where "N_QUARANTINE = 0"
definition N_OTHER_THREAD :: duration where "N_OTHER_THREAD = hours 72"

datatype stall_class = Resumable | Refireable | Externally_blocked | Quarantined | Unclassified

definition class_value :: "stall_class \<Rightarrow> pystr" where
  "class_value c = (case c of Resumable \<Rightarrow> lit ''resumable'' | Refireable \<Rightarrow> lit ''refireable''
     | Externally_blocked \<Rightarrow> lit ''externally-blocked'' | Quarantined \<Rightarrow> lit ''quarantined''
     | Unclassified \<Rightarrow> lit ''unclassified'')"

record classifier_input =
  is_quarantined :: bool
  is_externally_blocked :: bool
  indefinite_verdict :: bool
  ci_became_definitive :: bool
  has_next_participant :: bool
  external_prereqs_hold :: bool

definition no_features :: classifier_input where
  "no_features = \<lparr>is_quarantined = False, is_externally_blocked = False, indefinite_verdict = False,
     ci_became_definitive = False, has_next_participant = False, external_prereqs_hold = False\<rparr>"

definition classify :: "classifier_input \<Rightarrow> stall_class" where
  "classify x =
     (if is_quarantined x then Quarantined
      else if is_externally_blocked x then Externally_blocked
      else if indefinite_verdict x \<and> ci_became_definitive x then Refireable
      else if has_next_participant x \<and> external_prereqs_hold x then Resumable
      else Unclassified)"

record observation =
  ob_unit :: work_unit
  ob_needs_actor :: bool
  ob_n :: duration
  ob_features :: classifier_input
  ob_motion :: "motion_event list"
  baseline_at :: time

text \<open>The newest motion of a participant, not before the unit's own start.\<close>

fun newest_motion :: "remedy_attempt list \<Rightarrow> motion_event list \<Rightarrow> time \<Rightarrow> overflow + time" where
  "newest_motion attempts [] newest = Inr newest"
| "newest_motion attempts (e # es) newest =
     (case origin e attempts of
        Inl x \<Rightarrow> Inl x
      | Inr Participant_origin \<Rightarrow> newest_motion attempts es (max newest (mo_at e))
      | Inr Loop_origin \<Rightarrow> newest_motion attempts es newest)"

definition last_participant_motion :: "observation \<Rightarrow> remedy_attempt list \<Rightarrow> overflow + time" where
  "last_participant_motion ob attempts = newest_motion attempts (ob_motion ob) (baseline_at ob)"

fun best_motion ::
    "time \<Rightarrow> remedy_attempt list \<Rightarrow> motion_event list \<Rightarrow> motion_event option \<Rightarrow> overflow + motion_event option" where
  "best_motion baseline attempts [] best = Inr best"
| "best_motion baseline attempts (e # es) best =
     (case origin e attempts of
        Inl x \<Rightarrow> Inl x
      | Inr Loop_origin \<Rightarrow> best_motion baseline attempts es best
      | Inr Participant_origin \<Rightarrow>
          best_motion baseline attempts es
            (if mo_at e < baseline then best
             else (case best of None \<Rightarrow> Some e | Some b \<Rightarrow> if mo_at b < mo_at e then Some e else best)))"

definition select_e :: "observation \<Rightarrow> remedy_attempt list \<Rightarrow> overflow + motion_event option" where
  "select_e ob attempts = best_motion (baseline_at ob) attempts (ob_motion ob) None"

section \<open>The remedy and its budget\<close>

text \<open>The state of the attempt that used up the budget of a head, or \<open>None\<close> when a refire is allowed.\<close>

definition budget_for_head :: "stall_record \<Rightarrow> pystr \<Rightarrow> remedy_state option" where
  "budget_for_head r head = map_option att_state (find (\<lambda>a. att_head a = head) (remedy_attempts r))"

datatype refire_budget = Allowed | Wrong_class pystr | Already_attempted remedy_state

definition should_refire :: "stall_record \<Rightarrow> pystr \<Rightarrow> refire_budget" where
  "should_refire r head =
     (if sr_class r \<noteq> class_value Refireable then Wrong_class (sr_class r)
      else (case budget_for_head r head of None \<Rightarrow> Allowed | Some s \<Rightarrow> Already_attempted s))"

definition new_attempt :: "time \<Rightarrow> pystr \<Rightarrow> remedy_attempt" where
  "new_attempt now head = \<lparr>att_at = now, att_offset = 0, att_head = head, att_state = In_flight,
     att_emitted = \<lparr>github_review_ids = [], chatroom_msg_ids = []\<rparr>, att_outcome = Outcome_unknown, att_flags = []\<rparr>"

definition prepare_attempt :: "time \<Rightarrow> pystr \<Rightarrow> stall_record \<Rightarrow> stall_record" where
  "prepare_attempt now head r = r\<lparr>remedy_attempts := remedy_attempts r @ [new_attempt now head]\<rparr>"

definition finalize_attempt :: "pystr list \<Rightarrow> pystr list \<Rightarrow> remedy_outcome \<Rightarrow> remedy_attempt \<Rightarrow> remedy_attempt" where
  "finalize_attempt reviews msgs out a =
     (let e = \<lparr>github_review_ids = reviews, chatroom_msg_ids = msgs\<rparr> in
      a\<lparr>att_emitted := e, att_outcome := out, att_state := (if emitted_none e then Id_lost else Completed)\<rparr>)"

definition expire_in_flight :: "time \<Rightarrow> remedy_attempt \<Rightarrow> overflow + remedy_attempt \<times> bool" where
  "expire_in_flight now a =
     (if att_state a \<noteq> In_flight then Inr (a, False)
      else (case shifted (att_at a) (att_offset a) T_INFLIGHT of
              Inl x \<Rightarrow> Inl x
            | Inr expiry \<Rightarrow>
                Inr (if now \<le> expiry then (a, False)
                     else (a\<lparr>att_state := Id_lost, att_flags := att_flags a @ [lit ''inflight-expired'']\<rparr>, True))))"

section \<open>The remedy marker\<close>

datatype unverifiable = Fetch_failed | Deleted | Malformed_marker

datatype marker_check = Marked pystr | Unmarked | Unverifiable unverifiable

definition MARKER_PREFIX :: pystr where "MARKER_PREFIX = lit ''<!-- stall-ledger-remedy''"

definition marker_id_char :: "nat \<Rightarrow> bool" where
  "marker_id_char c \<longleftrightarrow> ascii_alnum c \<or> c \<in> {46, 95, 58, 45}"

definition V1_OPEN :: pystr where "V1_OPEN = lit ''<!-- stall-ledger-remedy:v1 attempt=''"
definition V1_CLOSE :: pystr where "V1_CLOSE = lit '' -->''"

text \<open>\<open>encode\<close> raises \<open>ValueError\<close> (\<open>None\<close>) on an identifier outside \<open>[A-Za-z0-9._:-]+\<close>.\<close>

definition encode_remedy :: "pystr \<Rightarrow> pystr option" where
  "encode_remedy i = (if i \<noteq> [] \<and> list_all marker_id_char i then Some (V1_OPEN @ i @ V1_CLOSE) else None)"

definition decode_remedy :: "pystr \<Rightarrow> marker_check" where
  "decode_remedy body =
     (let line = takeWhile (\<lambda>c. c \<noteq> 10) body;
          first = (if endswith line [13] then butlast line else line)
      in if \<not> startswith first MARKER_PREFIX then Unmarked
         else if startswith first V1_OPEN
         then (let t = drop (length V1_OPEN) first; i = takeWhile marker_id_char t in
               if i \<noteq> [] \<and> dropWhile marker_id_char t = V1_CLOSE then Marked i else Unverifiable Malformed_marker)
         else Unverifiable Malformed_marker)"

section \<open>The health of a heartbeat\<close>

definition T_HEARTBEAT :: duration where "T_HEARTBEAT = hours 4"

datatype fetch_outcome =
  Fetch_ok | Http_error | Fetch_timeout | Auth_failure | Auth_missing | File_missing | Parse_error

record source_report =
  src_name :: pystr
  src_outcome :: fetch_outcome
  examined :: int
  recognized :: int
  unrecognized :: int
  observed_version :: pystr

text \<open>The constructor raises \<open>ValueError\<close> (\<open>None\<close>) on counts that do not add up.\<close>

definition make_report :: "pystr \<Rightarrow> fetch_outcome \<Rightarrow> int \<Rightarrow> int \<Rightarrow> int \<Rightarrow> pystr \<Rightarrow> source_report option" where
  "make_report name outcome ex rec unrec ver =
     (if ex < 0 \<or> rec < 0 \<or> unrec < 0 then None
      else if rec + unrec \<noteq> ex then None
      else Some \<lparr>src_name = name, src_outcome = outcome, examined = ex, recognized = rec, unrecognized = unrec,
                 observed_version = ver\<rparr>)"

definition is_failure :: "pystr \<Rightarrow> source_report \<Rightarrow> bool" where
  "is_failure expected s =
     (if src_outcome s \<noteq> Fetch_ok then True else if 0 < unrecognized s then True else expected \<noteq> observed_version s)"

record heartbeat =
  evaluated_at :: time
  format_version :: pystr
  hb_sources :: "source_report list"
  last_valid_ingest :: "time option"
  hb_stalls :: "pystr list"

definition build_heartbeat ::
    "time \<Rightarrow> pystr \<Rightarrow> source_report list \<Rightarrow> time option \<Rightarrow> pystr list \<Rightarrow> heartbeat option" where
  "build_heartbeat now ver srcs previous stalls =
     (let last = (if list_ex (is_failure ver) srcs then previous else Some now) in
      if srcs = [] then None
      else Some \<lparr>evaluated_at = now, format_version = ver, hb_sources = srcs, last_valid_ingest = last,
                 hb_stalls = stalls\<rparr>)"

text \<open>The instants of a heartbeat are read in UTC.\<close>

definition expires_at :: "heartbeat \<Rightarrow> overflow + time option" where
  "expires_at h =
     (case last_valid_ingest h of
        None \<Rightarrow> Inr None
      | Some t \<Rightarrow> (case shifted t 0 T_HEARTBEAT of Inl x \<Rightarrow> Inl x | Inr e \<Rightarrow> Inr (Some e)))"

definition failing_sources :: "heartbeat \<Rightarrow> source_report list" where
  "failing_sources h = filter (is_failure (format_version h)) (hb_sources h)"

datatype health = Healthy | Idle | Ingest_failure

definition derive_state :: "heartbeat \<Rightarrow> health" where
  "derive_state h =
     (if failing_sources h \<noteq> [] then Ingest_failure
      else if list_all (\<lambda>s. examined s = 0) (hb_sources h) then Idle
      else Healthy)"

definition is_stale :: "time \<Rightarrow> heartbeat \<Rightarrow> overflow + bool" where
  "is_stale now h =
     (case expires_at h of Inl x \<Rightarrow> Inl x | Inr None \<Rightarrow> Inr True | Inr (Some t) \<Rightarrow> Inr (t < now))"

section \<open>Timing\<close>

definition HEARTBEAT_INTERVAL :: duration where "HEARTBEAT_INTERVAL = minutes 15"
definition T_TICK_MAX :: duration where "T_TICK_MAX = minutes 10"
definition T_LOCK_STALE :: duration where "T_LOCK_STALE = minutes 14"
definition FETCH_TIMEOUT :: duration where "FETCH_TIMEOUT = seconds 30"
definition FETCH_MARGIN :: duration where "FETCH_MARGIN = minutes 2"

definition fetch_window :: "duration \<Rightarrow> duration \<Rightarrow> duration" where
  "fetch_window t_tick_max margin = t_tick_max - margin"

datatype timing_problem = Timeout_not_positive | Window_too_short duration duration

definition check_timing :: "duration \<Rightarrow> duration \<Rightarrow> duration \<Rightarrow> timing_problem option" where
  "check_timing t_tick_max fetch_timeout margin =
     (if fetch_timeout \<le> 0 then Some Timeout_not_positive
      else if fetch_window t_tick_max margin < fetch_timeout
      then Some (Window_too_short (fetch_window t_tick_max margin) fetch_timeout)
      else None)"

section \<open>Facts\<close>

lemma seconds_le [simp]: "seconds a \<le> seconds b \<longleftrightarrow> a \<le> b"
  by (simp add: seconds_def)

lemma unit_kind_text [simp]: "read_unit_kind (unit_kind_value k) = Some k"
  by (cases k) (simp_all add: read_unit_kind_def unit_kind_value_def)

lemma read_unit_kind_iff: "read_unit_kind s = Some k \<longleftrightarrow> s = unit_kind_value k"
proof
  assume "read_unit_kind s = Some k"
  then show "s = unit_kind_value k" unfolding read_unit_kind_def by (drule_tac find_SomeD) simp
qed simp

lemma no_colon_kind: "58 \<notin> set (unit_kind_value k)"
  by (cases k) (simp_all add: unit_kind_value_def text_simps)

text \<open>Different units have different keys.\<close>

lemma unit_key_inject [simp]: "unit_key u = unit_key v \<longleftrightarrow> u = v"
proof
  assume eq: "unit_key u = unit_key v"
  have kind: "takeWhile (\<lambda>c. c \<noteq> 58) (unit_key w) = unit_kind_value (wu_kind w)"
    and ident: "drop 1 (dropWhile (\<lambda>c. c \<noteq> 58) (unit_key w)) = wu_ident w" for w
    using no_colon_kind [of "wu_kind w"]
    by (auto simp: unit_key_def text_simps takeWhile_append dropWhile_append)
  have "read_unit_kind (unit_kind_value (wu_kind u)) = read_unit_kind (unit_kind_value (wu_kind v))"
    using kind [of u] kind [of v] eq by simp
  moreover have "wu_ident u = wu_ident v"
    using ident [of u] ident [of v] eq by simp
  ultimately show "u = v" by simp
qed simp

text \<open>What the clock of a unit is: the baseline or the newest motion of a participant.\<close>

definition motions_of :: "observation \<Rightarrow> remedy_attempt list \<Rightarrow> motion_event list" where
  "motions_of ob attempts = filter (\<lambda>e. origin e attempts = Inr Participant_origin) (ob_motion ob)"

lemma newest_motion_fold:
  "newest_motion attempts es newest = Inr t \<Longrightarrow>
     t = fold max (map mo_at (filter (\<lambda>e. origin e attempts = Inr Participant_origin) es)) newest"
  by (induction es arbitrary: newest) (auto simp: max.commute split: sum.splits origin_kind.splits)

lemma fold_max_Max: "fold max xs (t :: int) = Max (insert t (set xs))"
  by (simp add: Max.set_eq_fold [symmetric])

lemma last_motion_Max:
  "last_participant_motion ob attempts = Inr t \<Longrightarrow> t = Max (insert (baseline_at ob) (mo_at ` set (motions_of ob attempts)))"
  unfolding last_participant_motion_def motions_of_def by (drule newest_motion_fold) (simp add: fold_max_Max)

text \<open>Only an attempt that is not completed can make the question of origin fail, and only near the ends of the calendar.\<close>

definition windows_fit :: "remedy_attempt list \<Rightarrow> bool" where
  "windows_fit attempts \<longleftrightarrow>
     (\<forall>a \<in> set attempts. att_state a \<noteq> Completed \<longrightarrow>
        in_calendar (att_at a + att_offset a - T_SKEW) \<and> in_calendar (att_at a + att_offset a + T_UNCERTAIN))"

lemma in_window_iff:
  "windows_fit attempts \<Longrightarrow> in_window attempts t =
     Inr (\<exists>a \<in> set attempts. att_state a \<noteq> Completed \<and> att_at a - T_SKEW \<le> t \<and> t \<le> att_at a + T_UNCERTAIN)"
  by (induction attempts) (auto simp: windows_fit_def shifted_def)

lemma origin_fits: "windows_fit attempts \<Longrightarrow> \<exists>k. origin e attempts = Inr k"
  by (simp add: origin_def in_window_iff)

lemma newest_motion_fits: "windows_fit attempts \<Longrightarrow> \<exists>t. newest_motion attempts es newest = Inr t"
proof (induction es arbitrary: newest)
  case (Cons e es)
  obtain k where "origin e attempts = Inr k" using origin_fits [OF Cons.prems] by blast
  then show ?case using Cons.IH [OF Cons.prems] by (cases k) simp_all
qed simp

lemma last_motion_fits: "windows_fit attempts \<Longrightarrow> \<exists>t. last_participant_motion ob attempts = Inr t"
  unfolding last_participant_motion_def by (rule newest_motion_fits)

text \<open>With no attempts every motion is that of a participant.\<close>

lemma windows_fit_Nil [simp]: "windows_fit []"
  by (simp add: windows_fit_def)

lemma origin_Nil [simp]: "origin e [] = Inr Participant_origin"
  by (simp add: origin_def)

definition silent_since :: "observation \<Rightarrow> time" where
  "silent_since ob = fold max (map mo_at (ob_motion ob)) (baseline_at ob)"

lemma last_motion_Nil [simp]: "last_participant_motion ob [] = Inr (silent_since ob)"
proof -
  have "newest_motion [] es newest = Inr (fold max (map mo_at es) newest)" for es newest
    by (induction es arbitrary: newest) (simp_all add: max.commute)
  then show ?thesis by (simp add: last_participant_motion_def silent_since_def)
qed

text \<open>The event the stall is opened on is the one that set the clock.\<close>

definition clock_of :: "time \<Rightarrow> motion_event option \<Rightarrow> time" where
  "clock_of baseline best = (case best of None \<Rightarrow> baseline | Some b \<Rightarrow> mo_at b)"

lemma best_motion_clock:
  "best_motion baseline attempts es best = Inr best' \<Longrightarrow> baseline \<le> clock_of baseline best \<Longrightarrow>
     newest_motion attempts es (clock_of baseline best) = Inr (clock_of baseline best') \<and>
     (best' = best \<or> (\<exists>e \<in> set es. origin e attempts = Inr Participant_origin \<and> best' = Some e))"
proof (induction es arbitrary: best)
  case (Cons e es)
  show ?case
  proof (cases "origin e attempts")
    case (Inr k)
    define picked where "picked = (if mo_at e < baseline then best
        else (case best of None \<Rightarrow> Some e | Some b \<Rightarrow> if mo_at b < mo_at e then Some e else best))"
    show ?thesis
    proof (cases k)
      case Participant_origin
      have "clock_of baseline picked = max (clock_of baseline best) (mo_at e)" "picked = best \<or> picked = Some e"
        using Cons.prems(2) by (auto simp: picked_def clock_of_def split: option.splits)
      moreover have "best_motion baseline attempts es picked = Inr best'"
        using Cons.prems(1) by (simp add: Inr Participant_origin picked_def)
      ultimately show ?thesis
        using Cons.IH [of picked] Cons.prems(2) by (auto simp: Inr Participant_origin)
    qed (use Cons in \<open>auto simp: Inr\<close>)
  qed (use Cons.prems in simp)
qed simp

lemma select_e_sets_clock:
  "select_e ob attempts = Inr best \<Longrightarrow>
     last_participant_motion ob attempts = Inr (clock_of (baseline_at ob) best) \<and>
     (case best of None \<Rightarrow> True | Some e \<Rightarrow> e \<in> set (motions_of ob attempts))"
  using best_motion_clock [of "baseline_at ob" attempts "ob_motion ob" None best]
  by (auto simp: select_e_def last_participant_motion_def motions_of_def clock_of_def split: option.splits)

lemma select_e_Nil: "\<exists>best. select_e ob [] = Inr best"
proof -
  have "\<exists>best'. best_motion b [] es best = Inr best'" for b es best
    by (induction es arbitrary: best) simp_all
  then show ?thesis by (simp add: select_e_def)
qed

lemma v1_opens: "startswith (V1_OPEN @ t) MARKER_PREFIX"
  by (simp add: V1_OPEN_def MARKER_PREFIX_def text_simps startswith_def)

lemma v1_ends: "V1_CLOSE = [32, 45, 45, 62]" "\<not> marker_id_char 32"
  by (simp_all add: V1_CLOSE_def text_simps marker_id_char_def ascii_alnum_def ascii_letter_def)

lemma v1_plain: "10 \<notin> set V1_OPEN"
  by (simp add: V1_OPEN_def text_simps)

lemma marker_char_plain: "marker_id_char c \<Longrightarrow> c \<noteq> 10"
  by (auto simp: marker_id_char_def ascii_alnum_def ascii_letter_def)

lemma decode_first:
  assumes "encode_remedy i = Some m" and "takeWhile (\<lambda>c. c \<noteq> 10) rest \<in> {[], [13]}"
  shows "decode_remedy (m @ rest) = Marked i"
proof -
  have i: "i \<noteq> []" "list_all marker_id_char i" and m: "m = V1_OPEN @ i @ V1_CLOSE"
    using assms(1) by (auto simp: encode_remedy_def split: if_splits)
  have plain: "10 \<notin> set m"
    using i v1_plain marker_char_plain by (auto simp: m v1_ends list_all_iff)
  have line: "takeWhile (\<lambda>c. c \<noteq> 10) (m @ rest) = m @ takeWhile (\<lambda>c. c \<noteq> 10) rest"
    using plain by (auto simp: takeWhile_append)
  have "(if endswith l [13] then butlast l else l) = m" if "l = m \<or> l = m @ [13]" for l
    using that by (auto simp: m v1_ends endswith_def startswith_def butlast_append)
  then have first: "(let l = takeWhile (\<lambda>c. c \<noteq> 10) (m @ rest) in if endswith l [13] then butlast l else l) = m"
    using assms(2) line by (auto simp: Let_def)
  have "takeWhile marker_id_char (i @ V1_CLOSE) = i \<and> dropWhile marker_id_char (i @ V1_CLOSE) = V1_CLOSE"
    using i by (auto simp: v1_ends list_all_iff takeWhile_append dropWhile_append)
  then show ?thesis
    using first i v1_opens by (simp add: decode_remedy_def Let_def) (simp add: m)
qed

text \<open>A decoded marker is a marker that was written at the start of the body.\<close>

lemma decode_remedy_iff:
  "decode_remedy body = Marked i \<longleftrightarrow>
     (\<exists>m rest. encode_remedy i = Some m \<and> body = m @ rest \<and> (rest \<in> {[], [13]} \<or> startswith rest [10] \<or> startswith rest [13, 10]))"
proof
  let ?line = "takeWhile (\<lambda>c. c \<noteq> 10) body" and ?rest = "dropWhile (\<lambda>c. c \<noteq> 10) body"
  assume marked: "decode_remedy body = Marked i"
  define first where "first = (if endswith ?line [13] then butlast ?line else ?line)"
  define t where "t = drop (length V1_OPEN) first"
  have opens: "startswith first V1_OPEN" and i: "i = takeWhile marker_id_char t" "i \<noteq> []"
      and closes: "dropWhile marker_id_char t = V1_CLOSE"
    using marked unfolding decode_remedy_def Let_def first_def [symmetric] t_def [symmetric]
    by (auto split: if_splits)
  have "t = i @ V1_CLOSE" using takeWhile_dropWhile_id [of marker_id_char t] i closes by simp
  then have "first = V1_OPEN @ i @ V1_CLOSE" using opens by (auto simp: startswith_iff t_def)
  moreover have "list_all marker_id_char i" using i(1) by (auto simp: list_all_iff dest: set_takeWhileD)
  ultimately have enc: "encode_remedy i = Some first" using i by (simp add: encode_remedy_def)
  have line: "?line = first \<or> ?line = first @ [13]"
    using append_butlast_last_id [of ?line]
    by (auto simp: first_def endswith_def startswith_iff rev_eq_Cons_iff)
  have "?rest = [] \<or> (\<exists>u. ?rest = 10 # u)"
    using hd_dropWhile [of "\<lambda>c. c \<noteq> 10" body] by (cases ?rest) auto
  then have rest: "?rest \<in> {[]} \<or> startswith ?rest [10]" by (auto simp: startswith_iff)
  obtain u where "u = [] \<or> u = [13]" and "?line = first @ u" using line by auto
  moreover from this(2) have "body = first @ u @ ?rest"
    using takeWhile_dropWhile_id [of "\<lambda>c. c \<noteq> 10" body] by simp
  moreover have "u @ ?rest \<in> {[], [13]} \<or> startswith (u @ ?rest) [10] \<or> startswith (u @ ?rest) [13, 10]"
    using rest \<open>u = [] \<or> u = [13]\<close> by (auto simp: startswith_iff)
  ultimately show "\<exists>m rest. encode_remedy i = Some m \<and> body = m @ rest \<and>
      (rest \<in> {[], [13]} \<or> startswith rest [10] \<or> startswith rest [13, 10])"
    using enc by blast
next
  assume "\<exists>m rest. encode_remedy i = Some m \<and> body = m @ rest \<and>
      (rest \<in> {[], [13]} \<or> startswith rest [10] \<or> startswith rest [13, 10])"
  then show "decode_remedy body = Marked i"
    by (auto simp: startswith_iff intro!: decode_first)
qed

section \<open>One refire per head\<close>

text \<open>The life of a record as its owner lives it: the remedy is asked for before it is prepared.\<close>

inductive refire_step :: "stall_record \<Rightarrow> stall_record \<Rightarrow> bool" where
  prepare: "should_refire r head = Allowed \<Longrightarrow> refire_step r (prepare_attempt now head r)"
| finalize: "i < length (remedy_attempts r) \<Longrightarrow>
    refire_step r (r\<lparr>remedy_attempts := (remedy_attempts r)[i := finalize_attempt revs msgs out (remedy_attempts r ! i)]\<rparr>)"
| expire: "i < length (remedy_attempts r) \<Longrightarrow> expire_in_flight now (remedy_attempts r ! i) = Inr (a, b) \<Longrightarrow>
    refire_step r (r\<lparr>remedy_attempts := (remedy_attempts r)[i := a]\<rparr>)"
| reclassified: "refire_step r (r\<lparr>sr_class := c\<rparr>)"

lemma heads_kept: "att_head (finalize_attempt revs msgs out a) = att_head a"
    "expire_in_flight now a = Inr (a', b) \<Longrightarrow> att_head a' = att_head a"
  by (auto simp: finalize_attempt_def expire_in_flight_def Let_def split: if_splits sum.splits)

lemma map_upd_same: "i < length xs \<Longrightarrow> (map f xs)[i := f (xs ! i)] = map f xs"
  by (simp add: list_update_same_conv)

lemma refire_step_heads:
  "refire_step r r' \<Longrightarrow> distinct (map att_head (remedy_attempts r)) \<Longrightarrow> distinct (map att_head (remedy_attempts r'))"
proof (induction rule: refire_step.induct)
  case (prepare r head now)
  then have "head \<notin> att_head ` set (remedy_attempts r)"
    by (auto simp: should_refire_def budget_for_head_def find_None_iff split: if_splits option.splits)
  with prepare.prems show ?case by (simp add: prepare_attempt_def new_attempt_def)
qed (simp_all add: map_update heads_kept map_upd_same)

lemma distinct_filter_one: "distinct (map f xs) \<Longrightarrow> length (filter (\<lambda>x. f x = y) xs) \<le> 1"
proof (induction xs)
  case (Cons x xs)
  then have "f x = y \<Longrightarrow> filter (\<lambda>x. f x = y) xs = []" by (auto simp: filter_empty_conv image_iff)
  with Cons show ?case by auto
qed simp

lemma refires_once_per_head:
  "refire_step\<^sup>*\<^sup>* r r' \<Longrightarrow> remedy_attempts r = [] \<Longrightarrow> length (filter (\<lambda>a. att_head a = head) (remedy_attempts r')) \<le> 1"
proof -
  assume steps: "refire_step\<^sup>*\<^sup>* r r'" and start: "remedy_attempts r = []"
  from steps have "distinct (map att_head (remedy_attempts r'))"
    by (induction rule: rtranclp_induct) (simp_all add: start refire_step_heads)
  then show ?thesis
    by (rule distinct_filter_one)
qed

end
