(* ===== verification/IsoText.thy ===== *)
theory IsoText
  imports PyTime
begin

text \<open>
  The texts of instants: the calendar fields of an instant, \<open>isoformat()\<close> of an instant in UTC, and the
  theorem that \<open>fromisoformat\<close> reads the text back.
\<close>

section \<open>From an instant to the calendar\<close>

text \<open>The last year from \<open>y\<close> on that begins before the \<open>n\<close>-th day, and the month of a day of the year.\<close>

lemma days_before_year_Suc: "1 \<le> y \<Longrightarrow> days_before_year (Suc y) = days_before_year y + (if leap_year y then 366 else 365)"
proof -
  assume "1 \<le> y"
  define a b c where "a = (y - 1) div 4" and "b = (y - 1) div 100" and "c = (y - 1) div 400"
  have step: "y div k = (y - 1) div k + (if y mod k = 0 then 1 else 0)" if "0 < k" for k :: nat
    using \<open>1 \<le> y\<close> div_Suc [of "y - 1" k] by simp
  have now: "y div 4 = a + (if y mod 4 = 0 then 1 else 0)" "y div 100 = b + (if y mod 100 = 0 then 1 else 0)"
      "y div 400 = c + (if y mod 400 = 0 then 1 else 0)"
    using step by (simp_all add: a_def b_def c_def)
  have nest: "y mod 400 = 0 \<Longrightarrow> y mod 100 = 0" "y mod 100 = 0 \<Longrightarrow> y mod 4 = 0" by presburger+
  have "b \<le> a" unfolding a_def b_def by (rule div_le_mono2) simp_all
  moreover have "days_before_year y = (y - 1) * 365 + a - b + c"
    by (simp add: days_before_year_def a_def b_def c_def)
  moreover have "days_before_year (Suc y) = y * 365 + y div 4 - y div 100 + y div 400"
    by (simp add: days_before_year_def)
  ultimately show ?thesis
    using \<open>1 \<le> y\<close> nest unfolding now leap_year_def by (auto simp: algebra_simps)
qed

lemma days_before_year_ge: "1 \<le> y \<Longrightarrow> 365 * (y - 1) \<le> days_before_year y"
proof (induction y rule: nat_induct_at_least)
  case (Suc y)
  then show ?case using days_before_year_Suc [of y] by (cases y) auto
qed simp

lemma days_before_year_mono: "y \<le> z \<Longrightarrow> 1 \<le> y \<Longrightarrow> days_before_year y \<le> days_before_year z"
proof (induction z rule: dec_induct)
  case (step z)
  then show ?case using days_before_year_Suc [of z] by simp
qed simp

lemma days_before_year_le: "days_before_year (Suc k) \<le> 366 * k"
proof -
  have "k * 365 + k div 4 - k div 100 + k div 400 \<le> 366 * k" by linarith
  then show ?thesis by (simp add: days_before_year_def)
qed

function year_from :: "nat \<Rightarrow> nat \<Rightarrow> nat" where
  "year_from y n = (if 1 \<le> y \<and> days_before_year (Suc y) < n then year_from (Suc y) n else y)"
  by pat_completeness auto
termination
proof (relation "measure (\<lambda>(y, n). n - y)")
  fix y n
  assume "1 \<le> y \<and> days_before_year (Suc y) < n"
  moreover have "365 * y \<le> days_before_year (Suc y)" using days_before_year_ge [of "Suc y"] by simp
  ultimately have "y < n" by linarith
  then show "((Suc y, n), (y, n)) \<in> measure (\<lambda>(y, n). n - y)" by simp
qed simp

declare year_from.simps [simp del]

function month_from :: "nat \<Rightarrow> nat \<Rightarrow> nat \<Rightarrow> nat \<times> nat" where
  "month_from y m n = (if m < 12 \<and> days_in_month y m < n then month_from y (Suc m) (n - days_in_month y m) else (m, n))"
  by pat_completeness auto
termination by (relation "measure (\<lambda>(y, m, n). 12 - m)") auto

declare month_from.simps [simp del]

definition civil :: "nat \<Rightarrow> nat \<times> nat \<times> nat" where
  "civil n = (let y = year_from ((n - 1) div 366 + 1) n; (m, d) = month_from y 1 (n - days_before_year y) in (y, m, d))"

text \<open>A number in decimal, with leading zeros up to a width.\<close>

definition padded :: "nat \<Rightarrow> nat \<Rightarrow> pystr" where
  "padded w n = replicate (w - length (decimal n)) 48 @ decimal n"

definition iso_text :: "time \<Rightarrow> pystr" where
  "iso_text t =
     (let us = nat (t mod 1000000); s = t div 1000000; sod = nat (s mod 86400);
          (y, m, d) = civil (nat (s div 86400 + 719163))
      in padded 4 y @ lit ''-'' @ padded 2 m @ lit ''-'' @ padded 2 d @ lit ''T'' @ padded 2 (sod div 3600) @ lit '':''
         @ padded 2 (sod div 60 mod 60) @ lit '':'' @ padded 2 (sod mod 60)
         @ (if us = 0 then [] else lit ''.'' @ padded 6 us) @ lit ''+00:00'')"

section \<open>The calendar inverts\<close>

lemma year_from_bounds:
  assumes "1 \<le> y" "days_before_year y < n"
  shows "1 \<le> year_from y n \<and> days_before_year (year_from y n) < n \<and> n \<le> days_before_year (Suc (year_from y n))"
  using assms
proof (induction y n rule: year_from.induct)
  case (1 y n)
  then show ?case by (subst year_from.simps, subst year_from.simps, subst year_from.simps) auto
qed

lemma days_in_month_pos: "1 \<le> days_in_month y m"
  by (simp add: days_in_month_def)

lemma days_before_month_Suc: "1 \<le> m \<Longrightarrow> days_before_month y (Suc m) = days_before_month y m + days_in_month y m"
  by (simp add: days_before_month_def)

lemma month_from_bounds:
  assumes "1 \<le> m" "m \<le> 12" "1 \<le> n" "days_before_month y m + n \<le> days_before_month y 13"
  shows "case month_from y m n of (m', d) \<Rightarrow> 1 \<le> m' \<and> m' \<le> 12 \<and> 1 \<le> d \<and> d \<le> days_in_month y m' \<and>
    days_before_month y m' + d = days_before_month y m + n"
  using assms
proof (induction y m n rule: month_from.induct)
  case (1 y m n)
  show ?case
  proof (cases "m < 12 \<and> days_in_month y m < n")
    case True
    then have "days_before_month y (Suc m) + (n - days_in_month y m) = days_before_month y m + n"
      using "1.prems" by (simp add: days_before_month_Suc)
    then show ?thesis using "1.IH" "1.prems" True by (subst month_from.simps) auto
  next
    case False
    then have "m < 12 \<Longrightarrow> n \<le> days_in_month y m" and "m = 12 \<Longrightarrow> n \<le> days_in_month y m"
      using "1.prems" by (auto simp: days_before_month_Suc eval_nat_numeral)
    then show ?thesis using "1.prems" False by (subst month_from.simps) auto
  qed
qed

lemma year_days: "days_before_month y 13 = (if leap_year y then 366 else 365)"
  by (simp add: days_before_month_def upt_rec days_in_month_def)

lemma january: "days_before_month y (Suc 0) = 0"
  by (simp add: days_before_month_def)

lemma civil_ordinal:
  assumes "1 \<le> n" "n \<le> days_before_year 10000"
  shows "case civil n of (y, m, d) \<Rightarrow> valid_date y m d \<and> ordinal y m d = n"
proof -
  let ?y0 = "(n - 1) div 366 + 1"
  have "days_before_year ?y0 < n"
  proof -
    have "days_before_year ?y0 \<le> 366 * ((n - 1) div 366)" using days_before_year_le [of "(n - 1) div 366"] unfolding Suc_eq_plus1 .
    also have "\<dots> < n" using times_div_less_eq_dividend [of 366 "n - 1"] assms(1) by linarith
    finally show ?thesis .
  qed
  define y where "y = year_from ?y0 n"
  then have y: "1 \<le> y" "days_before_year y < n" "n \<le> days_before_year (Suc y)"
    using year_from_bounds [of ?y0 n] \<open>days_before_year ?y0 < n\<close> by auto
  have "y \<le> 9999"
  proof (rule ccontr)
    assume "\<not> y \<le> 9999"
    then have "days_before_year 10000 \<le> days_before_year y" by (intro days_before_year_mono) simp_all
    then show False using y(2) assms(2) by simp
  qed
  moreover have "case month_from y 1 (n - days_before_year y) of (m, d) \<Rightarrow> 1 \<le> m \<and> m \<le> 12 \<and> 1 \<le> d \<and>
      d \<le> days_in_month y m \<and> days_before_month y m + d = n - days_before_year y"
    using month_from_bounds [of 1 "n - days_before_year y" y] y days_before_year_Suc [of y] january [of y]
    by (simp add: year_days)
  ultimately show ?thesis
    using y unfolding civil_def Let_def y_def [symmetric] by (auto simp: valid_date_def ordinal_def)
qed

section \<open>The text is read back\<close>

lemma length_decimal: "1 \<le> w \<Longrightarrow> n < 10 ^ w \<Longrightarrow> length (decimal n) \<le> w"
proof (induction w arbitrary: n rule: nat_induct_at_least)
  case base
  then show ?case by (subst decimal.simps) simp
next
  case (Suc w)
  show ?case
  proof (cases "n < 10")
    case False
    have "n div 10 < 10 ^ w" using Suc.prems by (simp add: less_mult_imp_div_less mult.commute)
    then show ?thesis using Suc.IH False by (subst decimal.simps) simp
  qed (subst decimal.simps, simp)
qed

lemma padded_reads:
  assumes "1 \<le> w" "n < 10 ^ w"
  shows "length (padded w n) = w" "decimal_value (padded w n) = n" "all_digits (padded w n)"
  using length_decimal [OF assms] decimal_digits
  by (auto simp: padded_def all_digits_def list_all_iff)

lemma padded_two:
  assumes "n < 100"
  obtains a b where "padded 2 n = [a, b]" "decimal_value [a, b] = n" "all_digits [a, b]"
proof -
  have "length (padded 2 n) = Suc (Suc 0)" using padded_reads(1) [of 2 n] assms by simp
  then obtain a b where "padded 2 n = [a, b]" by (auto simp only: length_Suc_conv length_0_conv)
  then show ?thesis using that padded_reads(2,3) [of 2 n] assms by simp
qed

lemma padded_four:
  assumes "n < 10000"
  obtains a b c d where "padded 4 n = [a, b, c, d]" "decimal_value [a, b, c, d] = n" "all_digits [a, b, c, d]"
proof -
  have "length (padded 4 n) = Suc (Suc (Suc (Suc 0)))" using padded_reads(1) [of 4 n] assms by simp
  then obtain a b c d where "padded 4 n = [a, b, c, d]" by (auto simp only: length_Suc_conv length_0_conv)
  then show ?thesis using that padded_reads(2,3) [of 4 n] assms by simp
qed

lemma read_fraction_text:
  assumes "us < 1000000"
  shows "read_fraction ((if us = 0 then [] else lit ''.'' @ padded 6 us) @ lit ''+00:00'') = Some (us, lit ''+00:00'')"
proof (cases "us = 0")
  case False
  have "takeWhile (\<lambda>c. 48 \<le> c \<and> c \<le> 57) (padded 6 us @ lit ''+00:00'') = padded 6 us"
    using padded_reads(3) [of 6 us] assms by (auto simp: all_digits_def list_all_iff takeWhile_append text_simps)
  then show ?thesis
    using False padded_reads [of 6 us] assms by (auto simp: read_fraction_def text_simps Let_def all_digits_def)
qed (simp add: read_fraction_def text_simps)

lemma instant_split:
  assumes "ordinal y m d = nat (s div 86400 + 719163)" "0 \<le> s div 86400 + 719163" "sod = nat (s mod 86400)"
  shows "instant y m d (sod div 3600) (sod div 60 mod 60) (sod mod 60) us = s * 1000000 + int us"
proof -
  have "sod div 3600 = sod div 60 div 60" by (simp add: div_mult2_eq [symmetric])
  then have "sod div 3600 * 3600 + sod div 60 mod 60 * 60 + sod mod 60 = sod"
    using div_mult_mod_eq [of sod 60] div_mult_mod_eq [of "sod div 60" 60] by linarith
  moreover have "int sod = s mod 86400" by (simp add: assms(3))
  ultimately show ?thesis using assms(1,2) div_mult_mod_eq [of s 86400]
    by (simp add: instant_def del: of_nat_add of_nat_mult)
qed

lemma calendar_range:
  "min_instant = - 719162 * 86400 * 1000000" "max_instant = (2932896 * 86400 + 86399) * 1000000 + 999999"
  by (simp_all add: min_instant_def max_instant_def instant_def ordinal_def days_before_year_def days_before_month_def
      upt_rec days_in_month_def leap_year_def)

text \<open>\<open>fromisoformat\<close> reads what \<open>isoformat\<close> writes.\<close>

lemma read_iso_text:
  assumes "min_instant \<le> t" "t \<le> max_instant"
  shows "read_iso (iso_text t) = Some (t, 0)"
proof -
  define s us sod n where "s = t div 1000000" and "us = nat (t mod 1000000)" and "sod = nat (s mod 86400)"
    and "n = nat (s div 86400 + 719163)"
  have day: "0 \<le> s div 86400 + 719162" "s div 86400 \<le> 2932896"
    using zdiv_mono1 [OF zdiv_mono1 [OF assms(1), of 1000000], of 86400]
      zdiv_mono1 [OF zdiv_mono1 [OF assms(2), of 1000000], of 86400] by (simp_all add: calendar_range s_def)
  have "1 \<le> n" "n \<le> days_before_year 10000"
    using day by (simp_all add: n_def days_before_year_def)
  then obtain y m d where ymd: "civil n = (y, m, d)" "valid_date y m d" "ordinal y m d = n"
    using civil_ordinal [of n] by (auto split: prod.splits)
  have bounds: "y < 10000" "m < 100" "d < 100"
    using ymd(2) by (auto simp: valid_date_def days_in_month_def split: if_splits)
  have clock: "sod div 3600 < 24" "sod div 60 mod 60 < 60" "sod mod 60 < 60"
    by (auto simp: sod_def)
  have us: "us < 1000000" by (simp add: us_def nat_less_iff)
  have t: "t = s * 1000000 + int us" by (simp add: s_def us_def)
  have whole: "instant y m d (sod div 3600) (sod div 60 mod 60) (sod mod 60) us = t"
    using instant_split [of y m d s sod us] ymd(3) day by (simp add: n_def sod_def t)
  obtain y1 y2 y3 y4 where y: "padded 4 y = [y1, y2, y3, y4]" "decimal_value [y1, y2, y3, y4] = y" "all_digits [y1, y2, y3, y4]"
    using padded_four [OF bounds(1)] by blast
  obtain m1 m2 where m: "padded 2 m = [m1, m2]" "decimal_value [m1, m2] = m" "all_digits [m1, m2]"
    using padded_two [OF bounds(2)] by blast
  obtain d1 d2 where d: "padded 2 d = [d1, d2]" "decimal_value [d1, d2] = d" "all_digits [d1, d2]"
    using padded_two [OF bounds(3)] by blast
  obtain h1 h2 where h: "padded 2 (sod div 3600) = [h1, h2]" "decimal_value [h1, h2] = sod div 3600" "all_digits [h1, h2]"
    using padded_two [of "sod div 3600"] clock by auto
  obtain i1 i2 where i: "padded 2 (sod div 60 mod 60) = [i1, i2]" "decimal_value [i1, i2] = sod div 60 mod 60" "all_digits [i1, i2]"
    using padded_two [of "sod div 60 mod 60"] clock by auto
  obtain s1 s2 where sec: "padded 2 (sod mod 60) = [s1, s2]" "decimal_value [s1, s2] = sod mod 60" "all_digits [s1, s2]"
    using padded_two [of "sod mod 60"] clock by auto
  define fr where "fr = (if us = 0 then [] else lit ''.'' @ padded 6 us) @ lit ''+00:00''"
  have spelt: "iso_text t = [y1, y2, y3, y4, 45, m1, m2, 45, d1, d2, 84, h1, h2, 58, i1, i2, 58, s1, s2] @ fr"
    unfolding iso_text_def Let_def s_def [symmetric] us_def [symmetric] sod_def [symmetric] n_def [symmetric] ymd(1) fr_def
    by (simp add: y m d h i sec text_simps)
  have "read_date (iso_text t) = Some (y, m, d)"
    using y(2,3) m(2,3) d(2,3) ymd(2) by (simp add: spelt read_date_def number_at_def char_at_def del: decimal_value.simps)
  moreover have "read_clock (iso_text t) = Some (sod div 3600, sod div 60 mod 60, sod mod 60)"
    using h(2,3) i(2,3) sec(2,3) clock
    by (simp add: spelt read_clock_def number_at_def char_at_def valid_clock_def del: decimal_value.simps)
  moreover have "read_fraction (drop 19 (iso_text t)) = Some (us, lit ''+00:00'')"
    using read_fraction_text [OF us] by (simp add: spelt fr_def)
  moreover have "read_offset (lit ''+00:00'') = Some 0"
    by (simp add: text_simps read_offset_def number_at_def char_at_def all_digits_def)
  ultimately show ?thesis using whole by (simp add: read_iso_def spelt char_at_def)
qed

end
