(* ===== verification/StallStore.thy ===== *)
theory StallStore
  imports StallLedger JsonLog IsoText
begin

text \<open>
  The file of open stall records (\<open>stall_ledger/store.py\<close>): reading and writing a record, quarantining the
  ones that cannot be read, the order in which a file is judged, the requests of the operator. The records are
  kept twice, as the rows that were read and as the values the driver works on; \<open>synced\<close> says that the
  two agree. \<open>fromiso\<close> is \<open>datetime.fromisoformat\<close>: the local reading and the offset, if there is one.
\<close>

type_synonym iso_reader = "pystr \<Rightarrow> (time \<times> duration option) option"

section \<open>Reading a record\<close>

text \<open>Results that may be an error, in sequence.\<close>

definition chain :: "'e + 'a \<Rightarrow> ('a \<Rightarrow> 'e + 'b) \<Rightarrow> 'e + 'b" where
  "chain r f = (case r of Inl e \<Rightarrow> Inl e | Inr x \<Rightarrow> f x)"

fun chain_map :: "('a \<Rightarrow> 'e + 'b) \<Rightarrow> 'a list \<Rightarrow> 'e + 'b list" where
  "chain_map f [] = Inr []"
| "chain_map f (x # xs) = chain (f x) (\<lambda>y. chain (chain_map f xs) (\<lambda>ys. Inr (y # ys)))"

lemma chain_simps [simp]: "chain (Inr x) f = f x" "chain (Inl e) f = Inl e"
  by (simp_all add: chain_def)

lemma chain_eq_Inr [simp]: "chain r f = Inr y \<longleftrightarrow> (\<exists>x. r = Inr x \<and> f x = Inr y)"
  by (cases r) simp_all

text \<open>An error is the reason of a quarantine.\<close>

definition missing_field :: "pystr \<Rightarrow> pystr" where "missing_field name = lit ''missing_field:'' @ name"
definition wrong_type :: "pystr \<Rightarrow> pystr" where "wrong_type name = lit ''wrong_type:'' @ name"

definition replace_z :: "pystr \<Rightarrow> pystr" where
  "replace_z s = concat (map (\<lambda>c. if c = 90 then lit ''+00:00'' else [c]) s)"

text \<open>\<open>_parse_iso\<close>: the instant with its offset, or the instant alone.\<close>

definition parse_aware :: "iso_reader \<Rightarrow> json \<Rightarrow> pystr \<Rightarrow> pystr + time \<times> duration" where
  "parse_aware fromiso v name =
     (case v of
        Null \<Rightarrow> Inl (missing_field name)
      | Str s \<Rightarrow> (case fromiso (replace_z s) of Some (local, Some off) \<Rightarrow> Inr (local - off, off) | _ \<Rightarrow> Inl (wrong_type name))
      | _ \<Rightarrow> Inl (wrong_type name))"

definition parse_iso :: "iso_reader \<Rightarrow> json \<Rightarrow> pystr \<Rightarrow> pystr + time" where
  "parse_iso fromiso v name = chain (parse_aware fromiso v name) (\<lambda>(t, _). Inr t)"

text \<open>\<open>_require\<close> with the type \<open>str\<close>, \<open>list\<close>, \<open>dict\<close>.\<close>

definition require_str :: "row \<Rightarrow> pystr \<Rightarrow> pystr + pystr" where
  "require_str r name = (case map_of r name of None \<Rightarrow> Inl (missing_field name) | Some (Str s) \<Rightarrow> Inr s | _ \<Rightarrow> Inl (wrong_type name))"

definition require_list :: "row \<Rightarrow> pystr \<Rightarrow> pystr + json list" where
  "require_list r name = (case map_of r name of None \<Rightarrow> Inl (missing_field name) | Some (Arr vs) \<Rightarrow> Inr vs | _ \<Rightarrow> Inl (wrong_type name))"

definition require_dict :: "row \<Rightarrow> pystr \<Rightarrow> pystr + row" where
  "require_dict r name = (case map_of r name of None \<Rightarrow> Inl (missing_field name) | Some (Obj kvs) \<Rightarrow> Inr kvs | _ \<Rightarrow> Inl (wrong_type name))"

definition as_str :: "pystr \<Rightarrow> json \<Rightarrow> pystr + pystr" where
  "as_str name v = (case v of Str s \<Rightarrow> Inr s | _ \<Rightarrow> Inl (wrong_type name))"

definition str_list :: "json \<Rightarrow> pystr \<Rightarrow> pystr + pystr list" where
  "str_list v name = (case v of Arr vs \<Rightarrow> chain_map (as_str name) vs | _ \<Rightarrow> Inl (wrong_type name))"

definition get_default :: "pystr \<Rightarrow> json \<Rightarrow> row \<Rightarrow> json" where
  "get_default k d r = (case map_of r k of None \<Rightarrow> d | Some v \<Rightarrow> v)"

definition F_ATTEMPTS :: pystr where "F_ATTEMPTS = lit ''remedy_attempts''"
definition F_HISTORY :: pystr where "F_HISTORY = lit ''class_history''"
definition F_EPOCH :: pystr where "F_EPOCH = lit ''stall_epoch_start''"
definition F_SEEN :: pystr where "F_SEEN = lit ''condition_first_seen_at''"
definition F_UNIT :: pystr where "F_UNIT = lit ''unit''"
definition F_CLASS :: pystr where "F_CLASS = lit ''klass''"
definition F_STAGE :: pystr where "F_STAGE = lit ''ladder_stage''"
definition F_FLAGS :: pystr where "F_FLAGS = lit ''flags''"
definition F_EVIDENCE :: pystr where "F_EVIDENCE = lit ''evidence''"
definition F_MOTION :: pystr where "F_MOTION = lit ''motion_at_open''"
definition F_AT :: pystr where "F_AT = lit ''at''"

lemmas field_names = F_ATTEMPTS_def F_HISTORY_def F_EPOCH_def F_SEEN_def F_UNIT_def F_CLASS_def F_STAGE_def F_FLAGS_def
  F_EVIDENCE_def F_MOTION_def F_AT_def

definition parse_attempt :: "iso_reader \<Rightarrow> json \<Rightarrow> pystr + remedy_attempt" where
  "parse_attempt fromiso raw =
     (case raw of
        Obj r \<Rightarrow>
          chain (parse_aware fromiso (json_get F_AT r) F_ATTEMPTS) (\<lambda>(t, off).
          chain (case json_get (lit ''state'') r of
                   Str s \<Rightarrow> (case read_remedy_state s of None \<Rightarrow> Inl (wrong_type F_ATTEMPTS) | Some st \<Rightarrow> Inr st)
                 | _ \<Rightarrow> Inl (wrong_type F_ATTEMPTS)) (\<lambda>st.
          chain (case json_get (lit ''emitted_event_ids'') r of Obj ids \<Rightarrow> Inr ids | _ \<Rightarrow> Inl (wrong_type F_ATTEMPTS)) (\<lambda>ids.
          chain (str_list (get_default (lit ''github_review_ids'') (Arr []) ids) F_ATTEMPTS) (\<lambda>revs.
          chain (str_list (get_default (lit ''chatroom_msg_ids'') (Arr []) ids) F_ATTEMPTS) (\<lambda>msgs.
          Inr \<lparr>att_at = t, att_offset = off, att_head = (case json_get (lit ''head_sha'') r of Str s \<Rightarrow> s | _ \<Rightarrow> []), att_state = st,
               att_emitted = \<lparr>github_review_ids = revs, chatroom_msg_ids = msgs\<rparr>,
               att_outcome = Outcome_unknown, att_flags = []\<rparr>)))))
      | _ \<Rightarrow> Inl (wrong_type F_ATTEMPTS))"

definition parse_class_entry :: "iso_reader \<Rightarrow> json \<Rightarrow> pystr + class_entry" where
  "parse_class_entry fromiso raw =
     (case raw of
        Obj r \<Rightarrow>
          (case json_get F_CLASS r of
             Str c \<Rightarrow> chain (parse_iso fromiso (json_get F_AT r) F_HISTORY) (\<lambda>t. Inr \<lparr>ce_at = t, ce_class = c\<rparr>)
           | _ \<Rightarrow> Inl (wrong_type F_HISTORY))
      | _ \<Rightarrow> Inl (wrong_type F_HISTORY))"

definition parse_unit :: "row \<Rightarrow> pystr + work_unit" where
  "parse_unit u =
     (case (json_get (lit ''kind'') u, json_get (lit ''identifier'') u) of
        (Null, _) \<Rightarrow> Inl (missing_field (lit ''unit.kind''))
      | (_, Null) \<Rightarrow> Inl (missing_field (lit ''unit.identifier''))
      | (Str k, Str i) \<Rightarrow>
          (case read_unit_kind k of None \<Rightarrow> Inl (wrong_type (lit ''unit.kind'')) | Some uk \<Rightarrow> Inr \<lparr>wu_kind = uk, wu_ident = i\<rparr>)
      | _ \<Rightarrow> Inl (wrong_type F_UNIT))"

definition KEY_MISMATCH :: pystr where "KEY_MISMATCH = lit ''key_mismatch''"

definition record_from_json :: "iso_reader \<Rightarrow> pystr \<Rightarrow> json \<Rightarrow> pystr + stall_record" where
  "record_from_json fromiso key raw =
     (case raw of
        Obj r \<Rightarrow>
          chain (require_dict r F_UNIT) (\<lambda>ur.
          chain (parse_unit ur) (\<lambda>u.
          chain (parse_iso fromiso (json_get F_EPOCH r) F_EPOCH) (\<lambda>epoch.
          chain (parse_iso fromiso (json_get F_SEEN r) F_SEEN) (\<lambda>seen.
          chain (require_str r F_CLASS) (\<lambda>klass.
          chain (require_list r F_HISTORY) (\<lambda>hraw.
          chain (chain_map (parse_class_entry fromiso) hraw) (\<lambda>history.
          chain (require_list r F_ATTEMPTS) (\<lambda>araw.
          chain (chain_map (parse_attempt fromiso) araw) (\<lambda>attempts.
          chain (require_str r F_STAGE) (\<lambda>stage.
          chain (require_list r F_FLAGS) (\<lambda>fraw.
          chain (str_list (Arr fraw) F_FLAGS) (\<lambda>flags.
          chain (require_dict r F_EVIDENCE) (\<lambda>ev.
          chain (case map_of ev F_MOTION of None \<Rightarrow> Inl (missing_field (lit ''evidence.motion_at_open''))
                   | Some v \<Rightarrow> parse_iso fromiso v (lit ''evidence.motion_at_open'')) (\<lambda>_.
          if unit_key u \<noteq> key then Inl KEY_MISMATCH
          else Inr \<lparr>sr_unit = u, epoch_start = epoch, first_seen_at = seen, sr_class = klass, class_history = history,
                    remedy_attempts = attempts, ladder_stage = stage, sr_flags = flags, evidence = ev\<rparr>))))))))))))))
      | _ \<Rightarrow> Inl (wrong_type (lit ''record'')))"

section \<open>Writing a record\<close>

text \<open>\<open>utc_iso\<close> of an aware instant.\<close>

definition utc_iso :: "time \<Rightarrow> json" where
  "utc_iso t = Str (iso_text t)"

definition class_row :: "time \<Rightarrow> pystr \<Rightarrow> json" where
  "class_row now klass = Obj [(F_AT, utc_iso now), (F_CLASS, Str klass)]"

definition new_record_json :: "work_unit \<Rightarrow> time \<Rightarrow> pystr \<Rightarrow> pystr list \<Rightarrow> time \<Rightarrow> row \<Rightarrow> row" where
  "new_record_json u now klass flags motion_at_open ev =
     [(F_UNIT, Obj [(lit ''kind'', Str (unit_kind_value (wu_kind u))), (lit ''identifier'', Str (wu_ident u))]),
      (F_EPOCH, utc_iso now), (F_SEEN, utc_iso now), (F_CLASS, Str klass), (F_HISTORY, Arr [class_row now klass]),
      (F_ATTEMPTS, Arr []), (F_STAGE, Str (lit ''initial'')), (F_FLAGS, Arr (map Str flags)),
      (F_EVIDENCE, Obj (dict_set F_MOTION (utc_iso motion_at_open) ev))]"

section \<open>The loaded store\<close>

datatype store_status = Valid_store | Absent_store | Corrupt_store | Version_ahead | Version_unrecognized

record loaded_store =
  st_status :: store_status
  envelope :: "row option"
  st_records :: "(pystr \<times> stall_record) list"
  quarantine_events :: "(pystr \<times> pystr \<times> bool) list"
  quarantine_repeats :: nat

definition store_writable :: "loaded_store \<Rightarrow> bool" where
  "store_writable s \<longleftrightarrow> envelope s \<noteq> None"

definition F_RECORDS :: pystr where "F_RECORDS = lit ''records''"
definition F_QUARANTINED :: pystr where "F_QUARANTINED = lit ''quarantined_records''"
definition F_VERSION :: pystr where "F_VERSION = lit ''schema_version''"

definition dict_of :: "json \<Rightarrow> row" where
  "dict_of v = (case v of Obj r \<Rightarrow> r | _ \<Rightarrow> [])"

definition env_of :: "loaded_store \<Rightarrow> row" where
  "env_of s = (case envelope s of None \<Rightarrow> [] | Some e \<Rightarrow> e)"

definition records_raw :: "loaded_store \<Rightarrow> row" where
  "records_raw s = dict_of (json_get F_RECORDS (env_of s))"

definition quarantined :: "loaded_store \<Rightarrow> row" where
  "quarantined s = dict_of (json_get F_QUARANTINED (env_of s))"

definition put_records :: "row \<Rightarrow> loaded_store \<Rightarrow> loaded_store" where
  "put_records r s = s\<lparr>envelope := Some (dict_set F_RECORDS (Obj r) (env_of s))\<rparr>"

definition put_quarantined :: "row \<Rightarrow> loaded_store \<Rightarrow> loaded_store" where
  "put_quarantined q s = s\<lparr>envelope := Some (dict_set F_QUARANTINED (Obj q) (env_of s))\<rparr>"

text \<open>\<open>records[key] = record_from_json(key, raw)\<close> after a change of the row.\<close>

definition put_record :: "iso_reader \<Rightarrow> pystr \<Rightarrow> row \<Rightarrow> loaded_store \<Rightarrow> pystr + loaded_store" where
  "put_record fromiso key raw s =
     (let s' = put_records (dict_set key (Obj raw) (records_raw s)) s in
      chain (record_from_json fromiso key (Obj raw)) (\<lambda>r. Inr (s'\<lparr>st_records := dict_set key r (st_records s')\<rparr>)))"

definition row_of :: "loaded_store \<Rightarrow> pystr \<Rightarrow> row" where
  "row_of s key = dict_of (json_get key (records_raw s))"

definition reclassify :: "iso_reader \<Rightarrow> pystr \<Rightarrow> pystr \<Rightarrow> time \<Rightarrow> loaded_store \<Rightarrow> pystr + loaded_store" where
  "reclassify fromiso key klass now s =
     (let raw = row_of s key in
      if json_get F_CLASS raw = Str klass then Inr s
      else put_record fromiso key
        (dict_set F_HISTORY
           (Arr ((case json_get F_HISTORY raw of Arr es \<Rightarrow> es | _ \<Rightarrow> []) @ [class_row now klass]))
           (dict_set F_CLASS (Str klass) raw)) s)"

definition F_PENDING :: pystr where "F_PENDING = lit ''marker_pending''"
definition F_REASON :: pystr where "F_REASON = lit ''marker_reason''"

definition settle_marker :: "iso_reader \<Rightarrow> pystr \<Rightarrow> pystr list \<Rightarrow> pystr option \<Rightarrow> loaded_store \<Rightarrow> pystr + loaded_store" where
  "settle_marker fromiso key flags why_marked s =
     (let raw = row_of s key; ev = dict_del F_PENDING (dict_of (json_get F_EVIDENCE raw));
          ev' = (case why_marked of None \<Rightarrow> dict_del F_REASON ev | Some w \<Rightarrow> dict_set F_REASON (Str w) ev)
      in put_record fromiso key (dict_set F_EVIDENCE (Obj ev') (dict_set F_FLAGS (Arr (map Str flags)) raw)) s)"

definition close_record :: "pystr \<Rightarrow> loaded_store \<Rightarrow> loaded_store" where
  "close_record key s = (put_records (dict_del key (records_raw s)) s)\<lparr>st_records := dict_del key (st_records s)\<rparr>"

definition clear_quarantined :: "pystr \<Rightarrow> loaded_store \<Rightarrow> loaded_store \<times> bool" where
  "clear_quarantined key s =
     (put_quarantined (dict_del key (quarantined s)) s, json_get key (quarantined s) \<noteq> Null)"

definition fresh_envelope :: row where
  "fresh_envelope = [(F_VERSION, Str (lit ''1.0'')), (F_RECORDS, Obj []), (F_QUARANTINED, Obj [])]"

section \<open>Quarantine\<close>

definition int_of :: "json \<Rightarrow> int option" where
  "int_of v = (case v of Number i \<Rightarrow> Some i | Bool b \<Rightarrow> Some (if b then 1 else 0) | _ \<Rightarrow> None)"

definition F_FIRST_AT :: pystr where "F_FIRST_AT = lit ''first_detected_at''"
definition F_LAST_AT :: pystr where "F_LAST_AT = lit ''last_detected_at''"
definition F_COUNT :: pystr where "F_COUNT = lit ''count''"
definition F_FIRST_RAW :: pystr where "F_FIRST_RAW = lit ''first_raw''"
definition F_LAST_RAW :: pystr where "F_LAST_RAW = lit ''last_raw''"
definition F_WHY :: pystr where "F_WHY = lit ''reason''"

lemmas entry_names = F_FIRST_AT_def F_LAST_AT_def F_COUNT_def F_FIRST_RAW_def F_LAST_RAW_def F_WHY_def

text \<open>The map afterwards, and whether this was the first failure of the key.\<close>

definition quarantine_entry :: "pystr \<Rightarrow> pystr \<Rightarrow> json \<Rightarrow> time \<Rightarrow> row \<Rightarrow> row \<times> bool" where
  "quarantine_entry key cause raw now q =
     (let old = dict_of (json_get key q) in
      case int_of (json_get F_COUNT old) of
        Some n \<Rightarrow>
          (dict_set key (Obj (dict_set F_LAST_RAW raw (dict_set F_COUNT (Number (n + 1))
             (dict_set F_LAST_AT (utc_iso now) (dict_set F_WHY (Str cause) old))))) q, False)
      | None \<Rightarrow>
          (dict_set key (Obj [(F_WHY, Str cause), (F_FIRST_AT, utc_iso now), (F_LAST_AT, utc_iso now), (F_COUNT, Number 1),
             (F_FIRST_RAW, raw), (F_LAST_RAW, raw)]) q, True))"

definition judge_row :: "iso_reader \<Rightarrow> time \<Rightarrow> pystr \<Rightarrow> json \<Rightarrow> loaded_store \<Rightarrow> loaded_store" where
  "judge_row fromiso now key raw s =
     (case record_from_json fromiso key raw of
        Inr r \<Rightarrow> s\<lparr>st_records := dict_set key r (st_records s)\<rparr>
      | Inl cause \<Rightarrow>
          (let (q, first) = quarantine_entry key cause raw now (quarantined s);
               s' = put_quarantined q (put_records (dict_del key (records_raw s)) s)
           in s'\<lparr>quarantine_events := quarantine_events s' @ [(key, cause, first)],
                 quarantine_repeats := quarantine_repeats s' + (if first then 0 else 1)\<rparr>))"

text \<open>\<open>setdefault\<close> of the quarantine map; the loop goes over a snapshot of the rows.\<close>

definition validate_v1_records :: "iso_reader \<Rightarrow> row \<Rightarrow> time \<Rightarrow> loaded_store" where
  "validate_v1_records fromiso env now =
     (let env' = (if map_of env F_QUARANTINED = None then env @ [(F_QUARANTINED, Obj [])] else env);
          s = \<lparr>st_status = Valid_store, envelope = Some env', st_records = [], quarantine_events = [], quarantine_repeats = 0\<rparr>
      in foldl (\<lambda>s (k, raw). judge_row fromiso now k raw s) s (records_raw s))"

section \<open>The load order\<close>

datatype store_file = No_store | Undecodable_store | Store_text pystr

datatype load_error = Unicode_decode_error | Int_too_long

definition KNOWN_MAJOR :: nat where "KNOWN_MAJOR = 1"

text \<open>\<open>\A\d+\.\d+\Z\<close>: the digits of the major version.\<close>

definition match_version :: "pystr \<Rightarrow> pystr option" where
  "match_version v =
     (let ma = takeWhile is_decimal v; t = dropWhile is_decimal v in
      if ma \<noteq> [] \<and> t \<noteq> [] \<and> hd t = 46 \<and> tl t \<noteq> [] \<and> list_all is_decimal (tl t) then Some ma else None)"

definition empty_store :: "store_status \<Rightarrow> row option \<Rightarrow> loaded_store" where
  "empty_store st env = \<lparr>st_status = st, envelope = env, st_records = [], quarantine_events = [], quarantine_repeats = 0\<rparr>"

definition container_ok :: "row \<Rightarrow> bool" where
  "container_ok d \<longleftrightarrow>
     (case json_get F_RECORDS d of Obj _ \<Rightarrow> True | _ \<Rightarrow> False) \<and>
     (case get_default F_QUARANTINED (Obj []) d of Obj _ \<Rightarrow> True | _ \<Rightarrow> False)"

text \<open>The store, and whether the file was moved aside.\<close>

definition load_store :: "iso_reader \<Rightarrow> store_file \<Rightarrow> time \<Rightarrow> load_error + loaded_store \<times> bool" where
  "load_store fromiso f now =
     (case f of
        No_store \<Rightarrow> Inr (empty_store Absent_store (Some fresh_envelope), False)
      | Undecodable_store \<Rightarrow> Inl Unicode_decode_error
      | Store_text t \<Rightarrow>
          (case loads (newlines t) of
             Some (Obj d) \<Rightarrow>
               (case (case json_get F_VERSION d of Str v \<Rightarrow> match_version v | _ \<Rightarrow> None) of
                  None \<Rightarrow> Inr (empty_store Version_unrecognized None, False)
                | Some ma \<Rightarrow>
                    if 4300 < length ma then Inl Int_too_long
                    else if KNOWN_MAJOR < int_of_digits ma then Inr (empty_store Version_ahead None, False)
                    else if int_of_digits ma < KNOWN_MAJOR then Inr (empty_store Version_unrecognized None, False)
                    else if \<not> container_ok d then Inr (empty_store Corrupt_store (Some fresh_envelope), True)
                    else Inr (validate_v1_records fromiso d now, False))
           | _ \<Rightarrow> Inr (empty_store Corrupt_store (Some fresh_envelope), True)))"

section \<open>Clear requests\<close>

datatype request_file = Unreadable_request | Request_text pystr

record clear_request =
  req_name :: pystr
  req_unit_key :: pystr
  requested_by :: pystr
  requested_at :: pystr

datatype bad_request = Unreadable | No_unit_key

definition read_request :: "(json \<Rightarrow> pystr) \<Rightarrow> pystr \<Rightarrow> request_file \<Rightarrow> bad_request + clear_request" where
  "read_request rp name f =
     (case (case f of Unreadable_request \<Rightarrow> None | Request_text t \<Rightarrow> loads (newlines t)) of
        None \<Rightarrow> Inl Unreadable
      | Some (Obj d) \<Rightarrow>
          (case json_get (lit ''unit_key'') d of
             Str k \<Rightarrow> Inr \<lparr>req_name = name, req_unit_key = k, requested_by = or_empty rp (json_get (lit ''requested_by'') d),
                         requested_at = or_empty rp (json_get (lit ''requested_at'') d)\<rparr>
           | _ \<Rightarrow> Inl No_unit_key)
      | _ \<Rightarrow> Inl No_unit_key)"

text \<open>The files named \<open>clear-*.json\<close> in the order of their names.\<close>

definition is_request_name :: "pystr \<Rightarrow> bool" where
  "is_request_name n \<longleftrightarrow> startswith n (lit ''clear-'') \<and> endswith (drop 6 n) (lit ''.json'')"

definition read_clear_requests ::
    "(json \<Rightarrow> pystr) \<Rightarrow> (pystr \<times> request_file) list \<Rightarrow> clear_request list \<times> (pystr \<times> bad_request) list" where
  "read_clear_requests rp dir =
     (let fs = sort_key fst (filter (\<lambda>(n, _). is_request_name n) dir) in
      (List.map_filter (\<lambda>(n, f). case read_request rp n f of Inr r \<Rightarrow> Some r | Inl _ \<Rightarrow> None) fs,
       List.map_filter (\<lambda>(n, f). case read_request rp n f of Inr _ \<Rightarrow> None | Inl e \<Rightarrow> Some (n, e)) fs))"

definition clear_request_json :: "pystr \<Rightarrow> pystr \<Rightarrow> time \<Rightarrow> json" where
  "clear_request_json key by_whom now =
     Obj [(lit ''unit_key'', Str key), (lit ''requested_by'', Str by_whom), (lit ''requested_at'', utc_iso now)]"

section \<open>The rows and the records agree\<close>

text \<open>Dictionaries are looked up here, not searched.\<close>

declare map_of_eq_Some_iff [simp del] Some_eq_map_of_iff [simp del]

lemma json_get_set: "json_get k (dict_set k' v d) = (if k = k' then v else json_get k d)"
  by (simp add: json_get.simps)

lemma json_get_del: "json_get k (dict_del k' d) = (if k = k' then Null else json_get k d)"
  by (simp add: json_get.simps)

lemma env_names [simp]: "F_RECORDS \<noteq> F_QUARANTINED" "F_QUARANTINED \<noteq> F_RECORDS"
  by (simp_all add: F_RECORDS_def F_QUARANTINED_def)

lemma put_simps [simp]:
  "records_raw (put_records r s) = r" "records_raw (put_quarantined q s) = records_raw s"
  "quarantined (put_quarantined q s) = q" "quarantined (put_records r s) = quarantined s"
  "st_records (put_records r s) = st_records s" "st_records (put_quarantined q s) = st_records s"
  "st_status (put_records r s) = st_status s" "st_status (put_quarantined q s) = st_status s"
  "store_writable (put_records r s)" "store_writable (put_quarantined q s)"
  by (simp_all add: records_raw_def quarantined_def put_records_def put_quarantined_def env_of_def dict_of_def
      json_get_set store_writable_def)

lemma put_more [simp]:
  "records_raw (s\<lparr>st_records := x\<rparr>) = records_raw s" "quarantined (s\<lparr>st_records := x\<rparr>) = quarantined s"
  "records_raw (s\<lparr>quarantine_events := e\<rparr>) = records_raw s" "quarantined (s\<lparr>quarantine_events := e\<rparr>) = quarantined s"
  "records_raw (s\<lparr>quarantine_repeats := n\<rparr>) = records_raw s" "quarantined (s\<lparr>quarantine_repeats := n\<rparr>) = quarantined s"
  "store_writable (s\<lparr>st_records := x\<rparr>) = store_writable s" "store_writable (s\<lparr>quarantine_events := e\<rparr>) = store_writable s"
  "store_writable (s\<lparr>quarantine_repeats := n\<rparr>) = store_writable s"
  by (simp_all add: records_raw_def quarantined_def env_of_def store_writable_def)

text \<open>A key has a record exactly when it has a row, and the record is what the row says.\<close>

definition synced_at :: "iso_reader \<Rightarrow> loaded_store \<Rightarrow> pystr \<Rightarrow> bool" where
  "synced_at fromiso s k \<longleftrightarrow>
     map_option Inr (map_of (st_records s) k) = map_option (record_from_json fromiso k) (map_of (records_raw s) k)"

definition synced :: "iso_reader \<Rightarrow> loaded_store \<Rightarrow> bool" where
  "synced fromiso s \<longleftrightarrow> store_writable s \<and> distinct (map fst (records_raw s)) \<and> distinct (map fst (st_records s)) \<and>
     (\<forall>k. synced_at fromiso s k)"

lemma synced_row:
  assumes "synced fromiso s" "map_of (st_records s) k = Some r"
  obtains raw where "map_of (records_raw s) k = Some (Obj raw)" "row_of s k = raw"
    "record_from_json fromiso k (Obj raw) = Inr r"
proof -
  have "synced_at fromiso s k" using assms(1) by (simp add: synced_def)
  then have "map_option (record_from_json fromiso k) (map_of (records_raw s) k) = Some (Inr r)"
    by (simp add: synced_at_def assms(2))
  then obtain v where v: "map_of (records_raw s) k = Some v" "record_from_json fromiso k v = Inr r" by auto
  then obtain raw where "v = Obj raw" by (cases v) (simp_all add: record_from_json_def)
  with v that show ?thesis by (simp add: row_of_def json_get.simps dict_of_def)
qed

lemma record_key: "record_from_json fromiso k v = Inr r \<Longrightarrow> unit_key (sr_unit r) = k"
  by (cases v) (auto simp: record_from_json_def split: if_splits)

lemma synced_key: "synced fromiso s \<Longrightarrow> map_of (st_records s) k = Some r \<Longrightarrow> unit_key (sr_unit r) = k"
  by (erule (1) synced_row) (rule record_key)

lemma put_record_Inr:
  "put_record fromiso key raw s = Inr s' \<longleftrightarrow>
     (\<exists>r. record_from_json fromiso key (Obj raw) = Inr r \<and>
          s' = (put_records (dict_set key (Obj raw) (records_raw s)) s)\<lparr>st_records := dict_set key r (st_records s)\<rparr>)"
  by (auto simp: put_record_def Let_def)

lemma synced_put_record: "synced fromiso s \<Longrightarrow> put_record fromiso key raw s = Inr s' \<Longrightarrow> synced fromiso s'"
  by (auto simp: put_record_Inr synced_def synced_at_def distinct_dict_set)

lemma synced_close: "synced fromiso s \<Longrightarrow> synced fromiso (close_record key s)"
  by (auto simp: close_record_def synced_def synced_at_def distinct_dict_del)

lemma synced_clear: "synced fromiso s \<Longrightarrow> synced fromiso (fst (clear_quarantined key s))"
  by (auto simp: clear_quarantined_def synced_def synced_at_def)

lemma synced_reclassify: "synced fromiso s \<Longrightarrow> reclassify fromiso key klass now s = Inr s' \<Longrightarrow> synced fromiso s'"
  by (auto simp: reclassify_def Let_def split: if_splits dest: synced_put_record)

lemma synced_settle: "synced fromiso s \<Longrightarrow> settle_marker fromiso key flags w s = Inr s' \<Longrightarrow> synced fromiso s'"
  by (auto simp: settle_marker_def Let_def dest: synced_put_record)

lemma synced_empty: "synced fromiso (empty_store st (Some fresh_envelope))"
  by (simp add: synced_def synced_at_def empty_store_def store_writable_def records_raw_def env_of_def fresh_envelope_def
      dict_of_def json_get_Cons F_VERSION_def F_RECORDS_def)

text \<open>What judging a row does to the two maps and to the quarantine.\<close>

lemma judge_row_ok:
  "record_from_json fromiso k raw = Inr r \<Longrightarrow> judge_row fromiso now k raw s = s\<lparr>st_records := dict_set k r (st_records s)\<rparr>"
  by (simp add: judge_row_def)

lemma judge_row_bad:
  assumes "record_from_json fromiso k raw = Inl cause"
  shows "records_raw (judge_row fromiso now k raw s) = dict_del k (records_raw s)"
    and "st_records (judge_row fromiso now k raw s) = st_records s"
    and "store_writable (judge_row fromiso now k raw s)"
    and "json_get k' (quarantined (judge_row fromiso now k raw s)) =
      (if k' = k then json_get k (fst (quarantine_entry k cause raw now (quarantined s))) else json_get k' (quarantined s))"
  using assms by (auto simp: judge_row_def Let_def quarantine_entry_def json_get_set split: option.splits)

lemma entry_last_raw: "json_get F_LAST_RAW (dict_of (json_get k (fst (quarantine_entry k cause raw now q)))) = raw"
  by (auto simp: quarantine_entry_def Let_def json_get_set dict_of_def json_get_Cons entry_names split: option.splits)

lemma entry_reason: "json_get F_WHY (dict_of (json_get k (fst (quarantine_entry k cause raw now q)))) = Str cause"
  by (auto simp: quarantine_entry_def Let_def json_get_set dict_of_def json_get_Cons entry_names split: option.splits)

text \<open>A row is kept as it is or put into quarantine with its reason.\<close>

definition accounted :: "iso_reader \<Rightarrow> loaded_store \<Rightarrow> pystr \<Rightarrow> json \<Rightarrow> bool" where
  "accounted fromiso s k raw \<longleftrightarrow>
     (case record_from_json fromiso k raw of
        Inr r \<Rightarrow> map_of (records_raw s) k = Some raw \<and> map_of (st_records s) k = Some r
      | Inl cause \<Rightarrow> map_of (records_raw s) k = None \<and> map_of (st_records s) k = None \<and>
          json_get F_LAST_RAW (dict_of (json_get k (quarantined s))) = raw \<and>
          json_get F_WHY (dict_of (json_get k (quarantined s))) = Str cause)"

text \<open>Judging the rows one after the other: those that remain are untouched.\<close>

definition judged_at :: "iso_reader \<Rightarrow> row \<Rightarrow> row \<Rightarrow> loaded_store \<Rightarrow> pystr \<Rightarrow> bool" where
  "judged_at fromiso all rest s k \<longleftrightarrow>
     (case map_of all k of
        None \<Rightarrow> map_of (records_raw s) k = None \<and> map_of (st_records s) k = None
      | Some raw \<Rightarrow> if k \<in> fst ` set rest then map_of (records_raw s) k = Some raw \<and> map_of (st_records s) k = None
                    else accounted fromiso s k raw)"

definition judging :: "iso_reader \<Rightarrow> row \<Rightarrow> row \<Rightarrow> loaded_store \<Rightarrow> bool" where
  "judging fromiso all rest s \<longleftrightarrow> store_writable s \<and> distinct (map fst (records_raw s)) \<and> distinct (map fst (st_records s)) \<and>
     (\<forall>k. judged_at fromiso all rest s k)"

lemma judge_row_other:
  "k' \<noteq> k \<Longrightarrow> judged_at fromiso all rest (judge_row fromiso now k raw s) k' = judged_at fromiso all ((k, raw) # rest) s k'"
  by (cases "record_from_json fromiso k raw")
     (simp_all add: judged_at_def accounted_def judge_row_ok judge_row_bad cong: option.case_cong sum.case_cong)

lemma judge_row_this:
  assumes "judged_at fromiso all ((k, raw) # rest) s k" "map_of all k = Some raw" "k \<notin> fst ` set rest"
  shows "judged_at fromiso all rest (judge_row fromiso now k raw s) k"
  using assms by (cases "record_from_json fromiso k raw")
     (simp_all add: judged_at_def accounted_def judge_row_ok judge_row_bad entry_last_raw entry_reason)

lemma judge_row_judging:
  assumes "judging fromiso all ((k, raw) # rest) s" "map_of all k = Some raw" "k \<notin> fst ` set rest"
  shows "judging fromiso all rest (judge_row fromiso now k raw s)"
proof -
  have "judged_at fromiso all rest (judge_row fromiso now k raw s) k'" for k'
    using assms judge_row_this [OF _ assms(2,3)] judge_row_other [of k' k] by (cases "k' = k") (simp_all add: judging_def)
  moreover have "store_writable (judge_row fromiso now k raw s) \<and> distinct (map fst (records_raw (judge_row fromiso now k raw s))) \<and>
      distinct (map fst (st_records (judge_row fromiso now k raw s)))"
    using assms(1) by (cases "record_from_json fromiso k raw")
      (simp_all add: judging_def judge_row_ok judge_row_bad distinct_dict_set distinct_dict_del)
  ultimately show ?thesis by (simp add: judging_def)
qed

lemma judge_all:
  "judging fromiso all rest s \<Longrightarrow> (\<And>k raw. (k, raw) \<in> set rest \<Longrightarrow> map_of all k = Some raw) \<Longrightarrow> distinct (map fst rest) \<Longrightarrow>
     judging fromiso all [] (foldl (\<lambda>s (k, raw). judge_row fromiso now k raw s) s rest)"
proof (induction rest arbitrary: s)
  case (Cons kr rest)
  obtain k raw where kr: "kr = (k, raw)" by (cases kr)
  have "judging fromiso all rest (judge_row fromiso now k raw s)"
    using Cons.prems by (intro judge_row_judging) (auto simp: kr)
  then show ?case using Cons.IH Cons.prems by (simp add: kr)
qed simp

lemma validate_judged:
  assumes "json_get F_RECORDS env = Obj rows" "distinct (map fst rows)"
  shows "judging fromiso rows [] (validate_v1_records fromiso env now)"
proof -
  define env' where "env' = (if map_of env F_QUARANTINED = None then env @ [(F_QUARANTINED, Obj [])] else env)"
  define s where "s = \<lparr>st_status = Valid_store, envelope = Some env', st_records = [], quarantine_events = [], quarantine_repeats = 0\<rparr>"
  have "map_of env F_RECORDS = Some (Obj rows)"
    using assms(1) by (simp add: json_get.simps split: option.splits)
  then have "json_get F_RECORDS env' = Obj rows"
    by (simp add: env'_def json_get.simps map_add_def)
  then have raws: "records_raw s = rows" by (simp add: s_def records_raw_def env_of_def dict_of_def)
  have recs: "st_records s = []" "store_writable s" by (simp_all add: s_def store_writable_def)
  have "judged_at fromiso rows rows s k" for k
    using map_of_eq_None_iff [of rows k] by (cases "map_of rows k") (auto simp: judged_at_def raws recs)
  then have "judging fromiso rows rows s" using assms(2) by (simp add: judging_def raws recs)
  from judge_all [OF this, of now] show ?thesis
    using assms(2) raws by (simp add: validate_v1_records_def env'_def [symmetric] s_def [symmetric] Let_def)
qed

lemma judged_synced:
  assumes "judging fromiso all [] s"
  shows "synced fromiso s"
proof -
  have "synced_at fromiso s k" for k
  proof -
    have "judged_at fromiso all [] s k" using assms by (simp add: judging_def)
    then show ?thesis
      by (cases "map_of all k"; cases "record_from_json fromiso k (the (map_of all k))")
         (simp_all add: judged_at_def accounted_def synced_at_def)
  qed
  then show ?thesis using assms by (simp add: synced_def judging_def)
qed

text \<open>A file that is loaded gives a store whose rows and records agree.\<close>

lemma container_rows:
  assumes "container_ok d" "keys_distinct (Obj d)"
  obtains rows where "json_get F_RECORDS d = Obj rows" "distinct (map fst rows)"
proof -
  obtain rows where rows: "json_get F_RECORDS d = Obj rows"
    using assms(1) by (cases "json_get F_RECORDS d") (simp_all add: container_ok_def)
  then have "map_of d F_RECORDS = Some (Obj rows)" by (simp add: json_get.simps split: option.splits)
  then have "(F_RECORDS, Obj rows) \<in> set d" by (rule map_of_SomeD)
  moreover have "\<forall>(k, v) \<in> set d. keys_distinct v" using assms(2) by (simp add: list_all_iff)
  ultimately have "keys_distinct (Obj rows)" by blast
  with rows that show ?thesis by simp
qed

text \<open>The ways a file is judged, the first that applies.\<close>

lemma load_store_cases [consumes 1, case_names absent corrupt unrecognized ahead container valid]:
  assumes "load_store fromiso f now = Inr (s, moved)"
  obtains "f = No_store" "s = empty_store Absent_store (Some fresh_envelope)" "\<not> moved"
  | t where "f = Store_text t" "\<And>d. loads (newlines t) \<noteq> Some (Obj d)" "s = empty_store Corrupt_store (Some fresh_envelope)" "moved"
  | t d where "f = Store_text t" "loads (newlines t) = Some (Obj d)" "s = empty_store Version_unrecognized None" "\<not> moved"
  | t d where "f = Store_text t" "loads (newlines t) = Some (Obj d)" "s = empty_store Version_ahead None" "\<not> moved"
  | t d v ma where "f = Store_text t" "loads (newlines t) = Some (Obj d)" "json_get F_VERSION d = Str v"
      "match_version v = Some ma" "int_of_digits ma = 1"
      "\<not> container_ok d" "s = empty_store Corrupt_store (Some fresh_envelope)" "moved"
  | t d v ma where "f = Store_text t" "loads (newlines t) = Some (Obj d)" "json_get F_VERSION d = Str v"
      "match_version v = Some ma" "int_of_digits ma = 1"
      "container_ok d" "s = validate_v1_records fromiso d now" "\<not> moved"
  using assms unfolding load_store_def KNOWN_MAJOR_def
  by (auto split: store_file.splits option.splits json.splits if_splits simp: nat_neq_iff)

lemma synced_load:
  assumes "load_store fromiso f now = Inr (s, moved)" "store_writable s"
  shows "synced fromiso s"
  using assms(1)
proof (cases rule: load_store_cases)
  case (valid t d v ma)
  obtain rows where "json_get F_RECORDS d = Obj rows" "distinct (map fst rows)"
    using container_rows [OF valid(6) loads_keys_distinct [OF valid(2)]] .
  from judged_synced [OF validate_judged [OF this]] show ?thesis by (simp only: valid)
qed (use assms(2) in \<open>simp_all add: synced_empty store_writable_def empty_store_def [of Version_unrecognized]
  empty_store_def [of Version_ahead]\<close>)

section \<open>A record that is opened reads back\<close>

definition iso_ok :: "iso_reader \<Rightarrow> bool" where
  "iso_ok fromiso \<longleftrightarrow> (\<forall>t. min_instant \<le> t \<longrightarrow> t \<le> max_instant \<longrightarrow> fromiso (iso_text t) = Some (t, Some 0))"

definition strict_iso :: iso_reader where
  "strict_iso s = map_option (\<lambda>(t, off). (t, Some (off * 1000000))) (read_iso s)"

lemma strict_iso_ok: "iso_ok strict_iso"
  by (simp add: iso_ok_def strict_iso_def read_iso_text)

lemma padded_no_z: "90 \<notin> set (padded w n)"
  by (auto simp: padded_def dest: decimal_digits)

lemma replace_z_plain: "90 \<notin> set s \<Longrightarrow> replace_z s = s"
  by (induction s) (auto simp: replace_z_def)

lemma iso_text_no_z: "90 \<notin> set (iso_text t)"
  by (auto simp: iso_text_def Let_def padded_no_z text_simps split: prod.splits)

lemma parse_utc_iso: "iso_ok fromiso \<Longrightarrow> in_calendar t \<Longrightarrow> parse_iso fromiso (utc_iso t) name = Inr t"
  by (simp add: parse_iso_def parse_aware_def utc_iso_def replace_z_plain iso_text_no_z iso_ok_def in_calendar_def)

definition opened_record :: "work_unit \<Rightarrow> time \<Rightarrow> pystr \<Rightarrow> pystr list \<Rightarrow> time \<Rightarrow> row \<Rightarrow> stall_record" where
  "opened_record u now klass flags motion_at_open ev =
     \<lparr>sr_unit = u, epoch_start = now, first_seen_at = now, sr_class = klass, class_history = [\<lparr>ce_at = now, ce_class = klass\<rparr>],
      remedy_attempts = [], ladder_stage = lit ''initial'', sr_flags = flags,
      evidence = dict_set F_MOTION (utc_iso motion_at_open) ev\<rparr>"

lemma chain_map_str: "chain_map (as_str name) (map Str xs) = Inr xs"
  by (induction xs) (simp_all add: as_str_def)

lemma new_record_reads:
  assumes "iso_ok fromiso" "in_calendar now" "in_calendar motion_at_open"
  shows "record_from_json fromiso (unit_key u) (Obj (new_record_json u now klass flags motion_at_open ev)) =
    Inr (opened_record u now klass flags motion_at_open ev)"
proof -
  note iso = parse_utc_iso [OF assms(1,2)] parse_utc_iso [OF assms(1,3)]
  show ?thesis
    by (simp add: record_from_json_def new_record_json_def require_dict_def require_str_def require_list_def
        field_names json_get_Cons iso parse_unit_def parse_class_entry_def class_row_def str_list_def chain_map_str
        opened_record_def)
qed

section \<open>What is saved is loaded\<close>

definition store_text :: "row \<Rightarrow> pystr" where
  "store_text env = dumps_indent (Obj env) @ [10]"

lemma high_no_cr: "list_all (\<lambda>c. 32 \<le> c) (s :: pystr) \<Longrightarrow> 13 \<notin> set s"
  by (auto simp: list_all_iff)

lemma indent_no_cr: "json_ok v \<Longrightarrow> 13 \<notin> set (indent_text n v)"
proof (induction v arbitrary: n rule: json_ok.induct)
  case (3 i)
  then show ?case using high_no_cr [OF int_text_high] by simp
next
  case (5 s)
  then show ?case using high_no_cr [OF json_string_high] by simp
next
  case (6 vs)
  have "13 \<notin> set (join (44 # new_line (Suc n)) (map (indent_text (Suc n)) vs))"
    using 6 list_all_join [of "\<lambda>c. c \<noteq> 13" "44 # new_line (Suc n)" "map (indent_text (Suc n)) vs"]
    by (auto simp: list_all_iff new_line_def)
  then show ?case by (simp add: new_line_def)
next
  case (7 fs)
  let ?ts = "map (\<lambda>(k, v). json_string line_char k @ 58 # [32] @ indent_text (Suc n) v) fs"
  have "list_all (list_all (\<lambda>c. c \<noteq> 13)) ?ts"
    using 7 high_no_cr [OF json_string_high] by (fastforce simp: list_all_iff)
  then have "13 \<notin> set (join (44 # new_line (Suc n)) ?ts)"
    using list_all_join [of "\<lambda>c. c \<noteq> 13" "44 # new_line (Suc n)" ?ts] by (auto simp: list_all_iff new_line_def)
  then show ?case by (simp add: new_line_def)
qed (simp_all add: text_simps)

lemma newlines_no_cr: "13 \<notin> set s \<Longrightarrow> newlines s = s"
  by (induction s rule: newlines.induct) auto

lemma loads_store_text: "json_ok (Obj env) \<Longrightarrow> loads (newlines (store_text env)) = Some (Obj env)"
  using indent_no_cr [of "Obj env" 0] loads_dumps_indent [of "Obj env" "[10]"]
  by (simp add: store_text_def dumps_indent_def newlines_no_cr json_white_def)

definition version_one :: "row \<Rightarrow> bool" where
  "version_one d \<longleftrightarrow> (\<exists>v ma. json_get F_VERSION d = Str v \<and> match_version v = Some ma \<and> length ma \<le> 4300 \<and> int_of_digits ma = 1)"

lemma load_version_one:
  assumes "version_one d" "container_ok d" "loads (newlines t) = Some (Obj d)"
  shows "load_store fromiso (Store_text t) now = Inr (validate_v1_records fromiso d now, False)"
  using assms by (auto simp: version_one_def load_store_def KNOWN_MAJOR_def)

text \<open>The rows of a store that agrees with its records are judged to be those records.\<close>

lemma judge_all_ok:
  assumes "\<And>k raw. (k, raw) \<in> set rest \<Longrightarrow> \<exists>r. record_from_json fromiso k raw = Inr r"
  shows "quarantine_events (foldl (\<lambda>s (k, raw). judge_row fromiso now k raw s) s rest) = quarantine_events s"
  using assms
proof (induction rest arbitrary: s)
  case (Cons kr rest)
  obtain k raw where kr: "kr = (k, raw)" by (cases kr)
  then obtain r where "record_from_json fromiso k raw = Inr r" using Cons.prems by auto
  then have "quarantine_events (judge_row fromiso now k raw s) = quarantine_events s" by (simp add: judge_row_ok)
  then show ?case using Cons.IH Cons.prems by (simp add: kr)
qed simp

text \<open>C10. A store whose rows and records agree is saved as a text from which the next tick loads the same records,
  with no record put into quarantine: nothing that is open is forgotten between two ticks.\<close>

theorem saved_store_loads_back:
  assumes "synced fromiso s" "envelope s = Some env" "json_ok (Obj env)" "version_one env" "container_ok env"
  shows "\<exists>s'. load_store fromiso (Store_text (store_text env)) now = Inr (s', False) \<and> store_writable s' \<and>
    map_of (st_records s') = map_of (st_records s) \<and> quarantine_events s' = []"
proof -
  define s' where "s' = validate_v1_records fromiso env now"
  have env: "env_of s = env" using assms(2) by (simp add: env_of_def)
  obtain rows where rows: "json_get F_RECORDS env = Obj rows" "records_raw s = rows"
    using assms(5) env by (cases "json_get F_RECORDS env") (simp_all add: container_ok_def records_raw_def dict_of_def)
  have d: "distinct (map fst rows)" using assms(1) rows by (simp add: synced_def)
  have parsed: "map_of rows k = Some raw \<Longrightarrow> \<exists>r. record_from_json fromiso k raw = Inr r \<and> map_of (st_records s) k = Some r"
    and none: "map_of rows k = None \<Longrightarrow> map_of (st_records s) k = None" for k raw
    using assms(1) by (auto simp: synced_def synced_at_def rows dest!: spec [of _ k])
  have judged: "judging fromiso rows [] s'" unfolding s'_def by (rule validate_judged [OF rows(1) d])
  have "map_of (st_records s') k = map_of (st_records s) k" for k
  proof -
    have "judged_at fromiso rows [] s' k" using judged by (simp add: judging_def)
    then show ?thesis
      using parsed [of k "the (map_of rows k)"] none [of k]
      by (cases "map_of rows k") (auto simp: judged_at_def accounted_def)
  qed
  then have "map_of (st_records s') = map_of (st_records s)" by (rule ext)
  moreover have "quarantine_events s' = []"
  proof -
    have "\<exists>r. record_from_json fromiso k raw = Inr r" if "(k, raw) \<in> set rows" for k raw
      using parsed [of k raw] d that by (auto simp: map_of_eq_Some_iff)
    moreover have "records_raw \<lparr>st_status = Valid_store, envelope = Some
        (if map_of env F_QUARANTINED = None then env @ [(F_QUARANTINED, Obj [])] else env),
        st_records = [], quarantine_events = [], quarantine_repeats = 0\<rparr> = rows"
      using rows(1) by (auto simp: records_raw_def env_of_def json_get.simps map_add_def dict_of_def split: option.splits)
    ultimately show ?thesis
      unfolding s'_def validate_v1_records_def Let_def by (subst judge_all_ok) auto
  qed
  moreover have "store_writable s'" using judged by (simp add: judging_def)
  moreover have "load_store fromiso (Store_text (store_text env)) now = Inr (s', False)"
    unfolding s'_def by (rule load_version_one [OF assms(4,5) loads_store_text [OF assms(3)]])
  ultimately show ?thesis by blast
qed

text \<open>C11. How a store file is judged: a text that is not an object is moved aside, an object of another version is
  neither written nor moved, one of version 1 is moved aside exactly when its containers are broken, and otherwise
  each of its rows is kept as it is or put into quarantine with its reason and its text.\<close>

theorem load_order_loses_nothing:
  assumes "load_store fromiso (Store_text t) now = Inr (s, moved)"
  shows "case loads (newlines t) of
      Some (Obj d) \<Rightarrow>
        moved = (version_one d \<and> \<not> container_ok d) \<and> store_writable s = version_one d \<and>
        (\<forall>k raw. version_one d \<and> container_ok d \<and> map_of (dict_of (json_get F_RECORDS d)) k = Some raw \<longrightarrow> accounted fromiso s k raw)
    | _ \<Rightarrow> moved"
proof (cases "\<exists>d. loads (newlines t) = Some (Obj d)")
  case True
  then obtain d where d: "loads (newlines t) = Some (Obj d)" by blast
  have "accounted fromiso (validate_v1_records fromiso d now) k raw"
    if c: "container_ok d" and raw: "map_of (dict_of (json_get F_RECORDS d)) k = Some raw" for k raw
  proof -
    obtain rows where rows: "json_get F_RECORDS d = Obj rows" "distinct (map fst rows)"
      using container_rows [OF c loads_keys_distinct [OF d]] .
    then have "judged_at fromiso rows [] (validate_v1_records fromiso d now) k"
      using validate_judged [OF rows, of fromiso now] by (simp add: judging_def)
    then show ?thesis using raw rows by (simp add: judged_at_def dict_of_def)
  qed
  moreover have "store_writable (validate_v1_records fromiso d now)" if "container_ok d"
    using container_rows [OF that loads_keys_distinct [OF d]] validate_judged by (metis judging_def)
  ultimately show ?thesis
    using assms unfolding d
    by (auto simp: load_store_def d KNOWN_MAJOR_def version_one_def empty_store_def store_writable_def
        split: option.splits json.splits if_splits)
next
  case False
  then show ?thesis using assms by (auto simp: load_store_def split: option.splits json.splits)
qed

text \<open>A store with one record and a row that is not one.\<close>

definition sample_unit :: work_unit where
  "sample_unit = \<lparr>wu_kind = Pr_unit, wu_ident = lit ''o/r#7''\<rparr>"

definition sample_env :: row where
  "sample_env = [(F_VERSION, Str (lit ''1.0'')),
     (F_RECORDS, Obj [(unit_key sample_unit, Obj (new_record_json sample_unit 0 (lit ''resumable'') [] 0 [])),
                      (lit ''odd'', Null)]),
     (F_QUARANTINED, Obj [])]"

definition sample_rows :: row where
  "sample_rows = [(unit_key sample_unit, Obj (new_record_json sample_unit 0 (lit ''resumable'') [] 0 []))]"

definition sample_store :: loaded_store where
  "sample_store = \<lparr>st_status = Valid_store,
     envelope = Some [(F_VERSION, Str (lit ''1.0'')), (F_RECORDS, Obj sample_rows), (F_QUARANTINED, Obj [])],
     st_records = [(unit_key sample_unit, opened_record sample_unit 0 (lit ''resumable'') [] 0 [])],
     quarantine_events = [], quarantine_repeats = 0\<rparr>"

lemma epoch_in_calendar: "in_calendar 0"
  by (simp add: in_calendar_def calendar_range)

lemma sample_reads:
  "record_from_json strict_iso (unit_key sample_unit) (Obj (new_record_json sample_unit 0 (lit ''resumable'') [] 0 [])) =
     Inr (opened_record sample_unit 0 (lit ''resumable'') [] 0 [])"
  by (rule new_record_reads [OF strict_iso_ok epoch_in_calendar epoch_in_calendar])

lemma sample_synced: "synced strict_iso sample_store"
proof -
  have rows: "records_raw sample_store = sample_rows"
    by (simp add: sample_store_def records_raw_def env_of_def json_get_Cons dict_of_def F_VERSION_def F_RECORDS_def)
  show ?thesis
    by (simp add: synced_def synced_at_def rows) (simp add: sample_store_def sample_rows_def store_writable_def sample_reads)
qed

lemma scalar_digits: "list_all scalar (decimal n)"
  using decimal_digits by (fastforce simp: list_all_iff scalar_def)

lemma scalar_iso: "list_all scalar (iso_text t)"
  by (auto simp: iso_text_def Let_def padded_def scalar_digits scalar_lit list_all_iff[of scalar "replicate _ _"]
      scalar_def[of 48] split: prod.splits)

lemma new_record_ok:
  assumes "list_all scalar (wu_ident u)" "list_all scalar klass" "list_all (list_all scalar) flags"
    "list_all (\<lambda>(k, v). list_all scalar k \<and> json_ok v) ev" "distinct (map fst ev)" "F_MOTION \<notin> fst ` set ev"
  shows "json_ok (Obj (new_record_json u now klass flags t ev))"
proof -
  have "list_all scalar (unit_kind_value k)" for k by (cases k) (simp_all add: unit_kind_value_def scalar_lit)
  then show ?thesis
    using assms by (simp add: new_record_json_def field_names scalar_lit utc_iso_def scalar_iso class_row_def
        dict_set_fresh list.pred_map comp_def)
qed

lemma version_one_text: "match_version (lit ''1.0'') = Some [49]" "int_of_digits [49] = 1"
  by (simp_all add: match_version_def text_simps is_decimal_def int_of_digits_def digit_value_def)

lemma version_oneI: "json_get F_VERSION d = Str (lit ''1.0'') \<Longrightarrow> version_one d"
  by (simp add: version_one_def version_one_text)

lemma saved_store_loads_back_witness:
  "\<exists>s'. load_store strict_iso (Store_text (store_text (the (envelope sample_store)))) 5 = Inr (s', False) \<and> store_writable s' \<and>
    map_of (st_records s') = map_of (st_records sample_store) \<and> quarantine_events s' = []"
proof (rule saved_store_loads_back)
  have ok: "json_ok (Obj (new_record_json sample_unit 0 (lit ''resumable'') [] 0 []))"
    by (rule new_record_ok) (simp_all add: sample_unit_def scalar_lit)
  have key: "list_all scalar (unit_key sample_unit)"
    by (simp add: unit_key_def sample_unit_def unit_kind_value_def scalar_lit)
  show "json_ok (Obj (the (envelope sample_store)))"
    using ok key by (simp add: sample_store_def sample_rows_def F_VERSION_def F_RECORDS_def F_QUARANTINED_def scalar_lit)
  show "version_one (the (envelope sample_store))"
    by (rule version_oneI) (simp add: sample_store_def json_get_Cons)
  show "container_ok (the (envelope sample_store))"
    by (simp add: sample_store_def container_ok_def json_get_Cons get_default_def F_VERSION_def F_RECORDS_def F_QUARANTINED_def)
  show "envelope sample_store = Some (the (envelope sample_store))" by (simp add: sample_store_def)
qed (rule sample_synced)

lemma load_order_loses_nothing_witness:
  "\<exists>s moved. load_store strict_iso (Store_text (store_text sample_env)) 5 = Inr (s, moved) \<and> \<not> moved \<and>
     accounted strict_iso s (lit ''odd'') Null"
proof -
  have ok: "json_ok (Obj (new_record_json sample_unit 0 (lit ''resumable'') [] 0 []))"
    by (rule new_record_ok) (simp_all add: sample_unit_def scalar_lit)
  have key: "list_all scalar (unit_key sample_unit)" "unit_key sample_unit \<noteq> lit ''odd''"
    by (simp_all add: unit_key_def sample_unit_def unit_kind_value_def text_simps scalar_def)
  have "json_ok (Obj sample_env)"
    using ok key by (simp add: sample_env_def F_VERSION_def F_RECORDS_def F_QUARANTINED_def scalar_lit)
  then have l: "loads (newlines (store_text sample_env)) = Some (Obj sample_env)" by (rule loads_store_text)
  have v: "version_one sample_env" by (rule version_oneI) (simp add: sample_env_def json_get_Cons)
  have c: "container_ok sample_env"
    by (simp add: sample_env_def container_ok_def json_get_Cons get_default_def F_VERSION_def F_RECORDS_def F_QUARANTINED_def)
  obtain s moved where s: "load_store strict_iso (Store_text (store_text sample_env)) 5 = Inr (s, moved)"
    using load_version_one [OF v c l] by blast
  have "map_of (dict_of (json_get F_RECORDS sample_env)) (lit ''odd'') = Some Null"
    using key(2) by (simp add: sample_env_def json_get_Cons dict_of_def F_VERSION_def F_RECORDS_def)
  with load_order_loses_nothing [OF s] have "\<not> moved \<and> accounted strict_iso s (lit ''odd'') Null"
    by (simp add: l v c)
  with s show ?thesis by blast
qed

end
