(* ===== verification/StallDriver.thy ===== *)
theory StallDriver
  imports StallStore
begin

text \<open>
  The evaluation of the stall ledger (\<open>stall_ledger/driver.py\<close>): what the sources show against the open
  records, in three passes. What a body fetch answers is a function of the source (\<open>rs_check\<close>); the monotonic
  clock is a stream of readings. A log line is a value with the data its text is built from.
\<close>

section \<open>Sources, budget, lines\<close>

text \<open>A set of keys that could not be observed is a list.\<close>

record source_result =
  rs_report :: source_report
  rs_observations :: "observation list"
  rs_unobservable :: "pystr list"
  rs_complete :: bool
  rs_scope :: "work_unit \<Rightarrow> bool"
  rs_check :: "work_unit \<Rightarrow> motion_event \<Rightarrow> marker_check"

record fetch_budget =
  bud_deadline :: "time option"
  bud_timeout :: duration
  monotonic :: "nat \<Rightarrow> time"

datatype close_rule = Rule_a | Rule_b
datatype silence_end = Until_now | Until_motion

datatype tick_line =
    Unknown_motion_type pystr pystr
  | Opened pystr time pystr "pystr list" time duration "pystr option" bool
  | Closed pystr time close_rule duration "pystr list" duration silence_end bool
  | Marker_resolved pystr time "pystr list" "pystr option"
  | Record_quarantined pystr pystr
  | Quarantine_cleared pystr pystr pystr
  | Clear_request_noop pystr pystr pystr

record tick =
  tk_store :: loaded_store
  tk_held :: "tick_line list"
  body_fetches :: nat
  opened :: nat
  closed :: nat
  markers_resolved :: nat
  bud_exhausted :: bool
  bud_deferred :: nat
  clock_reads :: nat

datatype ledger_exc = Invalid_record pystr | Value_error | Type_error | Assertion_error | Overflow_error

type_synonym 'a tick_act = "(tick, ledger_exc, 'a) act"

definition hold_line :: "tick_line \<Rightarrow> unit tick_act" where
  "hold_line l = modify (\<lambda>t. t\<lparr>tk_held := tk_held t @ [l]\<rparr>)"

definition set_store :: "pystr + loaded_store \<Rightarrow> unit tick_act" where
  "set_store r = (case r of Inl e \<Rightarrow> raise (Invalid_record e) | Inr s \<Rightarrow> modify (\<lambda>t. t\<lparr>tk_store := s\<rparr>))"

text \<open>A question about the origin of motion may raise \<open>OverflowError\<close>.\<close>

definition in_range :: "overflow + 'a \<Rightarrow> 'a tick_act" where
  "in_range r = (case r of Inl _ \<Rightarrow> raise Overflow_error | Inr x \<Rightarrow> ret x)"

definition FLAG_EPOCH_UNKNOWN :: pystr where "FLAG_EPOCH_UNKNOWN = lit ''epoch_unknown''"
definition FLAG_ORIGIN_UNKNOWN :: pystr where "FLAG_ORIGIN_UNKNOWN = lit ''origin_unknown''"
definition MARKER_REASON_BUDGET :: pystr where "MARKER_REASON_BUDGET = lit ''budget''"
definition MARKER_REASON_E_NOT_FOUND :: pystr where "MARKER_REASON_E_NOT_FOUND = lit ''e_not_found''"

definition unverifiable_value :: "unverifiable \<Rightarrow> pystr" where
  "unverifiable_value u = (case u of Fetch_failed \<Rightarrow> lit ''fetch_failed'' | Deleted \<Rightarrow> lit ''deleted''
     | Malformed_marker \<Rightarrow> lit ''malformed_marker'')"

definition marker_flags :: "marker_check \<Rightarrow> pystr list \<times> pystr option" where
  "marker_flags m = (case m of Marked _ \<Rightarrow> ([FLAG_ORIGIN_UNKNOWN], None) | Unmarked \<Rightarrow> ([], None)
     | Unverifiable u \<Rightarrow> ([FLAG_ORIGIN_UNKNOWN], Some (unverifiable_value u)))"

text \<open>The clock is read only while the budget is not exhausted and has a deadline.\<close>

definition try_start :: "fetch_budget \<Rightarrow> bool tick_act" where
  "try_start b = (\<lambda>t.
     let refuse = t\<lparr>bud_exhausted := True, bud_deferred := bud_deferred t + 1\<rparr> in
     if bud_exhausted t then (Inr False, refuse)
     else (case bud_deadline b of
             None \<Rightarrow> (Inr True, t)
           | Some d \<Rightarrow>
               if monotonic b (clock_reads t) + bud_timeout b \<le> d then (Inr True, t\<lparr>clock_reads := clock_reads t + 1\<rparr>)
               else (Inr False, refuse\<lparr>clock_reads := clock_reads t + 1\<rparr>)))"

record verdict =
  vd_flags :: "pystr list"
  vd_reason :: "pystr option"
  vd_pending :: bool

definition judge_e :: "fetch_budget \<Rightarrow> source_result \<Rightarrow> observation \<Rightarrow> motion_event option \<Rightarrow> verdict tick_act" where
  "judge_e b res ob e =
     (case e of
        None \<Rightarrow> ret \<lparr>vd_flags = [], vd_reason = None, vd_pending = False\<rparr>
      | Some ev \<Rightarrow>
          if mo_type ev = HEAD_PUSH then ret \<lparr>vd_flags = [], vd_reason = None, vd_pending = False\<rparr>
          else if mo_type ev = REVIEW_MOTION \<or> mo_type ev = CHATROOM_MSG
          then andthen (try_start b) (\<lambda>ok.
               if \<not> ok then ret \<lparr>vd_flags = [FLAG_ORIGIN_UNKNOWN], vd_reason = Some MARKER_REASON_BUDGET, vd_pending = True\<rparr>
               else andthen (modify (\<lambda>t. t\<lparr>body_fetches := body_fetches t + 1\<rparr>)) (\<lambda>_.
                    let (flags, r) = marker_flags (rs_check res (ob_unit ob) ev) in
                    ret \<lparr>vd_flags = flags, vd_reason = r, vd_pending = False\<rparr>))
          else andthen (hold_line (Unknown_motion_type (unit_key (ob_unit ob)) (mo_type ev))) (\<lambda>_.
               ret \<lparr>vd_flags = [FLAG_ORIGIN_UNKNOWN], vd_reason = None, vd_pending = False\<rparr>))"

section \<open>Closing, settling, opening\<close>

definition add_flags :: "pystr list \<Rightarrow> pystr list \<Rightarrow> pystr list" where
  "add_flags flags new = foldl (\<lambda>fs f. if f \<in> set fs then fs else fs @ [f]) flags new"

definition marker_pending :: "stall_record \<Rightarrow> bool" where
  "marker_pending r \<longleftrightarrow> json_get F_PENDING (evidence r) = Bool True"

text \<open>\<open>datetime.fromisoformat(record.evidence["motion_at_open"])\<close>.\<close>

definition stored_motion :: "iso_reader \<Rightarrow> stall_record \<Rightarrow> (time \<times> duration option) tick_act" where
  "stored_motion fromiso r =
     (case json_get F_MOTION (evidence r) of
        Str s \<Rightarrow> (case fromiso s of None \<Rightarrow> raise Value_error | Some m \<Rightarrow> ret m)
      | _ \<Rightarrow> raise Assertion_error)"

definition close_act ::
    "iso_reader \<Rightarrow> stall_record \<Rightarrow> close_rule \<Rightarrow> time \<Rightarrow> time \<Rightarrow> silence_end \<Rightarrow> unit tick_act" where
  "close_act fromiso r rule now endpoint ek =
     andthen (stored_motion fromiso r) (\<lambda>(local, off).
     andthen (modify (\<lambda>t. t\<lparr>tk_store := close_record (unit_key (sr_unit r)) (tk_store t), closed := closed t + 1\<rparr>)) (\<lambda>_.
     case off of
       None \<Rightarrow> raise Type_error
     | Some d \<Rightarrow>
         hold_line (Closed (unit_key (sr_unit r)) (epoch_start r) rule (record_age r now) (sr_flags r)
           (endpoint - (local - d)) ek (marker_pending r))))"

definition settle_owed ::
    "iso_reader \<Rightarrow> fetch_budget \<Rightarrow> stall_record \<Rightarrow> source_result \<Rightarrow> observation \<Rightarrow> unit tick_act" where
  "settle_owed fromiso b r res ob =
     andthen (stored_motion fromiso r) (\<lambda>(local, off).
     andthen (in_range (select_e ob [])) (\<lambda>e.
     let found = (case (e, off) of (Some ev, Some d) \<Rightarrow> mo_at ev = local - d | _ \<Rightarrow> False)
     in andthen
          (if found then judge_e b res ob e
           else ret \<lparr>vd_flags = [FLAG_ORIGIN_UNKNOWN], vd_reason = Some MARKER_REASON_E_NOT_FOUND, vd_pending = False\<rparr>)
          (\<lambda>v. if vd_pending v then ret ()
               else let flags = add_flags (filter (\<lambda>f. f \<noteq> FLAG_ORIGIN_UNKNOWN) (sr_flags r)) (vd_flags v) in
                    andthen (gets tk_store) (\<lambda>s.
                    andthen (set_store (settle_marker fromiso (unit_key (sr_unit r)) flags (vd_reason v) s)) (\<lambda>_.
                    andthen (modify (\<lambda>t. t\<lparr>markers_resolved := markers_resolved t + 1\<rparr>)) (\<lambda>_.
                    hold_line (Marker_resolved (unit_key (sr_unit r)) (epoch_start r) flags (vd_reason v))))))))"

definition open_act ::
    "iso_reader \<Rightarrow> fetch_budget \<Rightarrow> source_result \<Rightarrow> observation \<Rightarrow> time \<Rightarrow> time \<Rightarrow> bool \<Rightarrow> unit tick_act" where
  "open_act fromiso b res ob lpm now untrusted =
     andthen
       (if untrusted then andthen (in_range (select_e ob [])) (judge_e b res ob)
        else ret \<lparr>vd_flags = [], vd_reason = None, vd_pending = False\<rparr>)
       (\<lambda>v. let flags = (if untrusted then add_flags [FLAG_EPOCH_UNKNOWN] (vd_flags v) else []);
                ev = (case vd_reason v of None \<Rightarrow> [] | Some w \<Rightarrow> [(F_REASON, Str w)])
                     @ (if vd_pending v then [(F_PENDING, Bool True)] else []);
                klass = class_value (classify (ob_features ob));
                key = unit_key (ob_unit ob)
            in andthen (gets tk_store) (\<lambda>s.
               andthen (set_store (put_record fromiso key (new_record_json (ob_unit ob) now klass flags lpm ev) s)) (\<lambda>_.
               andthen (modify (\<lambda>t. t\<lparr>opened := opened t + 1\<rparr>)) (\<lambda>_.
               hold_line (Opened key now klass flags lpm (now - lpm) (vd_reason v) (vd_pending v))))))"

section \<open>The three passes\<close>

type_synonym to_open = "(source_result \<times> observation \<times> time) list"
type_synonym still_open = "(pystr \<times> source_result \<times> observation) list"

definition observe_unit ::
    "iso_reader \<Rightarrow> time \<Rightarrow> source_result \<Rightarrow> observation \<Rightarrow> to_open \<times> still_open \<Rightarrow> (to_open \<times> still_open) tick_act" where
  "observe_unit fromiso now res ob acc =
     andthen (gets tk_store) (\<lambda>s.
     let rec = map_of (st_records s) (unit_key (ob_unit ob)) in
     andthen (in_range (last_participant_motion ob (case rec of None \<Rightarrow> [] | Some r \<Rightarrow> remedy_attempts r))) (\<lambda>lpm.
     case rec of
       None \<Rightarrow>
         if stalled lpm now (ob_needs_actor ob) (ob_n ob) then ret (fst acc @ [(res, ob, lpm)], snd acc) else ret acc
     | Some r \<Rightarrow>
         if \<not> ob_needs_actor ob then andthen (close_act fromiso r Rule_a now now Until_now) (\<lambda>_. ret acc)
         else if epoch_start r < lpm then andthen (close_act fromiso r Rule_b now lpm Until_motion) (\<lambda>_. ret acc)
         else andthen (set_store (reclassify fromiso (unit_key (ob_unit ob)) (class_value (classify (ob_features ob))) now s)) (\<lambda>_.
              ret (fst acc, dict_set (unit_key (ob_unit ob)) (res, ob) (snd acc)))))"

fun observe_all ::
    "iso_reader \<Rightarrow> time \<Rightarrow> source_result \<Rightarrow> observation list \<Rightarrow> to_open \<times> still_open \<Rightarrow> (to_open \<times> still_open) tick_act" where
  "observe_all fromiso now res [] acc = ret acc"
| "observe_all fromiso now res (ob # obs) acc =
     andthen (observe_unit fromiso now res ob acc) (\<lambda>acc'. observe_all fromiso now res obs acc')"

text \<open>A unit of the scope that a complete listing no longer shows.\<close>

definition unseen :: "source_result \<Rightarrow> pystr \<times> stall_record \<Rightarrow> bool" where
  "unseen res kr \<longleftrightarrow> fst kr \<notin> (unit_key \<circ> ob_unit) ` set (rs_observations res) \<and> fst kr \<notin> set (rs_unobservable res) \<and>
     rs_scope res (sr_unit (snd kr))"

fun close_unseen :: "iso_reader \<Rightarrow> time \<Rightarrow> source_result \<Rightarrow> (pystr \<times> stall_record) list \<Rightarrow> unit tick_act" where
  "close_unseen fromiso now res [] = ret ()"
| "close_unseen fromiso now res (kr # krs) =
     andthen (if unseen res kr then close_act fromiso (snd kr) Rule_a now now Until_now else ret ())
       (\<lambda>_. close_unseen fromiso now res krs)"

definition observe_source ::
    "iso_reader \<Rightarrow> time \<Rightarrow> source_result \<Rightarrow> to_open \<times> still_open \<Rightarrow> (to_open \<times> still_open) tick_act" where
  "observe_source fromiso now res acc =
     andthen (observe_all fromiso now res (rs_observations res) acc) (\<lambda>acc'.
       if \<not> rs_complete res then ret acc'
       else andthen (gets (st_records \<circ> tk_store)) (\<lambda>krs.
            andthen (close_unseen fromiso now res krs) (\<lambda>_. ret acc')))"

fun observe_sources ::
    "iso_reader \<Rightarrow> time \<Rightarrow> source_result list \<Rightarrow> to_open \<times> still_open \<Rightarrow> (to_open \<times> still_open) tick_act" where
  "observe_sources fromiso now [] acc = ret acc"
| "observe_sources fromiso now (res # rest) acc =
     andthen (observe_source fromiso now res acc) (\<lambda>acc'. observe_sources fromiso now rest acc')"

definition owed_fetches :: "loaded_store \<Rightarrow> still_open \<Rightarrow> (stall_record \<times> source_result \<times> observation) list" where
  "owed_fetches s still =
     sort_key (\<lambda>(r, _). (epoch_start r, unit_key (sr_unit r)))
       (List.map_filter (\<lambda>(k, res, ob).
          case map_of (st_records s) k of None \<Rightarrow> None | Some r \<Rightarrow> if marker_pending r then Some (r, res, ob) else None) still)"

fun settle_all ::
    "iso_reader \<Rightarrow> fetch_budget \<Rightarrow> (stall_record \<times> source_result \<times> observation) list \<Rightarrow> unit tick_act" where
  "settle_all fromiso b [] = ret ()"
| "settle_all fromiso b ((r, res, ob) # rest) =
     andthen (settle_owed fromiso b r res ob) (\<lambda>_. settle_all fromiso b rest)"

fun open_all :: "iso_reader \<Rightarrow> fetch_budget \<Rightarrow> time \<Rightarrow> bool \<Rightarrow> to_open \<Rightarrow> unit tick_act" where
  "open_all fromiso b now untrusted [] = ret ()"
| "open_all fromiso b now untrusted ((res, ob, lpm) # rest) =
     andthen (gets tk_store) (\<lambda>s.
     andthen (open_act fromiso b res ob lpm now
                (untrusted \<or> unit_key (ob_unit ob) \<in> fst ` set (quarantined s))) (\<lambda>_.
     open_all fromiso b now untrusted rest))"

definition evaluate :: "iso_reader \<Rightarrow> fetch_budget \<Rightarrow> time \<Rightarrow> source_result list \<Rightarrow> unit tick_act" where
  "evaluate fromiso b now results =
     andthen (gets (\<lambda>t. st_status (tk_store t) \<in> {Absent_store, Corrupt_store})) (\<lambda>untrusted.
     andthen (observe_sources fromiso now results ([], [])) (\<lambda>(to_open, still).
     andthen (gets (\<lambda>t. owed_fetches (tk_store t) still)) (\<lambda>owed.
     andthen (settle_all fromiso b owed) (\<lambda>_.
     open_all fromiso b now untrusted to_open))))"

section \<open>A stall that goes on keeps its record\<close>

text \<open>The parts of a record that no tick changes.\<close>

definition same_stall :: "stall_record \<Rightarrow> stall_record \<Rightarrow> bool" where
  "same_stall r r' \<longleftrightarrow> sr_unit r' = sr_unit r \<and> epoch_start r' = epoch_start r \<and> first_seen_at r' = first_seen_at r \<and>
     remedy_attempts r' = remedy_attempts r \<and> ladder_stage r' = ladder_stage r \<and>
     json_get F_MOTION (evidence r') = json_get F_MOTION (evidence r)"

lemma same_stall_refl [simp]: "same_stall r r"
  by (simp add: same_stall_def)

lemma same_stall_trans: "same_stall r r' \<Longrightarrow> same_stall r' r'' \<Longrightarrow> same_stall r r''"
  by (simp add: same_stall_def)

lemma record_fields:
  assumes "record_from_json fromiso k (Obj row) = Inr r"
  shows "\<exists>ur. require_dict row F_UNIT = Inr ur \<and> parse_unit ur = Inr (sr_unit r)"
    and "parse_iso fromiso (json_get F_EPOCH row) F_EPOCH = Inr (epoch_start r)"
    and "parse_iso fromiso (json_get F_SEEN row) F_SEEN = Inr (first_seen_at r)"
    and "\<exists>araw. require_list row F_ATTEMPTS = Inr araw \<and> chain_map (parse_attempt fromiso) araw = Inr (remedy_attempts r)"
    and "require_str row F_STAGE = Inr (ladder_stage r)"
    and "evidence r = dict_of (json_get F_EVIDENCE row)"
proof -
  have ev: "require_dict row F_EVIDENCE = Inr (evidence r)"
    using assms by (auto simp: record_from_json_def split: if_splits)
  then show "evidence r = dict_of (json_get F_EVIDENCE row)"
    by (simp add: require_dict_def json_get.simps dict_of_def split: option.splits json.splits)
qed (use assms in \<open>auto simp: record_from_json_def split: if_splits\<close>)

text \<open>Rows that agree in these fields are read as the same stall.\<close>

lemma record_same_stall:
  assumes "record_from_json fromiso k (Obj row) = Inr r" "record_from_json fromiso k (Obj row') = Inr r'"
    and "\<And>f. f \<in> {F_UNIT, F_EPOCH, F_SEEN, F_ATTEMPTS, F_STAGE} \<Longrightarrow> map_of row' f = map_of row f"
    and "json_get F_MOTION (dict_of (json_get F_EVIDENCE row')) = json_get F_MOTION (dict_of (json_get F_EVIDENCE row))"
  shows "same_stall r r'"
proof -
  note one = record_fields [OF assms(1)] and two = record_fields [OF assms(2)]
  have same: "require_dict row' F_UNIT = require_dict row F_UNIT" "require_list row' F_ATTEMPTS = require_list row F_ATTEMPTS"
      "require_str row' F_STAGE = require_str row F_STAGE" "json_get F_EPOCH row' = json_get F_EPOCH row"
      "json_get F_SEEN row' = json_get F_SEEN row"
    by (simp_all add: require_dict_def require_list_def require_str_def json_get.simps assms(3))
  have "sr_unit r' = sr_unit r" "remedy_attempts r' = remedy_attempts r" using one(1,4) two(1,4) unfolding same by auto
  moreover have "epoch_start r' = epoch_start r" "first_seen_at r' = first_seen_at r" "ladder_stage r' = ladder_stage r"
    using one(2,3,5) two(2,3,5) unfolding same by auto
  moreover have "json_get F_MOTION (evidence r') = json_get F_MOTION (evidence r)" using assms(4) one(6) two(6) by simp
  ultimately show ?thesis by (simp add: same_stall_def)
qed

lemma field_distinct:
  "distinct [F_ATTEMPTS, F_HISTORY, F_EPOCH, F_SEEN, F_UNIT, F_CLASS, F_STAGE, F_FLAGS, F_EVIDENCE, F_MOTION, F_AT, F_PENDING, F_REASON]"
  by (simp add: field_names F_PENDING_def F_REASON_def)

definition held_as :: "iso_reader \<Rightarrow> pystr \<Rightarrow> stall_record \<Rightarrow> loaded_store \<Rightarrow> bool" where
  "held_as fromiso k r s \<longleftrightarrow> synced fromiso s \<and> (\<exists>r'. map_of (st_records s) k = Some r' \<and> same_stall r r')"

lemma held_put_other:
  assumes "held_as fromiso k r s" "put_record fromiso key row s = Inr s'" "key \<noteq> k"
  shows "held_as fromiso k r s'"
proof -
  have "map_of (st_records s') k = map_of (st_records s) k" using assms(2,3) by (auto simp: put_record_Inr)
  then show ?thesis using assms(1) synced_put_record [OF _ assms(2)] by (simp add: held_as_def)
qed

lemma held_put_same:
  assumes "held_as fromiso k r s" "put_record fromiso k row s = Inr s'"
    and "\<And>f. f \<in> {F_UNIT, F_EPOCH, F_SEEN, F_ATTEMPTS, F_STAGE} \<Longrightarrow> map_of row f = map_of (row_of s k) f"
    and "json_get F_MOTION (dict_of (json_get F_EVIDENCE row)) = json_get F_MOTION (dict_of (json_get F_EVIDENCE (row_of s k)))"
  shows "held_as fromiso k r s'"
proof -
  obtain r1 where r1: "synced fromiso s" "map_of (st_records s) k = Some r1" "same_stall r r1"
    using assms(1) by (auto simp: held_as_def)
  obtain raw where raw: "row_of s k = raw" "record_from_json fromiso k (Obj raw) = Inr r1"
    using synced_row [OF r1(1,2)] by blast
  obtain r2 where r2: "record_from_json fromiso k (Obj row) = Inr r2" "map_of (st_records s') k = Some r2"
    using assms(2) by (auto simp: put_record_Inr)
  have "same_stall r1 r2"
    by (rule record_same_stall [OF raw(2) r2(1)]) (use assms(3,4) raw(1) in auto)
  then show ?thesis
    using r1 r2(2) same_stall_trans synced_put_record [OF r1(1) assms(2)] by (auto simp: held_as_def)
qed

lemma held_reclassify:
  assumes "held_as fromiso k r s" "reclassify fromiso key klass now s = Inr s'"
  shows "held_as fromiso k r s'"
proof (cases "json_get F_CLASS (row_of s key) = Str klass")
  case True
  then show ?thesis using assms by (simp add: reclassify_def Let_def)
next
  case False
  then have put: "put_record fromiso key (dict_set F_HISTORY
           (Arr ((case json_get F_HISTORY (row_of s key) of Arr es \<Rightarrow> es | _ \<Rightarrow> []) @ [class_row now klass]))
           (dict_set F_CLASS (Str klass) (row_of s key))) s = Inr s'"
    using assms(2) by (simp add: reclassify_def Let_def)
  show ?thesis
  proof (cases "key = k")
    case True
    show ?thesis
      by (rule held_put_same [OF assms(1) put [unfolded True]])
         (use field_distinct in \<open>auto simp: True json_get_set\<close>)
  qed (rule held_put_other [OF assms(1) put])
qed

lemma held_settle:
  assumes "held_as fromiso k r s" "settle_marker fromiso key flags w s = Inr s'"
  shows "held_as fromiso k r s'"
proof -
  define ev where "ev = dict_del F_PENDING (dict_of (json_get F_EVIDENCE (row_of s key)))"
  define ev' where "ev' = (case w of None \<Rightarrow> dict_del F_REASON ev | Some x \<Rightarrow> dict_set F_REASON (Str x) ev)"
  have put: "put_record fromiso key (dict_set F_EVIDENCE (Obj ev') (dict_set F_FLAGS (Arr (map Str flags)) (row_of s key))) s = Inr s'"
    using assms(2) unfolding settle_marker_def Let_def ev'_def ev_def .
  have motion: "json_get F_MOTION ev' = json_get F_MOTION (dict_of (json_get F_EVIDENCE (row_of s key)))"
    using field_distinct by (auto simp: ev'_def ev_def json_get_set json_get_del split: option.split)
  show ?thesis
  proof (cases "key = k")
    case True
    show ?thesis
      by (rule held_put_same [OF assms(1) put [unfolded True]])
         (use field_distinct motion in \<open>auto simp: True json_get_set dict_of_def\<close>)
  qed (rule held_put_other [OF assms(1) put])
qed

lemma held_close:
  assumes "held_as fromiso k r s" "key \<noteq> k"
  shows "held_as fromiso k r (close_record key s)"
  using assms synced_close by (auto simp: held_as_def close_record_def)

section \<open>What the steps leave alone\<close>

lemma keeps_hold_line: "(\<And>t l. P t \<Longrightarrow> P (t\<lparr>tk_held := l\<rparr>)) \<Longrightarrow> keeps P (hold_line l)"
  unfolding hold_line_def by (rule keeps_modify) blast

lemma try_start_store: "tk_store (snd (try_start b t)) = tk_store t"
  by (simp add: try_start_def Let_def split: option.split)

lemma judge_e_store: "keeps (\<lambda>t. tk_store t = s) (judge_e b res ob e)"
  unfolding judge_e_def
  by (intro keeps_intros keeps_hold_line)
     (auto simp: keeps_def try_start_store ret_def split: prod.split)

lemma stored_motion_same: "stored_motion fromiso r t = (x, t') \<Longrightarrow> t' = t"
  by (auto simp: stored_motion_def ret_def raise_def split: json.splits option.splits)

text \<open>One observation, with the branches of its run.\<close>

lemma in_range_simps [simp]: "in_range (Inr x) = ret x" "in_range (Inl e) = raise Overflow_error"
  by (simp_all add: in_range_def)

lemma observe_unit_None:
  "map_of (st_records (tk_store t)) (unit_key (ob_unit ob)) = None \<Longrightarrow>
     observe_unit fromiso now res ob acc t =
       (Inr (if stalled (silent_since ob) now (ob_needs_actor ob) (ob_n ob) then (fst acc @ [(res, ob, silent_since ob)], snd acc)
             else acc), t)"
  unfolding observe_unit_def gets_andthen Let_def by (simp add: ret_andthen) (simp add: ret_def)

lemma observe_unit_Some:
  "map_of (st_records (tk_store t)) (unit_key (ob_unit ob)) = Some r \<Longrightarrow>
     observe_unit fromiso now res ob acc t =
       (case last_participant_motion ob (remedy_attempts r) of
          Inl _ \<Rightarrow> (Inl Overflow_error, t)
        | Inr lpm \<Rightarrow>
            (if \<not> ob_needs_actor ob then andthen (close_act fromiso r Rule_a now now Until_now) (\<lambda>_. ret acc)
             else if epoch_start r < lpm then andthen (close_act fromiso r Rule_b now lpm Until_motion) (\<lambda>_. ret acc)
             else andthen (set_store (reclassify fromiso (unit_key (ob_unit ob)) (class_value (classify (ob_features ob))) now (tk_store t)))
                    (\<lambda>_. ret (fst acc, dict_set (unit_key (ob_unit ob)) (res, ob) (snd acc)))) t)"
  unfolding observe_unit_def gets_andthen Let_def
  by (cases "last_participant_motion ob (remedy_attempts r)") (simp_all add: ret_andthen, simp add: andthen_def raise_def)

text \<open>A claim about the store alone.\<close>

abbreviation at_store :: "(loaded_store \<Rightarrow> bool) \<Rightarrow> tick \<Rightarrow> bool" where
  "at_store S t \<equiv> S (tk_store t)"

lemma yields_judge: "yields (at_store S) (judge_e b res ob e) (\<lambda>_. at_store S)"
proof (rule yieldsI)
  fix t v t'
  assume "S (tk_store t)" "judge_e b res ob e t = (Inr v, t')"
  moreover from this(2) have "tk_store t' = tk_store t" using keepsD2 [OF judge_e_store [of "tk_store t"] refl] by simp
  ultimately show "S (tk_store t')" by simp
qed

lemma yields_hold: "yields (at_store S) (hold_line l) (\<lambda>_. at_store S)"
  by (simp add: yields_def hold_line_def modify_def)

lemma yields_motion: "yields (at_store S) (stored_motion fromiso r) (\<lambda>_. at_store S)"
  by (auto simp: yields_def dest: stored_motion_same)

lemma yields_in_range: "yields (at_store S) (in_range x) (\<lambda>_. at_store S)"
  by (cases x) (auto simp: yields_def ret_def raise_def)

lemma yields_set_store:
  "(\<And>s s'. S s \<Longrightarrow> f s = Inr s' \<Longrightarrow> S' s') \<Longrightarrow> yields (\<lambda>t. S (tk_store t) \<and> t = t0) (set_store (f (tk_store t0))) (\<lambda>_. at_store S')"
  by (auto simp: yields_def set_store_def raise_def modify_def split: sum.splits)

lemma yields_update:
  assumes "\<And>s s'. S s \<Longrightarrow> f s = Inr s' \<Longrightarrow> S' s'" and "\<And>t n. tk_store (c t) = tk_store t"
  shows "yields (at_store S) (andthen (gets tk_store) (\<lambda>s. andthen (set_store (f s)) (\<lambda>_. andthen (modify c) (\<lambda>_. hold_line l))))
    (\<lambda>_. at_store S')"
proof (rule yields_gets)
  fix t0
  have "yields (at_store S') (andthen (modify c) (\<lambda>_. hold_line l)) (\<lambda>_. at_store S')"
    by (rule yields_andthen [where R = "\<lambda>_. at_store S'"]) (simp_all add: yields_modify assms(2) yields_hold)
  note tail = this
  show "yields (\<lambda>t. S (tk_store t) \<and> t = t0)
      (andthen (set_store (f (tk_store t0))) (\<lambda>_. andthen (modify c) (\<lambda>_. hold_line l))) (\<lambda>_. at_store S')"
    by (rule yields_andthen [OF yields_set_store [where S = S and S' = S']], erule (1) assms(1), rule tail)
qed

lemma yields_close:
  assumes "\<And>s. S s \<Longrightarrow> S (close_record (unit_key (sr_unit r)) s)"
  shows "yields (at_store S) (close_act fromiso r rule now endpoint ek) (\<lambda>_. at_store S)"
  unfolding close_act_def
  by (rule yields_andthen [OF yields_motion])
     (auto intro!: yields_andthen [where R = "\<lambda>_. at_store S"] yields_modify yields_raise yields_hold assms split: prod.split option.split)

lemma yields_settle_owed:
  assumes "\<And>s s' flags w. S s \<Longrightarrow> settle_marker fromiso (unit_key (sr_unit r)) flags w s = Inr s' \<Longrightarrow> S s'"
  shows "yields (at_store S) (settle_owed fromiso b r res ob) (\<lambda>_. at_store S)"
proof -
  have settle: "yields (at_store S) (andthen (gets tk_store) (\<lambda>s.
      andthen (set_store (settle_marker fromiso (unit_key (sr_unit r)) flags w s)) (\<lambda>_.
      andthen (modify (\<lambda>t. t\<lparr>markers_resolved := markers_resolved t + 1\<rparr>)) (\<lambda>_. hold_line l)))) (\<lambda>_. at_store S)" for flags w l
    by (rule yields_update [where S = S and S' = S], erule (1) assms, simp)
  show ?thesis
    unfolding settle_owed_def Let_def split_beta
    by (rule yields_andthen [OF yields_motion], rule yields_andthen [OF yields_in_range],
        rule yields_andthen [where R = "\<lambda>_. at_store S"])
       (intro yields_if yields_judge yields_ret settle; assumption)+
qed

lemma yields_settle_all:
  assumes "\<And>s s' key flags w. S s \<Longrightarrow> settle_marker fromiso key flags w s = Inr s' \<Longrightarrow> S s'"
  shows "yields (at_store S) (settle_all fromiso b owed) (\<lambda>_. at_store S)"
proof (induction owed)
  case (Cons o1 owed)
  obtain r res ob where o1: "o1 = (r, res, ob)" by (cases o1)
  have "yields (at_store S) (settle_owed fromiso b r res ob) (\<lambda>_. at_store S)"
    by (rule yields_settle_owed) (erule (1) assms)
  then show ?case unfolding o1 settle_all.simps by (rule yields_andthen) (rule Cons.IH)
qed (simp add: yields_ret)

lemma yields_open_act:
  assumes "\<And>s s' klass flags ev. S s \<Longrightarrow>
      put_record fromiso (unit_key (ob_unit ob)) (new_record_json (ob_unit ob) now klass flags lpm ev) s = Inr s' \<Longrightarrow> S' s'"
  shows "yields (at_store S) (open_act fromiso b res ob lpm now untrusted) (\<lambda>_. at_store S')"
proof -
  have put: "yields (at_store S) (andthen (gets tk_store) (\<lambda>s.
      andthen (set_store (put_record fromiso (unit_key (ob_unit ob)) (new_record_json (ob_unit ob) now klass flags lpm ev) s)) (\<lambda>_.
      andthen (modify (\<lambda>t. t\<lparr>opened := opened t + 1\<rparr>)) (\<lambda>_. hold_line l)))) (\<lambda>_. at_store S')" for klass flags ev l
    by (rule yields_update [where S = S and S' = S'], erule (1) assms, simp)
  show ?thesis
    unfolding open_act_def Let_def
    by (rule yields_andthen [where R = "\<lambda>_. at_store S"])
       (intro yields_if yields_andthen [OF yields_in_range] yields_judge yields_ret put; assumption)+
qed

lemma yields_open_all:
  assumes "\<And>ob now lpm s s' klass flags ev. ob \<in> (fst \<circ> snd) ` set todo \<Longrightarrow> S s \<Longrightarrow>
      put_record fromiso (unit_key (ob_unit ob)) (new_record_json (ob_unit ob) now klass flags lpm ev) s = Inr s' \<Longrightarrow> S s'"
  shows "yields (at_store S) (open_all fromiso b now untrusted todo) (\<lambda>_. at_store S)"
  using assms
proof (induction todo)
  case (Cons o1 todo)
  obtain res ob lpm where o1: "o1 = (res, ob, lpm)" by (cases o1)
  have "yields (at_store S) (open_act fromiso b res ob lpm now u) (\<lambda>_. at_store S)" for u
    by (rule yields_open_act) (erule (1) Cons.prems [rotated], simp add: o1)
  moreover have "yields (at_store S) (open_all fromiso b now untrusted todo) (\<lambda>_. at_store S)"
    by (rule Cons.IH) (erule (1) Cons.prems [rotated], simp)
  ultimately show ?case
    unfolding o1 open_all.simps
    by (intro yields_gets, rule_tac yields_andthen [where R = "\<lambda>_. at_store S"], rule_tac yields_pre [where P = "at_store S"]) auto
qed (simp add: yields_ret)

section \<open>A stall that goes on\<close>

text \<open>What the sources must show for the record of a stall to stay: wherever its unit is observed it still needs an actor and
  no participant has moved since the record was opened, and no complete listing of its scope leaves it out.\<close>

definition goes_on :: "stall_record \<Rightarrow> source_result \<Rightarrow> bool" where
  "goes_on r res \<longleftrightarrow>
     (\<forall>ob \<in> set (rs_observations res). ob_unit ob = sr_unit r \<longrightarrow>
        ob_needs_actor ob \<and>
        (case last_participant_motion ob (remedy_attempts r) of Inl _ \<Rightarrow> False | Inr lpm \<Rightarrow> lpm \<le> epoch_start r)) \<and>
     (rs_complete res \<and> rs_scope res (sr_unit r) \<longrightarrow>
        sr_unit r \<in> ob_unit ` set (rs_observations res) \<or> unit_key (sr_unit r) \<in> set (rs_unobservable res))"

definition to_be_opened :: "to_open \<Rightarrow> work_unit set" where
  "to_be_opened todo = (ob_unit \<circ> fst \<circ> snd) ` set todo"

definition goes_on_at :: "iso_reader \<Rightarrow> stall_record \<Rightarrow> loaded_store \<Rightarrow> bool" where
  "goes_on_at fromiso r s \<longleftrightarrow> held_as fromiso (unit_key (sr_unit r)) r s"

lemma yields_observe_unit:
  assumes "goes_on r res" "ob \<in> set (rs_observations res)" "sr_unit r \<notin> to_be_opened (fst acc)"
  shows "yields (at_store (goes_on_at fromiso r)) (observe_unit fromiso now res ob acc)
    (\<lambda>acc' t. at_store (goes_on_at fromiso r) t \<and> sr_unit r \<notin> to_be_opened (fst acc'))"
proof (rule yieldsI)
  fix t acc' t'
  let ?k = "unit_key (ob_unit ob)"
  assume pre: "goes_on_at fromiso r (tk_store t)" and run: "observe_unit fromiso now res ob acc t = (Inr acc', t')"
  obtain r' where r': "synced fromiso (tk_store t)" "map_of (st_records (tk_store t)) (unit_key (sr_unit r)) = Some r'" "same_stall r r'"
    using pre by (auto simp: goes_on_at_def held_as_def)
  have closed: "goes_on_at fromiso r (tk_store t') \<and> sr_unit r \<notin> to_be_opened (fst acc')"
    if "andthen (close_act fromiso q rule now e ek) (\<lambda>_. ret acc) t = (Inr acc', t')"
      "map_of (st_records (tk_store t)) ?k = Some q" "ob_unit ob \<noteq> sr_unit r" for q rule e ek
  proof -
    have "unit_key (sr_unit q) \<noteq> unit_key (sr_unit r)" using synced_key [OF r'(1) that(2)] that(3) by simp
    then have "yields (at_store (goes_on_at fromiso r)) (close_act fromiso q rule now e ek) (\<lambda>_. at_store (goes_on_at fromiso r))"
      by (intro yields_close) (simp add: goes_on_at_def held_close)
    then show ?thesis
      using that(1) pre assms(3) by (auto simp: andthen_eq_Inr_iff ret_def dest: yieldsD)
  qed
  show "at_store (goes_on_at fromiso r) t' \<and> sr_unit r \<notin> to_be_opened (fst acc')"
  proof (cases "map_of (st_records (tk_store t)) ?k")
    case None
    then have "ob_unit ob \<noteq> sr_unit r" using r'(2) by auto
    then show ?thesis
      using run pre assms(3) by (auto simp: observe_unit_None [OF None] to_be_opened_def split: if_splits)
  next
    case (Some q)
    obtain lpm where lpm: "last_participant_motion ob (remedy_attempts q) = Inr lpm"
      using run by (auto simp: observe_unit_Some [OF Some] split: sum.splits)
    have stays: "ob_needs_actor ob \<and> \<not> epoch_start q < lpm" if "ob_unit ob = sr_unit r"
    proof -
      have "q = r'" using that Some r'(2) by simp
      then show ?thesis
        using assms(1,2) that r'(3) lpm by (auto simp: goes_on_def same_stall_def not_less split: sum.splits)
    qed
    show ?thesis
    proof (cases "\<not> ob_needs_actor ob \<or> epoch_start q < lpm")
      case True
      then obtain rule e ek where "andthen (close_act fromiso q rule now e ek) (\<lambda>_. ret acc) t = (Inr acc', t')"
        using run by (auto simp: observe_unit_Some [OF Some] lpm split: if_splits)
      then show ?thesis using Some stays True by (intro closed) auto
    next
      case False
      then obtain s' where "reclassify fromiso ?k (class_value (classify (ob_features ob))) now (tk_store t) = Inr s'"
          "t' = t\<lparr>tk_store := s'\<rparr>" "acc' = (fst acc, dict_set ?k (res, ob) (snd acc))"
        using run by (auto simp: observe_unit_Some [OF Some] lpm andthen_run set_store_def modify_def raise_def ret_def
            split: sum.splits)
      then show ?thesis
        using pre assms(3) held_reclassify by (auto simp: goes_on_at_def)
    qed
  qed
qed

lemma yields_observe_all:
  assumes "\<And>ob acc. ob \<in> set obs \<Longrightarrow> A acc \<Longrightarrow> yields (at_store S) (observe_unit fromiso now res ob acc) (\<lambda>acc' t. at_store S t \<and> A acc')"
    and "A acc"
  shows "yields (at_store S) (observe_all fromiso now res obs acc) (\<lambda>acc' t. at_store S t \<and> A acc')"
  using assms
proof (induction obs arbitrary: acc)
  case (Cons ob obs)
  have "yields (at_store S) (observe_all fromiso now res obs acc') (\<lambda>acc' t. at_store S t \<and> A acc')" if "A acc'" for acc'
    by (rule Cons.IH [OF _ that], rule Cons.prems(1)) simp_all
  then have rest: "yields (\<lambda>t. at_store S t \<and> A acc') (observe_all fromiso now res obs acc') (\<lambda>acc' t. at_store S t \<and> A acc')" for acc'
    unfolding yields_def by blast
  have "yields (at_store S) (observe_unit fromiso now res ob acc) (\<lambda>acc' t. at_store S t \<and> A acc')"
    by (rule Cons.prems(1)) (simp_all add: Cons.prems(2))
  then show ?case unfolding observe_all.simps by (rule yields_andthen) (rule rest)
qed (simp add: yields_ret)

lemma yields_close_unseen:
  assumes "\<And>s k q. (k, q) \<in> set krs \<Longrightarrow> unseen res (k, q) \<Longrightarrow> S s \<Longrightarrow> S (close_record (unit_key (sr_unit q)) s)"
  shows "yields (at_store S) (close_unseen fromiso now res krs) (\<lambda>_. at_store S)"
  using assms
proof (induction krs)
  case (Cons kr krs)
  have "yields (at_store S) (if unseen res kr then close_act fromiso (snd kr) Rule_a now now Until_now else ret ()) (\<lambda>_. at_store S)"
    by (intro yields_if yields_close yields_ret) (use Cons.prems [of "fst kr" "snd kr"] in simp_all)
  moreover have "yields (at_store S) (close_unseen fromiso now res krs) (\<lambda>_. at_store S)"
    by (rule Cons.IH, rule Cons.prems) simp_all
  ultimately show ?case unfolding close_unseen.simps by (rule yields_andthen)
qed (simp add: yields_ret)

lemma yields_observe_source:
  assumes obs: "\<And>ob acc. ob \<in> set (rs_observations res) \<Longrightarrow> A acc \<Longrightarrow>
      yields (at_store S) (observe_unit fromiso now res ob acc) (\<lambda>acc' t. at_store S t \<and> A acc')"
    and close: "\<And>s0 s k q. rs_complete res \<Longrightarrow> S s0 \<Longrightarrow> (k, q) \<in> set (st_records s0) \<Longrightarrow> unseen res (k, q) \<Longrightarrow> S s \<Longrightarrow>
      S (close_record (unit_key (sr_unit q)) s)"
    and "A acc"
  shows "yields (at_store S) (observe_source fromiso now res acc) (\<lambda>acc' t. at_store S t \<and> A acc')"
proof -
  have "yields (\<lambda>t. at_store S t \<and> A acc')
      (if \<not> rs_complete res then ret acc'
       else andthen (gets (st_records \<circ> tk_store)) (\<lambda>krs. andthen (close_unseen fromiso now res krs) (\<lambda>_. ret acc')))
      (\<lambda>acc' t. at_store S t \<and> A acc')" for acc'
  proof (rule yields_if)
    assume "\<not> \<not> rs_complete res"
    then have "yields (at_store S) (close_unseen fromiso now res ((st_records \<circ> tk_store) t0)) (\<lambda>_. at_store S)" if "at_store S t0" for t0
      using close that by (intro yields_close_unseen) auto
    then show "yields (\<lambda>t. at_store S t \<and> A acc') (andthen (gets (st_records \<circ> tk_store)) (\<lambda>krs.
        andthen (close_unseen fromiso now res krs) (\<lambda>_. ret acc'))) (\<lambda>acc' t. at_store S t \<and> A acc')"
      by (auto simp: yields_def gets_andthen andthen_eq_Inr_iff ret_def)
  qed (simp add: yields_ret)
  note rest = this
  have "yields (at_store S) (observe_all fromiso now res (rs_observations res) acc) (\<lambda>acc' t. at_store S t \<and> A acc')"
    by (rule yields_observe_all) (rule obs, assumption+, rule assms(3))
  then show ?thesis unfolding observe_source_def by (rule yields_andthen) (rule rest)
qed

lemma yields_observe_sources:
  assumes "\<And>res acc. res \<in> set results \<Longrightarrow> A acc \<Longrightarrow>
      yields (at_store S) (observe_source fromiso now res acc) (\<lambda>acc' t. at_store S t \<and> A acc')" and "A acc"
  shows "yields (at_store S) (observe_sources fromiso now results acc) (\<lambda>acc' t. at_store S t \<and> A acc')"
  using assms
proof (induction results arbitrary: acc)
  case (Cons res results)
  have "yields (at_store S) (observe_sources fromiso now results acc') (\<lambda>acc' t. at_store S t \<and> A acc')" if "A acc'" for acc'
    by (rule Cons.IH [OF _ that], rule Cons.prems(1)) simp_all
  then have rest: "yields (\<lambda>t. at_store S t \<and> A acc') (observe_sources fromiso now results acc') (\<lambda>acc' t. at_store S t \<and> A acc')" for acc'
    unfolding yields_def by blast
  have "yields (at_store S) (observe_source fromiso now res acc) (\<lambda>acc' t. at_store S t \<and> A acc')"
    by (rule Cons.prems(1)) (simp_all add: Cons.prems(2))
  then show ?case unfolding observe_sources.simps by (rule yields_andthen) (rule rest)
qed (simp add: yields_ret)

lemma yields_evaluate:
  assumes "yields (at_store S) (observe_sources fromiso now results ([], [])) (\<lambda>acc t. at_store S t \<and> A acc)"
    and "\<And>s s' key flags w. S s \<Longrightarrow> settle_marker fromiso key flags w s = Inr s' \<Longrightarrow> S s'"
    and "\<And>acc u. A acc \<Longrightarrow> yields (at_store S) (open_all fromiso b now u (fst acc)) (\<lambda>_. at_store S')"
  shows "yields (at_store S) (evaluate fromiso b now results) (\<lambda>_. at_store S')"
proof (rule yieldsI)
  fix t x t'
  assume S: "at_store S t" and run: "evaluate fromiso b now results t = (Inr x, t')"
  obtain acc t1 t2 u where one: "observe_sources fromiso now results ([], []) t = (Inr acc, t1)"
    and two: "settle_all fromiso b (owed_fetches (tk_store t1) (snd acc)) t1 = (Inr (), t2)"
    and three: "open_all fromiso b now u (fst acc) t2 = (Inr x, t')"
    using run by (auto simp: evaluate_def gets_andthen andthen_eq_Inr_iff split_beta)
  have "at_store S t1 \<and> A acc" using yieldsD [OF assms(1) S one] .
  then have t1: "at_store S t1" and A: "A acc" by simp_all
  have "yields (at_store S) (settle_all fromiso b (owed_fetches (tk_store t1) (snd acc))) (\<lambda>_. at_store S)"
    by (rule yields_settle_all) (erule (1) assms(2))
  from yieldsD [OF this t1 two] have t2: "at_store S t2" .
  show "at_store S' t'" using yieldsD [OF assms(3) [OF A] t2 three] .
qed

lemma stall_kept:
  assumes "synced fromiso (tk_store t)" "map_of (st_records (tk_store t)) k = Some r"
    and "\<forall>res \<in> set results. goes_on r res"
    and "evaluate fromiso b now results t = (Inr u, t')"
  shows "\<exists>r'. map_of (st_records (tk_store t')) k = Some r' \<and> same_stall r r'"
proof -
  have k: "k = unit_key (sr_unit r)" using synced_key [OF assms(1,2)] by simp
  let ?S = "goes_on_at fromiso r" and ?A = "\<lambda>acc :: to_open \<times> still_open. sr_unit r \<notin> to_be_opened (fst acc)"
  have sources: "yields (at_store ?S) (observe_source fromiso now res acc) (\<lambda>acc' t. at_store ?S t \<and> ?A acc')"
    if res: "res \<in> set results" and "?A acc" for res acc
  proof (rule yields_observe_source [OF yields_observe_unit _ that(2)])
    show "goes_on r res" using assms(3) res by blast
    fix s0 s k' q
    assume s0: "rs_complete res" "?S s0" "(k', q) \<in> set (st_records s0)" "unseen res (k', q)" and s: "?S s"
    have sync: "synced fromiso s0" using s0(2) by (simp add: goes_on_at_def held_as_def)
    then have q: "map_of (st_records s0) k' = Some q" using s0(3) by (simp add: synced_def map_of_eq_Some_iff)
    have "unit_key (sr_unit q) = k'" by (rule synced_key [OF sync q])
    have "sr_unit q \<noteq> sr_unit r"
    proof
      assume same: "sr_unit q = sr_unit r"
      then have "rs_scope res (sr_unit r)" "unit_key (sr_unit r) \<notin> unit_key ` ob_unit ` set (rs_observations res)"
          "unit_key (sr_unit r) \<notin> set (rs_unobservable res)"
        using s0(4) \<open>unit_key (sr_unit q) = k'\<close> by (auto simp: unseen_def)
      then show False using s0(1) assms(3) res by (auto simp: goes_on_def)
    qed
    then have "unit_key (sr_unit q) \<noteq> unit_key (sr_unit r)" by simp
    then show "?S (close_record (unit_key (sr_unit q)) s)"
      using s unfolding goes_on_at_def by (intro held_close)
  qed
  have opens: "yields (at_store ?S) (open_all fromiso b now u (fst acc)) (\<lambda>_. at_store ?S)" if "?A acc" for acc u
  proof (rule yields_open_all)
    fix ob now lpm s s' klass flags ev
    assume ob: "ob \<in> (fst \<circ> snd) ` set (fst acc)" and s: "?S s"
      and put: "put_record fromiso (unit_key (ob_unit ob)) (new_record_json (ob_unit ob) now klass flags lpm ev) s = Inr s'"
    have "ob_unit ob \<in> to_be_opened (fst acc)" using ob by (auto simp: to_be_opened_def)
    then have "unit_key (ob_unit ob) \<noteq> unit_key (sr_unit r)" using that by auto
    then show "?S s'" using held_put_other [OF s [unfolded goes_on_at_def] put] by (simp add: goes_on_at_def)
  qed
  have "yields (at_store ?S) (evaluate fromiso b now results) (\<lambda>_. at_store ?S)"
    by (rule yields_evaluate [OF yields_observe_sources [OF sources] _ opens])
       (auto simp: to_be_opened_def goes_on_at_def intro: held_settle)
  from yieldsD [OF this _ assms(4)] show ?thesis
    using assms(1,2) by (auto simp: k goes_on_at_def held_as_def)
qed

section \<open>A stall that begins\<close>

definition unrecorded :: "work_unit \<Rightarrow> loaded_store \<Rightarrow> bool" where
  "unrecorded u s \<longleftrightarrow> map_of (st_records s) (unit_key u) = None"

definition recorded_from :: "work_unit \<Rightarrow> time \<Rightarrow> loaded_store \<Rightarrow> bool" where
  "recorded_from u now s \<longleftrightarrow> (\<exists>r. map_of (st_records s) (unit_key u) = Some r \<and> epoch_start r = now)"

lemma unrecorded_put: "unrecorded u s \<Longrightarrow> put_record fromiso key row s = Inr s' \<Longrightarrow> key \<noteq> unit_key u \<Longrightarrow> unrecorded u s'"
  by (auto simp: unrecorded_def put_record_Inr)

lemma unrecorded_close: "unrecorded u s \<Longrightarrow> unrecorded u (close_record key s)"
  by (simp add: unrecorded_def close_record_def)

lemma recorded_put:
  assumes "iso_ok fromiso" "in_calendar now"
    and "put_record fromiso (unit_key v) (new_record_json v now klass flags lpm ev) s = Inr s'"
    and "v = u \<or> recorded_from u now s"
  shows "recorded_from u now s'"
proof -
  obtain r where r: "record_from_json fromiso (unit_key v) (Obj (new_record_json v now klass flags lpm ev)) = Inr r"
      "st_records s' = dict_set (unit_key v) r (st_records s)"
    using assms(3) by (auto simp: put_record_Inr)
  have "json_get F_EPOCH (new_record_json v now klass flags lpm ev) = utc_iso now"
    using field_distinct by (simp add: new_record_json_def json_get_Cons)
  then have "epoch_start r = now"
    using record_fields(2) [OF r(1)] parse_utc_iso [OF assms(1,2)] by simp
  then show ?thesis using r(2) assms(4) by (auto simp: recorded_from_def)
qed

text \<open>What one observation does to the records and to the list of units to open.\<close>

lemma observe_unit_effect:
  assumes "observe_unit fromiso now res ob acc t = (Inr acc', t')"
  shows "(map_of (st_records (tk_store t)) (unit_key (ob_unit ob)) = None \<and> tk_store t' = tk_store t \<and>
            fst acc' = (if stalled (silent_since ob) now (ob_needs_actor ob) (ob_n ob)
                        then fst acc @ [(res, ob, silent_since ob)] else fst acc)) \<or>
         (\<exists>r. map_of (st_records (tk_store t)) (unit_key (ob_unit ob)) = Some r \<and> fst acc' = fst acc \<and>
              (tk_store t' = close_record (unit_key (sr_unit r)) (tk_store t) \<or>
               reclassify fromiso (unit_key (ob_unit ob)) (class_value (classify (ob_features ob))) now (tk_store t) = Inr (tk_store t')))"
proof (cases "map_of (st_records (tk_store t)) (unit_key (ob_unit ob))")
  case None
  then show ?thesis using assms by (auto simp: observe_unit_None split: if_splits)
next
  case (Some r)
  have closed: "tk_store t' = close_record (unit_key (sr_unit r)) (tk_store t) \<and> fst acc' = fst acc"
    if "andthen (close_act fromiso r rule now e ek) (\<lambda>_. ret acc) t = (Inr acc', t')" for rule e ek
    using that by (auto simp: close_act_def andthen_eq_Inr_iff modify_def hold_line_def ret_def raise_def
        dest!: stored_motion_same split: prod.splits option.splits)
  have kept: "reclassify fromiso (unit_key (ob_unit ob)) (class_value (classify (ob_features ob))) now (tk_store t) = Inr (tk_store t') \<and>
      fst acc' = fst acc"
    if "andthen (set_store (reclassify fromiso (unit_key (ob_unit ob)) (class_value (classify (ob_features ob))) now (tk_store t)))
          (\<lambda>_. ret (fst acc, d)) t = (Inr acc', t')" for d
    using that by (auto simp: andthen_eq_Inr_iff set_store_def modify_def ret_def raise_def split: sum.splits)
  show ?thesis
    using assms Some by (auto simp: observe_unit_Some split: if_splits sum.splits dest!: closed kept)
qed

lemma yields_observe_synced:
  "yields (at_store (synced fromiso)) (observe_unit fromiso now res ob acc) (\<lambda>_. at_store (synced fromiso))"
  by (rule yieldsI, drule observe_unit_effect) (auto intro: synced_close synced_reclassify)

lemma yields_observe_unrecorded:
  "yields (at_store (unrecorded u)) (observe_unit fromiso now res ob acc)
     (\<lambda>acc' t. at_store (unrecorded u) t \<and> set (fst acc) \<subseteq> set (fst acc') \<and>
        (ob_unit ob = u \<and> stalled (silent_since ob) now (ob_needs_actor ob) (ob_n ob) \<longrightarrow>
           (res, ob, silent_since ob) \<in> set (fst acc')))"
proof (rule yieldsI)
  fix t acc' t'
  assume pre: "unrecorded u (tk_store t)" and run: "observe_unit fromiso now res ob acc t = (Inr acc', t')"
  have "unrecorded u (tk_store t')"
    if "reclassify fromiso (unit_key (ob_unit ob)) k now (tk_store t) = Inr (tk_store t')" "ob_unit ob \<noteq> u" for k
    using that pre by (auto simp: reclassify_def Let_def split: if_splits intro: unrecorded_put)
  then show "at_store (unrecorded u) t' \<and> set (fst acc) \<subseteq> set (fst acc') \<and>
      (ob_unit ob = u \<and> stalled (silent_since ob) now (ob_needs_actor ob) (ob_n ob) \<longrightarrow>
         (res, ob, silent_since ob) \<in> set (fst acc'))"
    using observe_unit_effect [OF run] pre
    by (cases "ob_unit ob = u") (auto simp: unrecorded_close, simp_all add: unrecorded_def)
qed

text \<open>The claims about one observation, over a listing and over all sources.\<close>

definition starts_stall :: "work_unit \<Rightarrow> time \<Rightarrow> observation \<Rightarrow> bool" where
  "starts_stall u now ob \<longleftrightarrow> ob_unit ob = u \<and> stalled (silent_since ob) now (ob_needs_actor ob) (ob_n ob)"

definition collects :: "work_unit \<Rightarrow> time \<Rightarrow> source_result \<Rightarrow> observation set \<Rightarrow> to_open \<Rightarrow> to_open \<Rightarrow> bool" where
  "collects u now res obs todo todo' \<longleftrightarrow> set todo \<subseteq> set todo' \<and>
     (\<forall>ob \<in> obs. starts_stall u now ob \<longrightarrow> (res, ob, silent_since ob) \<in> set todo')"

lemma observe_all_collects:
  "unrecorded u (tk_store t) \<Longrightarrow> observe_all fromiso now res obs acc t = (Inr acc', t') \<Longrightarrow>
     unrecorded u (tk_store t') \<and> collects u now res (set obs) (fst acc) (fst acc')"
proof (induction obs arbitrary: acc t)
  case (Cons ob obs)
  obtain acc1 t1 where one: "observe_unit fromiso now res ob acc t = (Inr acc1, t1)"
    and rest: "observe_all fromiso now res obs acc1 t1 = (Inr acc', t')"
    using Cons.prems(2) by (auto simp: andthen_eq_Inr_iff)
  have "unrecorded u (tk_store t1) \<and> set (fst acc) \<subseteq> set (fst acc1) \<and>
      (starts_stall u now ob \<longrightarrow> (res, ob, silent_since ob) \<in> set (fst acc1))"
    using yieldsD [OF yields_observe_unrecorded Cons.prems(1) one] by (simp add: starts_stall_def)
  then show ?case using Cons.IH [OF _ rest] by (auto simp: collects_def)
qed (auto simp: ret_def collects_def)

lemma observe_source_collects:
  assumes "unrecorded u (tk_store t)" "observe_source fromiso now res acc t = (Inr acc', t')"
  shows "unrecorded u (tk_store t') \<and> collects u now res (set (rs_observations res)) (fst acc) (fst acc')"
proof -
  obtain t1 where one: "observe_all fromiso now res (rs_observations res) acc t = (Inr acc', t1)"
    and rest: "t' = t1 \<or> (\<exists>krs. close_unseen fromiso now res krs t1 = (Inr (), t'))"
    using assms(2) by (auto simp: observe_source_def andthen_eq_Inr_iff gets_andthen ret_def split: if_splits)
  have "yields (at_store (unrecorded u)) (close_unseen fromiso now res krs) (\<lambda>_. at_store (unrecorded u))" for krs
    by (rule yields_close_unseen) (rule unrecorded_close)
  from yieldsD [OF this] have "unrecorded u (tk_store t1) \<Longrightarrow> unrecorded u (tk_store t')" using rest by auto
  then show ?thesis using observe_all_collects [OF assms(1) one] by simp
qed

lemma observe_sources_collects:
  "unrecorded u (tk_store t) \<Longrightarrow> observe_sources fromiso now results acc t = (Inr acc', t') \<Longrightarrow>
     unrecorded u (tk_store t') \<and> (\<forall>res \<in> set results. collects u now res (set (rs_observations res)) (fst acc) (fst acc')) \<and>
     set (fst acc) \<subseteq> set (fst acc')"
proof (induction results arbitrary: acc t)
  case (Cons res results)
  obtain acc1 t1 where one: "observe_source fromiso now res acc t = (Inr acc1, t1)"
    and rest: "observe_sources fromiso now results acc1 t1 = (Inr acc', t')"
    using Cons.prems(2) by (auto simp: andthen_eq_Inr_iff)
  note this = observe_source_collects [OF Cons.prems(1) one]
  with Cons.IH [OF _ rest] show ?case by (auto simp: collects_def)
qed (auto simp: ret_def collects_def)

lemma open_all_records:
  assumes "iso_ok fromiso" "in_calendar now" and "u \<in> to_be_opened todo"
  shows "yields (\<lambda>_. True) (open_all fromiso b now untrusted todo) (\<lambda>_. at_store (recorded_from u now))"
  using assms(3)
proof (induction todo)
  case (Cons o1 todo)
  obtain res ob lpm where o1: "o1 = (res, ob, lpm)" by (cases o1)
  have stays: "yields (at_store (recorded_from u now)) (open_all fromiso b now untrusted todo) (\<lambda>_. at_store (recorded_from u now))"
    for todo :: to_open
  proof (induction todo)
    case (Cons o2 todo)
    obtain res ob lpm where o2: "o2 = (res, ob, lpm)" by (cases o2)
    have "yields (at_store (recorded_from u now)) (open_act fromiso b res ob lpm now v) (\<lambda>_. at_store (recorded_from u now))" for v
      by (rule yields_open_act) (rule recorded_put [OF assms(1,2)], auto)
    then show ?case
      unfolding o2 open_all.simps
      by (intro yields_gets, rule_tac yields_andthen [where R = "\<lambda>_. at_store (recorded_from u now)"],
          rule_tac yields_pre [where P = "at_store (recorded_from u now)"]) (auto intro: Cons.IH)
  qed (simp add: yields_ret)
  show ?case
  proof (cases "u \<in> to_be_opened todo")
    case True
    then have "yields (\<lambda>_. True) (open_all fromiso b now untrusted todo) (\<lambda>_. at_store (recorded_from u now))" by (rule Cons.IH)
    then show ?thesis unfolding o1 open_all.simps by (auto simp: yields_def gets_andthen andthen_eq_Inr_iff)
  next
    case False
    then have u: "ob_unit ob = u" using Cons.prems by (auto simp: o1 to_be_opened_def)
    have "yields (at_store (\<lambda>_. True)) (open_act fromiso b res ob lpm now v) (\<lambda>_. at_store (recorded_from u now))" for v
      by (rule yields_open_act) (rule recorded_put [OF assms(1,2)], auto simp: u)
    then show ?thesis
      using stays [of todo] unfolding o1 open_all.simps by (auto simp: yields_def gets_andthen andthen_eq_Inr_iff) blast
  qed
qed (simp add: to_be_opened_def)

lemma stall_opened:
  assumes "iso_ok fromiso" "in_calendar now"
    and "unrecorded (ob_unit ob) (tk_store t)" and "res \<in> set results" "ob \<in> set (rs_observations res)"
    and "ob_needs_actor ob" "ob_n ob < now - silent_since ob"
    and "evaluate fromiso b now results t = (Inr x, t')"
  shows "recorded_from (ob_unit ob) now (tk_store t')"
proof -
  obtain acc t1 t2 v where one: "observe_sources fromiso now results ([], []) t = (Inr acc, t1)"
    and two: "settle_all fromiso b (owed_fetches (tk_store t1) (snd acc)) t1 = (Inr (), t2)"
    and three: "open_all fromiso b now v (fst acc) t2 = (Inr x, t')"
    using assms(8) by (auto simp: evaluate_def gets_andthen andthen_eq_Inr_iff split_beta)
  have "starts_stall (ob_unit ob) now ob" using assms(6,7) by (simp add: starts_stall_def stalled_def)
  then have "(res, ob, silent_since ob) \<in> set (fst acc)"
    using observe_sources_collects [OF assms(3) one] assms(4,5) by (auto simp: collects_def)
  then have "ob_unit ob \<in> to_be_opened (fst acc)" by (force simp: to_be_opened_def)
  from yieldsD [OF open_all_records [OF assms(1,2) this] TrueI three] show ?thesis .
qed

section \<open>The evaluation returns\<close>

text \<open>A record that a tick can work on: its motion at opening is read as it stands, without the replacement of \<open>Z\<close> that
  the validation makes, and the windows of its attempts lie in the calendar.\<close>

definition ready_record :: "iso_reader \<Rightarrow> stall_record \<Rightarrow> bool" where
  "ready_record fromiso r \<longleftrightarrow> windows_fit (remedy_attempts r) \<and>
     (case json_get F_MOTION (evidence r) of
        Str s \<Rightarrow> (case fromiso s of Some (_, Some _) \<Rightarrow> True | _ \<Rightarrow> False)
      | _ \<Rightarrow> False)"

definition ready_store :: "iso_reader \<Rightarrow> loaded_store \<Rightarrow> bool" where
  "ready_store fromiso s \<longleftrightarrow> synced fromiso s \<and> list_all (ready_record fromiso \<circ> snd) (st_records s)"

lemma ready_synced: "ready_store fromiso s \<Longrightarrow> synced fromiso s"
  by (simp add: ready_store_def)

lemma ready_stored: "ready_store fromiso s \<Longrightarrow> (k, r) \<in> set (st_records s) \<Longrightarrow> ready_record fromiso r"
  by (auto simp: ready_store_def list_all_iff)

lemma ready_same: "ready_record fromiso r \<Longrightarrow> same_stall r r' \<Longrightarrow> ready_record fromiso r'"
  by (simp add: ready_record_def same_stall_def)

lemma ready_close: "ready_store fromiso s \<Longrightarrow> ready_store fromiso (close_record key s)"
  using synced_close by (auto simp: ready_store_def close_record_def list_all_iff dict_del_def)

text \<open>A change that keeps every record and adds none keeps the store ready.\<close>

lemma ready_kept:
  assumes "ready_store fromiso s" "synced fromiso s'" "fst ` set (st_records s') \<subseteq> fst ` set (st_records s)"
    and "\<And>k r. held_as fromiso k r s \<Longrightarrow> held_as fromiso k r s'"
  shows "ready_store fromiso s'"
proof -
  have "ready_record fromiso q" if q: "(k, q) \<in> set (st_records s')" for k q
  proof -
    have q': "map_of (st_records s') k = Some q" using assms(2) q by (auto simp: synced_def map_of_eq_Some_iff)
    obtain r where r: "map_of (st_records s) k = Some r"
      using assms(3) q map_of_eq_None_iff [of "st_records s" k] by force
    then have "held_as fromiso k r s" using assms(1) by (auto simp: held_as_def ready_store_def)
    from assms(4) [OF this] q' have "same_stall r q" by (auto simp: held_as_def)
    with ready_stored [OF assms(1) map_of_SomeD [OF r]] show ?thesis by (rule ready_same)
  qed
  with assms(2) show ?thesis by (auto simp: ready_store_def list_all_iff)
qed

lemma set_dict_set_subset: "set (dict_set k v d) \<subseteq> insert (k, v) (set d)"
  by (induction k v d rule: dict_set.induct) auto

lemma ready_put:
  assumes "ready_store fromiso s" "put_record fromiso key row s = Inr s'"
    and "\<And>r. record_from_json fromiso key (Obj row) = Inr r \<Longrightarrow> ready_record fromiso r"
  shows "ready_store fromiso s'"
  using assms synced_put_record [OF ready_synced [OF assms(1)] assms(2)]
  by (auto simp: put_record_Inr ready_store_def list_all_iff dest!: set_dict_set_subset [THEN subsetD])

text \<open>A row without a unit is no record.\<close>

lemma settle_missing:
  assumes "synced fromiso s" "map_of (st_records s) key = None"
  shows "settle_marker fromiso key flags w s \<noteq> Inr s'"
proof
  assume settled: "settle_marker fromiso key flags w s = Inr s'"
  have "synced_at fromiso s key" using assms(1) by (simp add: synced_def)
  then have "map_of (records_raw s) key = None" using assms(2) by (simp add: synced_at_def)
  then have "row_of s key = []" by (simp add: row_of_def json_get.simps dict_of_def)
  then show False
    using settled field_distinct
    by (auto simp: settle_marker_def Let_def put_record_Inr record_from_json_def require_dict_def)
qed

lemma put_keys:
  "put_record fromiso key row s = Inr s' \<Longrightarrow> key \<in> fst ` set (st_records s) \<Longrightarrow>
     fst ` set (st_records s') = fst ` set (st_records s)"
  unfolding put_record_Inr by (elim exE conjE) (simp add: insert_absorb)

lemma ready_settle:
  assumes "ready_store fromiso s" "settle_marker fromiso key flags w s = Inr s'"
  shows "ready_store fromiso s'"
proof (rule ready_kept [OF assms(1) synced_settle [OF ready_synced [OF assms(1)] assms(2)]])
  have "key \<in> fst ` set (st_records s)"
    using settle_missing [OF ready_synced [OF assms(1)], of key] assms(2) map_of_eq_None_iff [of "st_records s" key] by metis
  moreover obtain row where "put_record fromiso key row s = Inr s'" using assms(2) by (auto simp: settle_marker_def Let_def)
  ultimately show "fst ` set (st_records s') \<subseteq> fst ` set (st_records s)" using put_keys by blast
qed (rule held_settle [OF _ assms(2)])

lemma ready_reclassify:
  assumes "ready_store fromiso s" "map_of (st_records s) key = Some r" "reclassify fromiso key klass now s = Inr s'"
  shows "ready_store fromiso s'"
proof (rule ready_kept [OF assms(1) synced_reclassify [OF ready_synced [OF assms(1)] assms(3)]])
  have "key \<in> fst ` set (st_records s)" using map_of_SomeD [OF assms(2)] by force
  then show "fst ` set (st_records s') \<subseteq> fst ` set (st_records s)"
    using assms(3) put_keys by (fastforce simp: reclassify_def Let_def split: if_splits)
qed (rule held_reclassify [OF _ assms(3)])

lemma ready_open:
  assumes "iso_ok fromiso" "in_calendar now" "in_calendar lpm" "ready_store fromiso s"
    and "put_record fromiso (unit_key u) (new_record_json u now klass flags lpm ev) s = Inr s'"
  shows "ready_store fromiso s'"
proof (rule ready_put [OF assms(4,5)])
  have "fromiso (iso_text lpm) = Some (lpm, Some 0)" using assms(1,3) by (simp add: iso_ok_def in_calendar_def)
  then have "ready_record fromiso (opened_record u now klass flags lpm ev)"
    by (simp add: ready_record_def opened_record_def json_get_set utc_iso_def)
  then show "ready_record fromiso r"
    if "record_from_json fromiso (unit_key u) (Obj (new_record_json u now klass flags lpm ev)) = Inr r" for r
    using that new_record_reads [OF assms(1-3)] by simp
qed

lemma stored_motion_returns:
  assumes "ready_record fromiso r"
  shows "\<exists>l off. stored_motion fromiso r = ret (l, Some off)"
  using assms by (auto simp: ready_record_def stored_motion_def split: json.splits option.splits)

lemma close_act_returns:
  assumes "ready_record fromiso r"
  shows "\<exists>t'. close_act fromiso r rule now e ek t = (Inr (), t')"
  using stored_motion_returns [OF assms]
  by (auto simp: close_act_def andthen_def ret_def modify_def hold_line_def)

lemma record_rebuild:
  assumes "record_from_json fromiso k (Obj row) = Inr r"
    and "\<And>f. f \<in> {F_UNIT, F_EPOCH, F_SEEN, F_ATTEMPTS, F_STAGE} \<Longrightarrow> map_of row' f = map_of row f"
    and "\<exists>c. map_of row' F_CLASS = Some (Str c)"
    and "\<exists>es hs. map_of row' F_HISTORY = Some (Arr es) \<and> chain_map (parse_class_entry fromiso) es = Inr hs"
    and "\<exists>fs flags. map_of row' F_FLAGS = Some (Arr fs) \<and> str_list (Arr fs) F_FLAGS = Inr flags"
    and "\<exists>ev. map_of row' F_EVIDENCE = Some (Obj ev) \<and> map_of ev F_MOTION = map_of (evidence r) F_MOTION"
  shows "\<exists>r'. record_from_json fromiso k (Obj row') = Inr r'"
proof -
  have same: "require_dict row' F_UNIT = require_dict row F_UNIT" "require_list row' F_ATTEMPTS = require_list row F_ATTEMPTS"
      "require_str row' F_STAGE = require_str row F_STAGE" "json_get F_EPOCH row' = json_get F_EPOCH row"
      "json_get F_SEEN row' = json_get F_SEEN row"
    by (simp_all add: require_dict_def require_list_def require_str_def json_get.simps assms(2))
  obtain c es hs fs flags ev where new: "require_str row' F_CLASS = Inr c" "require_list row' F_HISTORY = Inr es"
      "chain_map (parse_class_entry fromiso) es = Inr hs" "require_list row' F_FLAGS = Inr fs"
      "str_list (Arr fs) F_FLAGS = Inr flags" "require_dict row' F_EVIDENCE = Inr ev"
      "map_of ev F_MOTION = map_of (evidence r) F_MOTION"
    using assms(3-) by (auto simp: require_dict_def require_list_def require_str_def)
  obtain ur u araw where old: "require_dict row F_UNIT = Inr ur" "parse_unit ur = Inr u" "unit_key u = k"
      "require_list row F_ATTEMPTS = Inr araw" "chain_map (parse_attempt fromiso) araw = Inr (remedy_attempts r)"
      "require_str row F_STAGE = Inr (ladder_stage r)"
      "parse_iso fromiso (json_get F_EPOCH row) F_EPOCH = Inr (epoch_start r)"
      "parse_iso fromiso (json_get F_SEEN row) F_SEEN = Inr (first_seen_at r)"
    using assms(1) by (auto simp: record_from_json_def split: if_splits)
  obtain m where "map_of (evidence r) F_MOTION = Some m" "\<exists>t. parse_iso fromiso m (lit ''evidence.motion_at_open'') = Inr t"
    using assms(1) by (auto simp: record_from_json_def split: option.splits if_splits)
  then show ?thesis
    by (auto simp: record_from_json_def same new old)
qed

lemma record_parts:
  assumes "record_from_json fromiso k (Obj row) = Inr r"
  shows "\<exists>c. map_of row F_CLASS = Some (Str c)"
    and "\<exists>es hs. map_of row F_HISTORY = Some (Arr es) \<and> chain_map (parse_class_entry fromiso) es = Inr hs"
    and "\<exists>fs flags. map_of row F_FLAGS = Some (Arr fs) \<and> str_list (Arr fs) F_FLAGS = Inr flags"
    and "\<exists>ev. map_of row F_EVIDENCE = Some (Obj ev) \<and> ev = evidence r"
  using assms
  by (auto simp: record_from_json_def require_dict_def require_list_def require_str_def split: if_splits option.splits json.splits)

lemma chain_map_append: "chain_map f xs = Inr ys \<Longrightarrow> f x = Inr y \<Longrightarrow> chain_map f (xs @ [x]) = Inr (ys @ [y])"
  by (induction xs arbitrary: ys) auto

lemma reclassify_returns:
  assumes "iso_ok fromiso" "in_calendar now" "synced fromiso s" "map_of (st_records s) key = Some r"
  shows "\<exists>s'. reclassify fromiso key klass now s = Inr s'"
proof -
  obtain row where row: "row_of s key = row" "record_from_json fromiso key (Obj row) = Inr r"
    using synced_row [OF assms(3,4)] by blast
  obtain es hs where es: "map_of row F_HISTORY = Some (Arr es)" "chain_map (parse_class_entry fromiso) es = Inr hs"
    using record_parts(2) [OF row(2)] by blast
  have entry: "parse_class_entry fromiso (class_row now klass) = Inr \<lparr>ce_at = now, ce_class = klass\<rparr>"
    using field_distinct by (simp add: parse_class_entry_def class_row_def json_get_Cons parse_utc_iso [OF assms(1,2)])
  have "\<exists>r'. record_from_json fromiso key (Obj (dict_set F_HISTORY (Arr (es @ [class_row now klass])) (dict_set F_CLASS (Str klass) row))) = Inr r'"
    by (rule record_rebuild [OF row(2)])
       (use field_distinct record_parts [OF row(2)] chain_map_append [OF es(2) entry] in auto)
  then show ?thesis
    by (auto simp: reclassify_def Let_def row(1) put_record_def json_get.simps es(1))
qed

lemma settle_returns:
  assumes "synced fromiso s" "map_of (st_records s) key = Some r"
  shows "\<exists>s'. settle_marker fromiso key flags w s = Inr s'"
proof -
  obtain row where row: "row_of s key = row" "record_from_json fromiso key (Obj row) = Inr r"
    using synced_row [OF assms] by blast
  have ev: "map_of row F_EVIDENCE = Some (Obj (evidence r))" using record_parts(4) [OF row(2)] by auto
  define ev' where "ev' = (case w of None \<Rightarrow> dict_del F_REASON (dict_del F_PENDING (evidence r))
      | Some x \<Rightarrow> dict_set F_REASON (Str x) (dict_del F_PENDING (evidence r)))"
  have motion: "map_of ev' F_MOTION = map_of (evidence r) F_MOTION"
    using field_distinct by (auto simp: ev'_def split: option.split)
  have "\<exists>r'. record_from_json fromiso key (Obj (dict_set F_EVIDENCE (Obj ev') (dict_set F_FLAGS (Arr (map Str flags)) row))) = Inr r'"
    by (rule record_rebuild [OF row(2)])
       (use field_distinct record_parts [OF row(2)] motion in \<open>auto simp: str_list_def chain_map_str\<close>)
  moreover have d: "dict_of (json_get F_EVIDENCE row) = evidence r" using ev by (simp add: json_get.simps dict_of_def)
  ultimately show ?thesis
    unfolding settle_marker_def Let_def row(1) put_record_def d ev'_def by auto
qed

lemma returns_then: "returns (\<lambda>_. True) m \<Longrightarrow> (\<And>x. returns (\<lambda>_. True) (f x)) \<Longrightarrow> returns (\<lambda>_. True) (andthen m f)"
  by (rule returns_andthen) (auto simp: yields_def)

lemma judge_e_total: "returns (\<lambda>_. True) (judge_e b res ob e)"
proof -
  have "returns (\<lambda>_. True) (try_start b)"
    by (rule returnsI) (auto simp: try_start_def Let_def split: option.split)
  moreover have "returns (\<lambda>_. True) (case p of (flags, r) \<Rightarrow> ret \<lparr>vd_flags = flags, vd_reason = r, vd_pending = False\<rparr>)" for p
    by (cases p) (simp add: returns_basic)
  ultimately show ?thesis
    unfolding judge_e_def hold_line_def
    by (cases e) (auto intro!: returns_if returns_then returns_basic split: prod.split)
qed

lemma judge_e_returns: "\<exists>v t'. judge_e b res ob e t = (Inr v, t')"
  using returnsD [OF judge_e_total] by simp

definition in_store :: "loaded_store \<Rightarrow> stall_record \<Rightarrow> bool" where
  "in_store s r \<longleftrightarrow> unit_key (sr_unit r) \<in> fst ` set (st_records s)"

lemma in_store_put: "in_store s r \<Longrightarrow> put_record fromiso key row s = Inr s' \<Longrightarrow> in_store s' r"
  unfolding in_store_def put_record_Inr by (elim exE conjE) simp

lemma returns_update:
  assumes "\<exists>s'. f s0 = Inr s'"
  shows "returns (\<lambda>t. tk_store t = s0) (andthen (gets tk_store) (\<lambda>s. andthen (set_store (f s)) (\<lambda>_. andthen (modify c) (\<lambda>_. hold_line l))))"
proof (rule returnsI)
  fix t :: tick
  assume "tk_store t = s0"
  with assms obtain s' where "f (tk_store t) = Inr s'" by blast
  then show "\<exists>x t'. andthen (gets tk_store) (\<lambda>s. andthen (set_store (f s)) (\<lambda>_. andthen (modify c) (\<lambda>_. hold_line l))) t = (Inr x, t')"
    unfolding gets_andthen by (simp add: andthen_run set_store_def modify_def hold_line_def)
qed

lemma settle_owed_returns:
  assumes "ready_record fromiso r" "synced fromiso (tk_store t)" "in_store (tk_store t) r"
  shows "\<exists>t'. settle_owed fromiso b r res ob t = (Inr (), t')"
proof -
  let ?P = "at_store (\<lambda>s. s = tk_store t)"
  obtain l off where m: "stored_motion fromiso r = ret (l, Some off)" using stored_motion_returns [OF assms(1)] by blast
  obtain best where e: "in_range (select_e ob []) = ret best" using select_e_Nil [of ob] by auto
  obtain q where "map_of (st_records (tk_store t)) (unit_key (sr_unit r)) = Some q"
    using assms(3) map_of_eq_None_iff [of "st_records (tk_store t)"] by (auto simp: in_store_def)
  then have settles: "\<exists>s'. settle_marker fromiso (unit_key (sr_unit r)) flags w (tk_store t) = Inr s'" for flags w
    by (rule settle_returns [OF assms(2)])
  have judged: "returns ?P (judge_e b res ob e)" for e by (rule returns_pre [OF judge_e_total]) simp
  have "returns ?P (settle_owed fromiso b r res ob)"
    unfolding settle_owed_def m e ret_andthen prod.case Let_def
    by (rule returns_andthen [where R = "\<lambda>_. ?P"])
       (intro returns_if returns_basic returns_update judged settles yields_if yields_judge [where S = "\<lambda>s. s = tk_store t"] yields_ret;
        assumption?)+
  from returnsD [OF this refl] show ?thesis by simp
qed

lemma settle_all_returns:
  "\<forall>(r, res, ob) \<in> set owed. ready_record fromiso r \<and> in_store (tk_store t) r \<Longrightarrow>
     synced fromiso (tk_store t) \<Longrightarrow> \<exists>t'. settle_all fromiso b owed t = (Inr (), t')"
proof (induction owed arbitrary: t)
  case (Cons o1 owed)
  obtain r res ob where o1: "o1 = (r, res, ob)" by (cases o1)
  have "ready_record fromiso r" "in_store (tk_store t) r" using Cons.prems(1) by (simp_all add: o1)
  then obtain t1 where one: "settle_owed fromiso b r res ob t = (Inr (), t1)"
    using settle_owed_returns [OF _ Cons.prems(2)] by blast
  let ?S = "\<lambda>s. synced fromiso s \<and> (\<forall>(r, res, ob) \<in> set owed. in_store s r)"
  have step: "yields (at_store ?S) (settle_owed fromiso b r res ob) (\<lambda>_. at_store ?S)"
  proof (rule yields_settle_owed)
    fix s s' flags w
    assume s: "?S s" and settled: "settle_marker fromiso (unit_key (sr_unit r)) flags w s = Inr s'"
    then obtain row where "put_record fromiso (unit_key (sr_unit r)) row s = Inr s'" by (auto simp: settle_marker_def Let_def)
    then show "?S s'" using s synced_settle [OF _ settled] in_store_put by fast
  qed
  have "?S (tk_store t)" using Cons.prems by auto
  from yieldsD [OF step this one] have "?S (tk_store t1)" .
  then have "\<exists>t'. settle_all fromiso b owed t1 = (Inr (), t')"
    using Cons.prems(1) by (intro Cons.IH) auto
  then show ?case by (simp add: o1 andthen_def one)
qed (simp add: ret_def)

lemma open_act_returns:
  assumes "iso_ok fromiso" "in_calendar now" "in_calendar lpm"
  shows "\<exists>t'. open_act fromiso b res ob lpm now untrusted t = (Inr (), t')"
proof -
  let ?P = "at_store (\<lambda>s. s = tk_store t)"
  obtain best where e: "in_range (select_e ob []) = ret best" using select_e_Nil [of ob] by auto
  have put: "\<exists>s'. put_record fromiso (unit_key (ob_unit ob)) (new_record_json (ob_unit ob) now klass flags lpm ev) s = Inr s'" for klass flags ev s
    by (simp add: put_record_def new_record_reads [OF assms] Let_def)
  have judged: "returns ?P (judge_e b res ob e)" for e by (rule returns_pre [OF judge_e_total]) simp
  have "returns ?P (open_act fromiso b res ob lpm now untrusted)"
    unfolding open_act_def e ret_andthen Let_def
    by (rule returns_andthen [where R = "\<lambda>_. ?P"])
       (intro returns_if returns_basic returns_update judged put yields_if yields_judge [where S = "\<lambda>s. s = tk_store t"] yields_ret;
        assumption?)+
  from returnsD [OF this refl] show ?thesis by simp
qed

lemma open_all_returns:
  "iso_ok fromiso \<Longrightarrow> in_calendar now \<Longrightarrow> \<forall>(res, ob, lpm) \<in> set todo. in_calendar lpm \<Longrightarrow>
     \<exists>t'. open_all fromiso b now untrusted todo t = (Inr (), t')"
proof (induction todo arbitrary: t)
  case (Cons o1 todo)
  obtain res ob lpm where o1: "o1 = (res, ob, lpm)" by (cases o1)
  have "in_calendar lpm" using Cons.prems(3) by (simp add: o1)
  then obtain t1 where "open_act fromiso b res ob lpm now
      (untrusted \<or> unit_key (ob_unit ob) \<in> fst ` set (quarantined (tk_store t))) t = (Inr (), t1)"
    using open_act_returns [OF Cons.prems(1,2)] by blast
  moreover have "\<exists>t'. open_all fromiso b now untrusted todo t1 = (Inr (), t')" using Cons.prems by (intro Cons.IH) auto
  ultimately show ?case unfolding o1 open_all.simps gets_andthen by (auto simp: andthen_run)
qed (simp add: ret_def)

lemma open_all_ready:
  "iso_ok fromiso \<Longrightarrow> in_calendar now \<Longrightarrow> \<forall>(res, ob, lpm) \<in> set todo. in_calendar lpm \<Longrightarrow>
     yields (at_store (ready_store fromiso)) (open_all fromiso b now untrusted todo) (\<lambda>_. at_store (ready_store fromiso))"
proof (induction todo)
  case (Cons o1 todo)
  obtain res ob lpm where o1: "o1 = (res, ob, lpm)" by (cases o1)
  let ?S = "at_store (ready_store fromiso)"
  have "yields ?S (open_act fromiso b res ob lpm now u) (\<lambda>_. ?S)" for u
    by (rule yields_open_act) (rule ready_open [OF Cons.prems(1,2)], use Cons.prems(3) in \<open>simp_all add: o1\<close>)
  moreover have "yields ?S (open_all fromiso b now untrusted todo) (\<lambda>_. ?S)" using Cons by simp
  ultimately show ?case
    unfolding o1 open_all.simps
    by (intro yields_gets, rule_tac yields_andthen [where R = "\<lambda>_. ?S"], rule_tac yields_pre [where P = ?S]) auto
qed (simp add: yields_ret)

lemma observe_unit_returns:
  assumes "iso_ok fromiso" "in_calendar now" "ready_store fromiso (tk_store t)"
  shows "\<exists>acc' t'. observe_unit fromiso now res ob acc t = (Inr acc', t')"
proof (cases "map_of (st_records (tk_store t)) (unit_key (ob_unit ob))")
  case None
  then show ?thesis by (simp add: observe_unit_None)
next
  case (Some r)
  have ready: "ready_record fromiso r" using ready_stored [OF assms(3) map_of_SomeD [OF Some]] .
  then obtain lpm where lpm: "last_participant_motion ob (remedy_attempts r) = Inr lpm"
    using last_motion_fits by (auto simp: ready_record_def)
  obtain s' where "reclassify fromiso (unit_key (ob_unit ob)) (class_value (classify (ob_features ob))) now (tk_store t) = Inr s'"
    using reclassify_returns [OF assms(1,2) ready_synced [OF assms(3)] Some] by blast
  then show ?thesis
    using close_act_returns [OF ready] unfolding observe_unit_Some [OF Some] lpm
    by (auto simp: andthen_run set_store_def modify_def ret_def split: prod.split sum.split)
       (metis Pair_inject sum.distinct(1))+
qed

lemma yields_observe_ready:
  "yields (at_store (ready_store fromiso)) (observe_unit fromiso now res ob acc) (\<lambda>_. at_store (ready_store fromiso))"
  by (rule yieldsI, drule observe_unit_effect) (auto intro: ready_close ready_reclassify)

lemma observe_all_returns:
  "iso_ok fromiso \<Longrightarrow> in_calendar now \<Longrightarrow> ready_store fromiso (tk_store t) \<Longrightarrow>
     \<exists>acc' t'. observe_all fromiso now res obs acc t = (Inr acc', t') \<and> ready_store fromiso (tk_store t')"
proof (induction obs arbitrary: acc t)
  case (Cons ob obs)
  obtain acc1 t1 where one: "observe_unit fromiso now res ob acc t = (Inr acc1, t1)"
    using observe_unit_returns [OF Cons.prems] by blast
  have "ready_store fromiso (tk_store t1)" using yieldsD [OF yields_observe_ready Cons.prems(3) one] .
  from Cons.IH [OF Cons.prems(1,2) this] show ?case by (simp add: andthen_run one)
qed (simp add: ret_def)

lemma close_unseen_returns:
  "\<forall>(k, r) \<in> set krs. ready_record fromiso r \<Longrightarrow> ready_store fromiso (tk_store t) \<Longrightarrow>
     \<exists>t'. close_unseen fromiso now res krs t = (Inr (), t') \<and> ready_store fromiso (tk_store t')"
proof (induction krs arbitrary: t)
  case (Cons kr krs)
  let ?m = "if unseen res kr then close_act fromiso (snd kr) Rule_a now now Until_now else ret ()"
  have "ready_record fromiso (snd kr)" using Cons.prems(1) by (cases kr) auto
  from close_act_returns [OF this] have "\<exists>t1. ?m t = (Inr (), t1)" by (simp add: ret_def)
  then obtain t1 where one: "?m t = (Inr (), t1)" by blast
  have "yields (at_store (ready_store fromiso)) ?m (\<lambda>_. at_store (ready_store fromiso))"
    by (intro yields_if yields_close ready_close yields_ret)
  from yieldsD [OF this Cons.prems(2) one] have "ready_store fromiso (tk_store t1)" .
  then obtain t' where "close_unseen fromiso now res krs t1 = (Inr (), t')" "ready_store fromiso (tk_store t')"
    using Cons.IH [of t1] Cons.prems(1) by auto
  then show ?case by (simp add: andthen_run one del: if_split)
qed (simp add: ret_def)

lemma observe_sources_returns:
  "iso_ok fromiso \<Longrightarrow> in_calendar now \<Longrightarrow> ready_store fromiso (tk_store t) \<Longrightarrow>
     \<exists>acc' t'. observe_sources fromiso now results acc t = (Inr acc', t') \<and> ready_store fromiso (tk_store t')"
proof (induction results arbitrary: acc t)
  case (Cons res results)
  obtain acc1 t1 where one: "observe_all fromiso now res (rs_observations res) acc t = (Inr acc1, t1)"
      "ready_store fromiso (tk_store t1)"
    using observe_all_returns [OF Cons.prems] by blast
  obtain t2 where two: "close_unseen fromiso now res (st_records (tk_store t1)) t1 = (Inr (), t2)" "ready_store fromiso (tk_store t2)"
    using close_unseen_returns [OF _ one(2)] ready_stored [OF one(2)] by blast
  obtain t3 where three: "observe_source fromiso now res acc t = (Inr acc1, t3)" "ready_store fromiso (tk_store t3)"
    using one two by (cases "rs_complete res") (auto simp: observe_source_def andthen_run [of "observe_all _ _ _ _ _"] gets_andthen
        andthen_run [of "close_unseen _ _ _ _"] ret_def)
  from Cons.IH [OF Cons.prems(1,2) three(2)] show ?case by (simp add: andthen_run three(1))
qed (simp add: ret_def)

text \<open>The instants of an observation lie in the calendar, and so does the start of the silence.\<close>

definition dated :: "observation \<Rightarrow> bool" where
  "dated ob \<longleftrightarrow> in_calendar (baseline_at ob) \<and> (\<forall>e \<in> set (ob_motion ob). in_calendar (mo_at e))"

lemma dated_silent: "dated ob \<Longrightarrow> in_calendar (silent_since ob)"
  using Max_in [of "insert (baseline_at ob) (mo_at ` set (ob_motion ob))"]
  by (auto simp: silent_since_def fold_max_Max dated_def)

definition all_dated :: "to_open \<times> still_open \<Rightarrow> bool" where
  "all_dated acc \<longleftrightarrow> (\<forall>(res, ob, lpm) \<in> set (fst acc). in_calendar lpm)"

lemma sources_dated:
  assumes "\<forall>res \<in> set results. \<forall>ob \<in> set (rs_observations res). dated ob" "observe_sources fromiso now results ([], []) t = (Inr acc, t')"
  shows "all_dated acc"
proof -
  let ?T = "\<lambda>_ :: loaded_store. True"
  have "yields (at_store ?T) (observe_sources fromiso now results ([], [])) (\<lambda>acc' t. at_store ?T t \<and> all_dated acc')"
  proof (intro yields_observe_sources yields_observe_source)
    fix res acc ob acc'
    assume "res \<in> set results" "ob \<in> set (rs_observations res)" "all_dated acc'"
    with assms(1) dated_silent show "yields (at_store ?T) (observe_unit fromiso now res ob acc') (\<lambda>acc' t. at_store ?T t \<and> all_dated acc')"
      by (intro yieldsI, drule_tac observe_unit_effect) (auto simp: all_dated_def split: if_splits)
  qed (simp_all add: all_dated_def)
  from yieldsD [OF this _ assms(2)] show ?thesis by simp
qed

lemma evaluate_returns:
  assumes "iso_ok fromiso" "in_calendar now" "ready_store fromiso (tk_store t)"
    and "\<forall>res \<in> set results. \<forall>ob \<in> set (rs_observations res). dated ob"
  shows "\<exists>t'. evaluate fromiso b now results t = (Inr (), t') \<and> ready_store fromiso (tk_store t')"
proof -
  obtain acc t1 where one: "observe_sources fromiso now results ([], []) t = (Inr acc, t1)" "ready_store fromiso (tk_store t1)"
    using observe_sources_returns [OF assms(1-3)] by blast
  note synced = ready_synced [OF one(2)]
  let ?owed = "owed_fetches (tk_store t1) (snd acc)"
  have owed: "ready_record fromiso r \<and> in_store (tk_store t1) r" if o: "(r, res, ob) \<in> set ?owed" for r res ob
  proof -
    obtain k where k: "map_of (st_records (tk_store t1)) k = Some r"
      using o by (auto simp: owed_fetches_def map_filter_def split: option.splits if_splits)
    then have "k = unit_key (sr_unit r)" using synced_key [OF synced k] by simp
    then show ?thesis using ready_stored [OF one(2) map_of_SomeD [OF k]] map_of_SomeD [OF k] by (force simp: in_store_def)
  qed
  obtain t2 where two: "settle_all fromiso b ?owed t1 = (Inr (), t2)"
    using settle_all_returns [OF _ synced] owed by blast
  have "yields (at_store (ready_store fromiso)) (settle_all fromiso b ?owed) (\<lambda>_. at_store (ready_store fromiso))"
    by (rule yields_settle_all) (erule (1) ready_settle)
  from yieldsD [OF this one(2) two] have s2: "ready_store fromiso (tk_store t2)" .
  let ?u = "st_status (tk_store t) \<in> {Absent_store, Corrupt_store}"
  have lpm: "\<forall>(res, ob, lpm) \<in> set (fst acc). in_calendar lpm"
    using sources_dated [OF assms(4) one(1)] by (simp add: all_dated_def)
  from open_all_returns [OF assms(1,2) this] obtain t3 where three: "open_all fromiso b now ?u (fst acc) t2 = (Inr (), t3)"
    by blast
  have "ready_store fromiso (tk_store t3)" using open_all_ready [OF assms(1,2) lpm] s2 three by (blast dest: yieldsD)
  with one two three show ?thesis
    by (simp add: evaluate_def gets_andthen andthen_run [of "observe_sources _ _ _ _"] andthen_run [of "settle_all _ _ _"] split_beta)
qed

section \<open>What a tick does to a stall\<close>

text \<open>C9. Whatever the loop itself did to a unit, the record of its stall stays, with its start, its attempts and its
  stage: it is closed only when the unit needs no actor any more, when a participant has moved since the record was
  opened, or when a complete listing of its scope no longer shows it. The motion the loop caused does not count. The tick
  returns and leaves a store that is ready for the next one. Assumed: the instants of the tick and of what the sources
  show lie in the calendar, what \<open>isoformat\<close> wrote is read back, the rows and the records of the store agree, and of
  each stored record the motion at opening is read by \<open>fromisoformat\<close> as it stands and the windows of the attempts
  that are not completed stay in the calendar.\<close>

theorem stall_is_not_rejuvenated:
  assumes "iso_ok fromiso" "in_calendar now" "ready_store fromiso (tk_store t)"
    and "\<forall>res \<in> set results. \<forall>ob \<in> set (rs_observations res). dated ob"
    and "map_of (st_records (tk_store t)) k = Some r" and "\<forall>res \<in> set results. goes_on r res"
  shows "\<exists>t' r'. evaluate fromiso b now results t = (Inr (), t') \<and> ready_store fromiso (tk_store t') \<and>
    map_of (st_records (tk_store t')) k = Some r' \<and> same_stall r r'"
proof -
  obtain t' where e: "evaluate fromiso b now results t = (Inr (), t')" "ready_store fromiso (tk_store t')"
    using evaluate_returns [OF assms(1-4)] by blast
  with stall_kept [OF ready_synced [OF assms(3)] assms(5,6) e(1)] show ?thesis by blast
qed

text \<open>C8. Every stall is recorded: a unit without a record that a source shows to need an actor, whose participants have
  been silent for longer than its threshold, has a record after the tick, opened at the instant of the tick. The tick
  returns and leaves a store that is ready for the next one. Assumed: the instants of the tick and of what the sources
  show lie in the calendar, what \<open>isoformat\<close> wrote is read back, the rows and the records of the store agree, and of
  each stored record the motion at opening is read by \<open>fromisoformat\<close> as it stands and the windows of the attempts
  that are not completed stay in the calendar.\<close>

theorem stall_is_recorded:
  assumes "iso_ok fromiso" "in_calendar now" "ready_store fromiso (tk_store t)"
    and "\<forall>res \<in> set results. \<forall>ob \<in> set (rs_observations res). dated ob"
    and "unrecorded (ob_unit ob) (tk_store t)" "res \<in> set results" "ob \<in> set (rs_observations res)"
    and "ob_needs_actor ob" "last_participant_motion ob [] = Inr lpm" "ob_n ob < now - lpm"
  shows "\<exists>t'. evaluate fromiso b now results t = (Inr (), t') \<and> ready_store fromiso (tk_store t') \<and>
    recorded_from (ob_unit ob) now (tk_store t')"
proof -
  obtain t' where e: "evaluate fromiso b now results t = (Inr (), t')" "ready_store fromiso (tk_store t')"
    using evaluate_returns [OF assms(1-4)] by blast
  have "ob_n ob < now - silent_since ob" using assms(9,10) by simp
  from stall_opened [OF assms(1,2,5-8) this e(1)] e show ?thesis by blast
qed

text \<open>A source that shows two silent pull requests, one of which has a record with a refire in flight; the motion it
  shows of that one came from the refire.\<close>

definition other_unit :: work_unit where
  "other_unit = \<lparr>wu_kind = Pr_unit, wu_ident = lit ''o/r#8''\<rparr>"

definition silent_pr :: "work_unit \<Rightarrow> motion_event list \<Rightarrow> observation" where
  "silent_pr u es = \<lparr>ob_unit = u, ob_needs_actor = True, ob_n = N_PR, ob_features = no_features, ob_motion = es,
     baseline_at = 0\<rparr>"

definition refire_review :: motion_event where
  "refire_review = \<lparr>mo_type = REVIEW_MOTION, mo_id = lit ''r1'', mo_at = hours 12 + minutes 3\<rparr>"

definition sample_source :: source_result where
  "sample_source = \<lparr>rs_report = \<lparr>src_name = lit ''github:o/r'', src_outcome = Fetch_ok, examined = 2, recognized = 2,
       unrecognized = 0, observed_version = lit ''1''\<rparr>,
     rs_observations = [silent_pr sample_unit [refire_review], silent_pr other_unit []], rs_unobservable = [],
     rs_complete = True, rs_scope = \<lambda>_. True, rs_check = \<lambda>_ _. Unmarked\<rparr>"

definition sample_budget :: fetch_budget where
  "sample_budget = \<lparr>bud_deadline = Some (minutes 8), bud_timeout = FETCH_TIMEOUT, monotonic = \<lambda>_. 0\<rparr>"

definition start_tick :: "loaded_store \<Rightarrow> tick" where
  "start_tick s = \<lparr>tk_store = s, tk_held = [], body_fetches = 0, opened = 0, closed = 0, markers_resolved = 0,
     bud_exhausted = False, bud_deferred = 0, clock_reads = 0\<rparr>"

definition refired_record :: stall_record where
  "refired_record = (opened_record sample_unit 0 (lit ''refireable'') [] 0 [])\<lparr>remedy_attempts := [new_attempt (hours 12) (lit ''abc'')]\<rparr>"

definition refired_row :: row where
  "refired_row = dict_set F_ATTEMPTS
     (Arr [Obj [(F_AT, utc_iso (hours 12)), (lit ''state'', Str (remedy_state_value In_flight)),
                (lit ''head_sha'', Str (lit ''abc'')), (lit ''emitted_event_ids'', Obj [])]])
     (new_record_json sample_unit 0 (lit ''refireable'') [] 0 [])"

definition refired_store :: loaded_store where
  "refired_store = \<lparr>st_status = Valid_store,
     envelope = Some [(F_VERSION, Str (lit ''1.0'')), (F_RECORDS, Obj [(unit_key sample_unit, Obj refired_row)]),
       (F_QUARANTINED, Obj [])],
     st_records = [(unit_key sample_unit, refired_record)], quarantine_events = [], quarantine_repeats = 0\<rparr>"

lemma early_in_calendar: "0 \<le> t \<Longrightarrow> t \<le> hours 24 \<Longrightarrow> in_calendar t"
  by (simp add: in_calendar_def calendar_range hours_def minutes_def seconds_def)

lemma short_times: "T_SKEW \<le> hours 12" "0 \<le> T_UNCERTAIN" "hours 12 + T_UNCERTAIN \<le> hours 24" "hours 12 + minutes 3 \<le> hours 24"
    "0 \<le> hours 12" "hours 12 \<le> hours 24" "0 \<le> T_SKEW" "hours 12 + minutes 3 \<le> hours 12 + T_UNCERTAIN" "0 \<le> minutes 3"
    "0 \<le> hours 13" "hours 13 \<le> hours 24"
  by (simp_all add: T_SKEW_def T_UNCERTAIN_def hours_def minutes_def seconds_def)

lemma refired_reads: "record_from_json strict_iso (unit_key sample_unit) (Obj refired_row) = Inr refired_record"
proof -
  have aware: "parse_aware strict_iso (utc_iso t) name = Inr (t, 0)" if "in_calendar t" for t name
    using that strict_iso_ok
    by (simp add: parse_aware_def utc_iso_def replace_z_plain iso_text_no_z iso_ok_def in_calendar_def)
  note times = aware [OF epoch_in_calendar] aware [OF early_in_calendar [OF short_times(5,6)]]
  have "read_remedy_state (remedy_state_value In_flight) = Some In_flight"
    by (simp add: read_remedy_state_def)
  then have "parse_attempt strict_iso (Obj [(F_AT, utc_iso (hours 12)), (lit ''state'', Str (remedy_state_value In_flight)),
      (lit ''head_sha'', Str (lit ''abc'')), (lit ''emitted_event_ids'', Obj [])]) = Inr (new_attempt (hours 12) (lit ''abc''))"
    by (simp add: parse_attempt_def json_get_Cons times F_AT_def get_default_def str_list_def new_attempt_def)
  then show ?thesis
    by (simp add: refired_row_def refired_record_def record_from_json_def new_record_json_def require_dict_def require_str_def
        require_list_def field_names json_get_Cons parse_iso_def times parse_unit_def parse_class_entry_def class_row_def
        str_list_def chain_map_str opened_record_def)
qed

lemma refired_ready: "ready_store strict_iso refired_store"
proof -
  have rows: "records_raw refired_store = [(unit_key sample_unit, Obj refired_row)]"
    by (simp add: refired_store_def records_raw_def env_of_def json_get_Cons dict_of_def F_VERSION_def F_RECORDS_def)
  have "synced strict_iso refired_store"
    by (simp add: synced_def synced_at_def rows) (simp add: refired_store_def store_writable_def refired_reads)
  moreover have "windows_fit (remedy_attempts refired_record)"
    using short_times by (auto simp: refired_record_def windows_fit_def new_attempt_def intro!: early_in_calendar)
  moreover have "strict_iso (iso_text 0) = Some (0, Some 0)"
    using strict_iso_ok epoch_in_calendar by (simp add: iso_ok_def in_calendar_def)
  ultimately show ?thesis
    by (simp add: ready_store_def ready_record_def refired_store_def)
       (simp add: refired_record_def opened_record_def json_get_Cons utc_iso_def)
qed

lemma sample_dated: "\<forall>res \<in> set [sample_source]. \<forall>ob \<in> set (rs_observations res). dated ob"
  using short_times by (auto simp: sample_source_def dated_def silent_pr_def refire_review_def intro!: early_in_calendar)

lemma refire_moves_nothing: "last_participant_motion (silent_pr sample_unit [refire_review]) (remedy_attempts refired_record) = Inr 0"
  using short_times early_in_calendar [of "hours 12 - T_SKEW"] early_in_calendar [of "hours 12 + T_UNCERTAIN"]
  by (simp add: last_participant_motion_def silent_pr_def refired_record_def new_attempt_def origin_def shifted_def
      refire_review_def emitted_has_def)

lemma stall_is_not_rejuvenated_witness:
  "\<exists>t' r'. evaluate strict_iso sample_budget (hours 13) [sample_source] (start_tick refired_store) = (Inr (), t') \<and>
     ready_store strict_iso (tk_store t') \<and> map_of (st_records (tk_store t')) (unit_key sample_unit) = Some r' \<and>
     same_stall refired_record r'"
proof (rule stall_is_not_rejuvenated [OF strict_iso_ok early_in_calendar [OF short_times(10,11)] _ sample_dated])
  have "sr_unit refired_record = sample_unit" "epoch_start refired_record = 0"
    by (simp_all add: refired_record_def opened_record_def)
  then show "\<forall>res \<in> set [sample_source]. goes_on refired_record res"
    by (simp add: goes_on_def sample_source_def refire_moves_nothing)
       (simp add: silent_pr_def other_unit_def sample_unit_def)
qed (simp_all add: start_tick_def refired_ready, simp add: refired_store_def)

lemma stall_is_recorded_witness:
  "\<exists>t'. evaluate strict_iso sample_budget (hours 13) [sample_source] (start_tick refired_store) = (Inr (), t') \<and>
     ready_store strict_iso (tk_store t') \<and> recorded_from other_unit (hours 13) (tk_store t')"
proof -
  have "other_unit \<noteq> sample_unit" by (simp add: other_unit_def sample_unit_def)
  then have "unrecorded (ob_unit (silent_pr other_unit [])) (tk_store (start_tick refired_store))"
    by (simp add: unrecorded_def start_tick_def refired_store_def silent_pr_def)
  from stall_is_recorded [OF strict_iso_ok early_in_calendar [OF short_times(10,11)] _ sample_dated this,
      of sample_source 0 sample_budget]
  show ?thesis
    by (simp add: start_tick_def refired_ready sample_source_def)
       (simp add: silent_pr_def silent_since_def N_PR_def hours_def minutes_def seconds_def)
qed

end
