(* ===== verification/StallTick.thy ===== *)
theory StallTick
  imports StallDriver
begin

text \<open>
  The tick of the stall ledger around its evaluation (\<open>run_tick\<close>, \<open>_locked_tick\<close> and \<open>_heartbeat\<close> of
  \<open>stall_ledger/driver.py\<close>): loading the store, reading the sources and the operator's requests, the deadline,
  the write, the lines that are held until it has landed. Another process may hold the lock; requests may
  arrive while the sources are read. The theorems say what a tick has done when it reports a change, what becomes
  of a request, and when a tick stops without its heartbeat.
\<close>

section \<open>The world of a tick\<close>

record beat =
  beat_health :: heartbeat
  beat_store :: store_status
  beat_evaluated :: bool
  beat_quarantined :: "nat option"
  beat_repeats :: nat
  beat_exhausted :: bool
  beat_deferred :: nat
  beat_pending :: "nat option"
  beat_aborted :: bool

datatype log_line =
    Store_line store_status
  | Reported tick_line
  | Request_invalid pystr bad_request bool
  | Beat beat
  | Tick_skipped

text \<open>The file of the store, the texts moved aside from it, the directory of requests, the log.\<close>

record ledger_world =
  lw_store :: store_file
  lw_aside :: "pystr list"
  lw_requests :: "(pystr \<times> request_file) list"
  lw_log :: "log_line list"

text \<open>
  What a tick meets: the instant it starts, what the sources give and the requests that arrive meanwhile, the readings
  of the monotonic clock (the first is the start), the limits, whether a request can be renamed, and whether another
  process holds the lock.
\<close>

record tick_env =
  te_now :: time
  te_results :: "source_result list"
  te_arrivals :: "(pystr \<times> request_file) list"
  te_clock :: "nat \<Rightarrow> time"
  te_tick_max :: duration
  te_fetch_timeout :: duration
  te_fetch_margin :: duration
  te_rename_ok :: "pystr \<Rightarrow> bool"
  te_locked :: bool

datatype tick_exc = Load_failed load_error | Evaluation_failed ledger_exc | No_sources | Unencodable

type_synonym 'a world_act = "(ledger_world, tick_exc, 'a) act"

definition emit :: "log_line \<Rightarrow> unit world_act" where
  "emit l = modify (\<lambda>w. w\<lparr>lw_log := lw_log w @ [l]\<rparr>)"

definition emit_all :: "log_line list \<Rightarrow> unit world_act" where
  "emit_all ls = modify (\<lambda>w. w\<lparr>lw_log := lw_log w @ ls\<rparr>)"

definition ADAPTER_FORMAT_VERSION :: pystr where
  "ADAPTER_FORMAT_VERSION = lit ''stall-ledger-adapter/1''"

definition INVALID_REQUEST_SUFFIX :: pystr where "INVALID_REQUEST_SUFFIX = lit ''.invalid''"

section \<open>The line of the heartbeat\<close>

definition pending_markers :: "loaded_store \<Rightarrow> nat" where
  "pending_markers s = length (filter (marker_pending \<circ> snd) (st_records s))"

definition heartbeat_line :: "source_result list \<Rightarrow> time \<Rightarrow> tick \<Rightarrow> bool \<Rightarrow> bool \<Rightarrow> unit world_act" where
  "heartbeat_line results now t evaluated aborted =
     (let s = tk_store t in
      case build_heartbeat now ADAPTER_FORMAT_VERSION (map rs_report results) None
             (if store_writable s \<and> evaluated then sort (map fst (st_records s)) else []) of
        None \<Rightarrow> raise No_sources
      | Some h \<Rightarrow>
          emit (Beat \<lparr>beat_health = h, beat_store = st_status s, beat_evaluated = evaluated,
            beat_quarantined = (if store_writable s then Some (length (quarantined s)) else None),
            beat_repeats = quarantine_repeats s, beat_exhausted = bud_exhausted t, beat_deferred = bud_deferred t,
            beat_pending = (if store_writable s \<and> evaluated then Some (pending_markers s) else None),
            beat_aborted = aborted\<rparr>))"

section \<open>The tick\<close>

text \<open>\<open>save_store\<close>: encoding fails before the file is replaced.\<close>

fun encodable :: "json \<Rightarrow> bool" where
  "encodable (Number i) = (length (decimal (nat \<bar>i\<bar>)) \<le> 4300)"
| "encodable (Str s) = list_all scalar s"
| "encodable (Arr vs) = list_all encodable vs"
| "encodable (Obj kvs) = list_all (\<lambda>(k, v). list_all scalar k \<and> encodable v) kvs"
| "encodable v = True"

definition save_store :: "row \<Rightarrow> unit world_act" where
  "save_store env =
     (if \<not> encodable (Obj env) then raise Unencodable else modify (\<lambda>w. w\<lparr>lw_store := Store_text (store_text env)\<rparr>))"

text \<open>\<open>load_store\<close> on the world: a file that is judged corrupt is moved aside.\<close>

definition load_world :: "iso_reader \<Rightarrow> time \<Rightarrow> loaded_store world_act" where
  "load_world fromiso now = (\<lambda>w.
     case load_store fromiso (lw_store w) now of
       Inl e \<Rightarrow> (Inl (Load_failed e), w)
     | Inr (s, moved) \<Rightarrow>
         (Inr s, if moved then w\<lparr>lw_store := No_store, lw_aside := lw_aside w @ [case lw_store w of Store_text t \<Rightarrow> t | _ \<Rightarrow> []]\<rparr>
                 else w))"

definition status_lines :: "loaded_store \<Rightarrow> log_line list" where
  "status_lines s = (if st_status s = Valid_store then [] else [Store_line (st_status s)])"

definition quarantine_lines :: "loaded_store \<Rightarrow> tick_line list" where
  "quarantine_lines s = List.map_filter (\<lambda>(k, cause, first). if first then Some (Record_quarantined k cause) else None) (quarantine_events s)"

fun apply_requests :: "clear_request list \<Rightarrow> loaded_store \<times> tick_line list \<Rightarrow> loaded_store \<times> tick_line list" where
  "apply_requests [] acc = acc"
| "apply_requests (r # rs) (s, held) =
     (let (s', cleared) = clear_quarantined (req_unit_key r) s in
      apply_requests rs (s', held @ [(if cleared then Quarantine_cleared else Clear_request_noop) (req_unit_key r) (requested_by r) (requested_at r)]))"

definition unlink_requests :: "clear_request list \<Rightarrow> unit world_act" where
  "unlink_requests rs = modify (\<lambda>w. w\<lparr>lw_requests := filter (\<lambda>(n, _). n \<notin> req_name ` set rs) (lw_requests w)\<rparr>)"

text \<open>\<open>os.replace(name, name.invalid)\<close>, reported whether it worked or not.\<close>

fun move_invalid :: "(pystr \<Rightarrow> bool) \<Rightarrow> (pystr \<times> bad_request) list \<Rightarrow> unit world_act" where
  "move_invalid rename_ok [] = ret ()"
| "move_invalid rename_ok ((n, why_bad) # rest) =
     andthen (modify (\<lambda>w.
         if rename_ok n
         then (case map_of (lw_requests w) n of
                 None \<Rightarrow> w
               | Some f \<Rightarrow> w\<lparr>lw_requests := dict_set (n @ INVALID_REQUEST_SUFFIX) f (dict_del n (lw_requests w))\<rparr>)
         else w)) (\<lambda>_.
     andthen (emit (Request_invalid n why_bad (rename_ok n))) (\<lambda>_.
     move_invalid rename_ok rest))"

definition tick_budget :: "tick_env \<Rightarrow> fetch_budget" where
  "tick_budget e = \<lparr>bud_deadline = Some (te_clock e 0 + fetch_window (te_tick_max e) (te_fetch_margin e)),
     bud_timeout = te_fetch_timeout e, monotonic = te_clock e\<rparr>"

definition tick_start :: "loaded_store \<Rightarrow> tick_line list \<Rightarrow> tick" where
  "tick_start s held = \<lparr>tk_store = s, tk_held = held, body_fetches = 0, opened = 0, closed = 0, markers_resolved = 0,
     bud_exhausted = False, bud_deferred = 0, clock_reads = 1\<rparr>"

text \<open>The tick after the evaluation: the deadline, the write, and only then the lines and the requests.\<close>

definition finish_tick :: "tick_env \<Rightarrow> clear_request list \<Rightarrow> (pystr \<times> bad_request) list \<Rightarrow> tick \<Rightarrow> unit world_act" where
  "finish_tick e reqs bad t =
     (if te_tick_max e < te_clock e (clock_reads t) - te_clock e 0
      then heartbeat_line (te_results e) (te_now e) t False True
      else andthen (save_store (env_of (tk_store t))) (\<lambda>_.
           andthen (emit_all (map Reported (tk_held t))) (\<lambda>_.
           andthen (unlink_requests reqs) (\<lambda>_.
           andthen (move_invalid (te_rename_ok e) bad) (\<lambda>_.
           heartbeat_line (te_results e) (te_now e) t True False)))))"

definition locked_tick :: "iso_reader \<Rightarrow> (json \<Rightarrow> pystr) \<Rightarrow> tick_env \<Rightarrow> unit world_act" where
  "locked_tick fromiso rp e =
     andthen (load_world fromiso (te_now e)) (\<lambda>s.
     andthen (emit_all (status_lines s)) (\<lambda>_.
     andthen (modify (\<lambda>w. w\<lparr>lw_requests := lw_requests w @ te_arrivals e\<rparr>)) (\<lambda>_.
     if \<not> store_writable s then heartbeat_line (te_results e) (te_now e) (tick_start s []) False False
     else andthen (gets (\<lambda>w. read_clear_requests rp (lw_requests w))) (\<lambda>(reqs, bad).
          let (s', held) = apply_requests reqs (s, quarantine_lines s) in
          case evaluate fromiso (tick_budget e) (te_now e) (te_results e) (tick_start s' held) of
            (Inl x, _) \<Rightarrow> raise (Evaluation_failed x)
          | (Inr _, t) \<Rightarrow> finish_tick e reqs bad t))))"

definition run_tick :: "iso_reader \<Rightarrow> (json \<Rightarrow> pystr) \<Rightarrow> tick_env \<Rightarrow> unit world_act" where
  "run_tick fromiso rp e = (if te_locked e then emit Tick_skipped else locked_tick fromiso rp e)"

section \<open>What a tick does to the world\<close>

lemma heartbeat_line_cases:
  obtains "heartbeat_line results now t evaluated aborted w = (Inl No_sources, w)" "results = []"
  | bt where "heartbeat_line results now t evaluated aborted w = (Inr (), w\<lparr>lw_log := lw_log w @ [Beat bt]\<rparr>)"
      "beat_evaluated bt = evaluated" "beat_aborted bt = aborted"
proof (cases "build_heartbeat now ADAPTER_FORMAT_VERSION (map rs_report results) None
    (if store_writable (tk_store t) \<and> evaluated then sort (map fst (st_records (tk_store t))) else [])")
  case None
  then have "heartbeat_line results now t evaluated aborted w = (Inl No_sources, w)"
    by (simp add: heartbeat_line_def Let_def raise_def)
  moreover have "results = []" using None by (simp add: build_heartbeat_def Let_def split: if_splits)
  ultimately show thesis by (rule that(1))
next
  case (Some h)
  then show thesis
    by (rule_tac that(2), simp add: heartbeat_line_def Let_def emit_def modify_def, simp_all)
qed

lemma move_invalid_run:
  "\<exists>rs. move_invalid rename_ok bad w =
     (Inr (), w\<lparr>lw_requests := rs, lw_log := lw_log w @ map (\<lambda>(n, b). Request_invalid n b (rename_ok n)) bad\<rparr>)"
proof (induction bad arbitrary: w)
  case Nil
  show ?case by (rule exI [of _ "lw_requests w"]) (simp add: ret_def)
next
  case (Cons b bad)
  obtain n why_bad where b: "b = (n, why_bad)" by (cases b)
  define w' where "w' = snd (andthen (modify (\<lambda>w. if rename_ok n
         then (case map_of (lw_requests w) n of
                 None \<Rightarrow> w
               | Some f \<Rightarrow> w\<lparr>lw_requests := dict_set (n @ INVALID_REQUEST_SUFFIX) f (dict_del n (lw_requests w))\<rparr>)
         else w)) (\<lambda>_. emit (Request_invalid n why_bad (rename_ok n))) w)"
  obtain rs where w': "w' = w\<lparr>lw_requests := rs, lw_log := lw_log w @ [Request_invalid n why_bad (rename_ok n)]\<rparr>"
    by (rule that [of "lw_requests w'"]) (simp add: w'_def andthen_def emit_def modify_def split: option.split)
  have "move_invalid rename_ok (b # bad) w = move_invalid rename_ok bad w'"
    by (simp add: b w'_def andthen_def emit_def modify_def)
  with Cons.IH [of w'] show ?case by (auto simp: w' b)
qed

text \<open>The lines about changes of the store.\<close>

definition reported :: "log_line list \<Rightarrow> tick_line list" where
  "reported ls = List.map_filter (\<lambda>l. case l of Reported t \<Rightarrow> Some t | _ \<Rightarrow> None) ls"

lemma reported_simps [simp]:
  "reported [] = []" "reported (Reported t # ls) = t # reported ls" "reported (Store_line s # ls) = reported ls"
  "reported (Request_invalid n b m # ls) = reported ls" "reported (Beat bt # ls) = reported ls"
  "reported (Tick_skipped # ls) = reported ls"
  by (simp_all add: reported_def List.map_filter_simps)

lemma reported_append [simp]: "reported (xs @ ys) = reported xs @ reported ys"
  by (simp add: reported_def map_filter_def)

lemma reported_held [simp]: "reported (map Reported ts) = ts"
  by (induction ts) simp_all

lemma reported_others [simp]:
  "reported (map (\<lambda>(n, b). Request_invalid n b (f n)) bad) = []" "reported (status_lines s) = []"
  by (induction bad) (auto simp: status_lines_def)

text \<open>The end of a tick that was evaluated: it was too late, or its store could not be written, or all of it took place.\<close>

lemma finish_tick_cases:
  obtains (late) "finish_tick e reqs bad t w = heartbeat_line (te_results e) (te_now e) t False True w"
  | (unwritten) "finish_tick e reqs bad t w = (Inl Unencodable, w)" "\<not> encodable (Obj (env_of (tk_store t)))"
  | (saved) w' where "finish_tick e reqs bad t w = heartbeat_line (te_results e) (te_now e) t True False w'"
      "lw_store w' = Store_text (store_text (env_of (tk_store t)))" "lw_aside w' = lw_aside w"
      "lw_log w' = lw_log w @ map Reported (tk_held t) @ map (\<lambda>(n, b). Request_invalid n b (te_rename_ok e n)) bad"
      "encodable (Obj (env_of (tk_store t)))"
proof (cases "te_tick_max e < te_clock e (clock_reads t) - te_clock e 0")
  case True
  then show thesis by (intro late) (simp add: finish_tick_def)
next
  case in_time: False
  show thesis
  proof (cases "encodable (Obj (env_of (tk_store t)))")
    case False
    then show thesis using in_time by (intro unwritten) (simp_all add: finish_tick_def save_store_def andthen_def raise_def)
  next
    case True
    define w1 where "w1 = w\<lparr>lw_store := Store_text (store_text (env_of (tk_store t))), lw_log := lw_log w @ map Reported (tk_held t),
      lw_requests := filter (\<lambda>(n, _). n \<notin> req_name ` set reqs) (lw_requests w)\<rparr>"
    obtain rs where rs: "move_invalid (te_rename_ok e) bad w1 =
        (Inr (), w1\<lparr>lw_requests := rs, lw_log := lw_log w1 @ map (\<lambda>(n, b). Request_invalid n b (te_rename_ok e n)) bad\<rparr>)"
      using move_invalid_run by blast
    have "finish_tick e reqs bad t w = andthen (move_invalid (te_rename_ok e) bad)
        (\<lambda>_. heartbeat_line (te_results e) (te_now e) t True False) w1"
      using in_time True by (simp add: finish_tick_def save_store_def emit_all_def unlink_requests_def andthen_def modify_def w1_def)
    also have "\<dots> = heartbeat_line (te_results e) (te_now e) t True False
        (w1\<lparr>lw_requests := rs, lw_log := lw_log w1 @ map (\<lambda>(n, b). Request_invalid n b (te_rename_ok e n)) bad\<rparr>)"
      by (simp add: andthen_def rs)
    finally show thesis by (rule saved) (simp_all add: w1_def True [simplified])
  qed
qed

text \<open>The world when the sources have been read: the file may have been moved aside, requests have arrived.\<close>

definition read_world :: "tick_env \<Rightarrow> loaded_store \<Rightarrow> bool \<Rightarrow> ledger_world \<Rightarrow> ledger_world" where
  "read_world e s moved w =
     (let w0 = (if moved then w\<lparr>lw_store := No_store, lw_aside := lw_aside w @ [case lw_store w of Store_text t \<Rightarrow> t | _ \<Rightarrow> []]\<rparr> else w)
      in w0\<lparr>lw_log := lw_log w @ status_lines s, lw_requests := lw_requests w @ te_arrivals e\<rparr>)"

lemma read_world_simps [simp]:
  "lw_log (read_world e s moved w) = lw_log w @ status_lines s"
  "lw_requests (read_world e s moved w) = lw_requests w @ te_arrivals e"
  by (simp_all add: read_world_def Let_def)

definition requests_of :: "(json \<Rightarrow> pystr) \<Rightarrow> tick_env \<Rightarrow> ledger_world \<Rightarrow> clear_request list \<times> (pystr \<times> bad_request) list" where
  "requests_of rp e w = read_clear_requests rp (lw_requests w @ te_arrivals e)"

text \<open>The tick that \<open>evaluate\<close> starts from: the requests have been applied to the store that was loaded.\<close>

definition evaluated_from :: "(json \<Rightarrow> pystr) \<Rightarrow> tick_env \<Rightarrow> ledger_world \<Rightarrow> loaded_store \<Rightarrow> tick" where
  "evaluated_from rp e w s = case_prod tick_start (apply_requests (fst (requests_of rp e w)) (s, quarantine_lines s))"

lemma locked_tick_cases:
  obtains (unloaded) x where "locked_tick fromiso rp e w = (Inl (Load_failed x), w)" "load_store fromiso (lw_store w) (te_now e) = Inl x"
  | (halted) s moved where "load_store fromiso (lw_store w) (te_now e) = Inr (s, moved)" "\<not> store_writable s"
      "locked_tick fromiso rp e w =
         heartbeat_line (te_results e) (te_now e) (tick_start s []) False False (read_world e s moved w)"
  | (raised) s moved x t where "load_store fromiso (lw_store w) (te_now e) = Inr (s, moved)" "store_writable s"
      "evaluate fromiso (tick_budget e) (te_now e) (te_results e) (evaluated_from rp e w s) = (Inl x, t)"
      "locked_tick fromiso rp e w = (Inl (Evaluation_failed x), read_world e s moved w)"
  | (evaluated) s moved t where "load_store fromiso (lw_store w) (te_now e) = Inr (s, moved)" "store_writable s"
      "evaluate fromiso (tick_budget e) (te_now e) (te_results e) (evaluated_from rp e w s) = (Inr (), t)"
      "locked_tick fromiso rp e w = case_prod (finish_tick e) (requests_of rp e w) t (read_world e s moved w)"
proof (cases "load_store fromiso (lw_store w) (te_now e)")
  case (Inl x)
  then show thesis by (intro unloaded) (simp_all add: locked_tick_def load_world_def andthen_def)
next
  case (Inr sm)
  obtain s moved where sm: "sm = (s, moved)" by (cases sm)
  note loaded = Inr [unfolded sm]
  have run: "locked_tick fromiso rp e w = (if \<not> store_writable s
      then heartbeat_line (te_results e) (te_now e) (tick_start s []) False False
      else case requests_of rp e w of (reqs, bad) \<Rightarrow>
        case evaluate fromiso (tick_budget e) (te_now e) (te_results e) (evaluated_from rp e w s) of
          (Inl x, _) \<Rightarrow> raise (Evaluation_failed x) | (Inr _, t) \<Rightarrow> finish_tick e reqs bad t) (read_world e s moved w)"
  proof -
    obtain w0 where w0: "load_world fromiso (te_now e) w = (Inr s, w0)"
      and read: "read_world e s moved w = w0\<lparr>lw_log := lw_log w0 @ status_lines s, lw_requests := lw_requests w0 @ te_arrivals e\<rparr>"
      by (cases moved) (simp_all add: load_world_def loaded read_world_def)
    have reqs: "lw_requests w0 @ te_arrivals e = lw_requests w @ te_arrivals e"
      using arg_cong [OF read, of lw_requests] by simp
    show ?thesis
      unfolding locked_tick_def read
      by (simp add: andthen_run [of "load_world fromiso (te_now e)"] w0 emit_all_def modify_andthen gets_andthen requests_of_def
          evaluated_from_def reqs case_prod_unfold Let_def split: sum.split)
  qed
  show thesis
  proof (cases "store_writable s")
    case False
    then show thesis using run by (intro halted [OF loaded]) simp_all
  next
    case True
    obtain r t where ev: "evaluate fromiso (tick_budget e) (te_now e) (te_results e) (evaluated_from rp e w s) = (r, t)" by fastforce
    show thesis
    proof (cases r)
      case (Inl x)
      then show thesis using run True ev by (intro raised [OF loaded True, of x t]) (simp_all add: raise_def split_beta)
    next
      case (Inr u)
      then show thesis using run True ev by (intro evaluated [OF loaded True, of t]) (simp_all add: split_beta)
    qed
  qed
qed

text \<open>The store file is as it was, or was moved aside as a whole.\<close>

definition untouched :: "ledger_world \<Rightarrow> ledger_world \<Rightarrow> bool" where
  "untouched w w' \<longleftrightarrow> lw_store w' = lw_store w \<and> lw_aside w' = lw_aside w \<or>
     (\<exists>txt. lw_store w = Store_text txt \<and> lw_store w' = No_store \<and> lw_aside w' = lw_aside w @ [txt])"

lemma untouched_log [simp]:
  "untouched w (w'\<lparr>lw_log := ls\<rparr>) = untouched w w'" "untouched w w"
  by (auto simp: untouched_def)

lemma load_store_moves_text:
  "load_store fromiso f now = Inr (s, True) \<Longrightarrow> \<exists>txt. f = Store_text txt"
  by (cases f) (auto simp: load_store_def)

lemma read_world_untouched: "load_store fromiso (lw_store w) now = Inr (s, moved) \<Longrightarrow> untouched w (read_world e s moved w)"
  by (cases moved) (auto simp: untouched_def read_world_def Let_def dest: load_store_moves_text)

lemma heartbeat_line_logs:
  assumes "heartbeat_line results now t evaluated aborted w = (res, w')"
  shows "\<exists>ls. w' = w\<lparr>lw_log := lw_log w @ ls\<rparr> \<and> reported ls = []"
  by (rule heartbeat_line_cases [of results now t evaluated aborted w]) (use assms in \<open>auto intro: exI [of _ "[]"]\<close>)

section \<open>What a tick tells and what it has done\<close>

text \<open>C12. A tick reports changes of the store only when it has written them: either it reports none, keeps every request and
  leaves the file as it was or moved aside as a whole, or the file is the store that the evaluation gave, started from the store
  that was loaded with the requests applied, and the reported changes are the ones of that evaluation, in order.\<close>

theorem tick_reports_what_it_saved:
  "case run_tick fromiso rp e w of (res, w') \<Rightarrow>
     \<exists>new. lw_log w' = lw_log w @ new \<and>
       (reported new = [] \<and> set (lw_requests w) \<subseteq> set (lw_requests w') \<and> untouched w w' \<or>
        (\<exists>s moved t. load_store fromiso (lw_store w) (te_now e) = Inr (s, moved) \<and> store_writable s \<and>
           evaluate fromiso (tick_budget e) (te_now e) (te_results e) (evaluated_from rp e w s) = (Inr (), t) \<and>
           lw_store w' = Store_text (store_text (env_of (tk_store t))) \<and> reported new = tk_held t))"
proof (cases "te_locked e")
  case True
  then show ?thesis by (auto simp: run_tick_def emit_def modify_def)
next
  case False
  have quiet: "\<exists>new. lw_log w' = lw_log w @ new \<and> reported new = [] \<and> set (lw_requests w) \<subseteq> set (lw_requests w') \<and> untouched w w'"
    if "load_store fromiso (lw_store w) (te_now e) = Inr (s, moved)"
      and "heartbeat_line (te_results e) (te_now e) t ev ab (read_world e s moved w) = (res, w')" for s moved t ev ab res w'
    using heartbeat_line_logs [OF that(2)] read_world_untouched [OF that(1), of e] by auto
  obtain res w' where run: "run_tick fromiso rp e w = (res, w')" by fastforce
  then have locked: "locked_tick fromiso rp e w = (res, w')" using False by (simp add: run_tick_def)
  show ?thesis
  proof (cases rule: locked_tick_cases [of fromiso rp e w])
    case (unloaded x)
    then show ?thesis using run locked by auto
  next
    case (halted s moved)
    then show ?thesis using quiet [OF halted(1)] run locked by auto
  next
    case (raised s moved x t)
    then show ?thesis using run locked read_world_untouched [OF raised(1), of e] by auto
  next
    case (evaluated s moved t)
    obtain reqs bad where rb: "requests_of rp e w = (reqs, bad)" by fastforce
    have fin: "finish_tick e reqs bad t (read_world e s moved w) = (res, w')" using evaluated(4) rb locked by simp
    show ?thesis
    proof (cases rule: finish_tick_cases [of e reqs bad t "read_world e s moved w"])
      case late
      then have "heartbeat_line (te_results e) (te_now e) t False True (read_world e s moved w) = (res, w')" using fin by simp
      from quiet [OF evaluated(1) this] show ?thesis using run by auto
    next
      case unwritten
      then show ?thesis using fin run read_world_untouched [OF evaluated(1), of e] by auto
    next
      case (saved w1)
      then have "heartbeat_line (te_results e) (te_now e) t True False w1 = (res, w')" using fin by simp
      from heartbeat_line_logs [OF this] obtain ls where "w' = w1\<lparr>lw_log := lw_log w1 @ ls\<rparr>" "reported ls = []" by blast
      then show ?thesis using saved evaluated(1-3) run by auto
    qed
  qed
qed

text \<open>C14. A store file that is not valid UTF-8 stops the ledger without a heartbeat: every tick raises before it has written a
  line, and leaves the file where it is, so the next tick meets it again.\<close>

theorem undecodable_store_silences_ledger:
  assumes "lw_store w = Undecodable_store" "\<not> te_locked e"
  shows "run_tick fromiso rp e w = (Inl (Load_failed Unicode_decode_error), w)"
proof (cases rule: locked_tick_cases [of fromiso rp e w])
  case (unloaded x)
  then show ?thesis using assms by (simp add: run_tick_def load_store_def)
qed (use assms in \<open>simp_all add: load_store_def\<close>)
section \<open>The requests of the operator\<close>

text \<open>An evaluation keeps what closing a record and writing a record keep.\<close>

lemma evaluate_keeps:
  assumes close: "\<And>key s. S s \<Longrightarrow> S (close_record key s)"
    and put: "\<And>key row s s'. S s \<Longrightarrow> put_record fromiso key row s = Inr s' \<Longrightarrow> S s'"
  shows "yields (at_store S) (evaluate fromiso b now results) (\<lambda>_. at_store S)"
proof -
  have obs: "yields (at_store S) (observe_unit fromiso now res ob acc) (\<lambda>acc' t. at_store S t \<and> True)" for res ob acc
    by (rule yieldsI, drule observe_unit_effect) (auto simp: reclassify_def Let_def split: if_splits intro: close put)
  have "yields (at_store S) (observe_source fromiso now res acc) (\<lambda>acc' t. at_store S t \<and> True)" for res acc
    by (rule yields_observe_source [OF obs]) (simp_all add: close)
  then have "yields (at_store S) (observe_sources fromiso now results ([], [])) (\<lambda>acc t. at_store S t \<and> True)"
    by (rule yields_observe_sources) simp
  then show ?thesis
  proof (rule yields_evaluate)
    show "S s'" if "S s" "settle_marker fromiso key flags why_marked s = Inr s'" for s s' key flags why_marked
      using that by (auto simp: settle_marker_def Let_def intro: put)
    show "yields (at_store S) (open_all fromiso b now u (fst acc)) (\<lambda>_. at_store S)" for acc u
      by (rule yields_open_all) (erule (1) put)
  qed
qed

lemma evaluate_keeps_quarantine:
  assumes "evaluate fromiso b now results t = (Inr (), t')"
  shows "quarantined (tk_store t') = quarantined (tk_store t)"
proof -
  have "yields (at_store (\<lambda>s. quarantined s = quarantined (tk_store t))) (evaluate fromiso b now results)
      (\<lambda>_. at_store (\<lambda>s. quarantined s = quarantined (tk_store t)))"
    by (rule evaluate_keeps) (auto simp: close_record_def put_record_Inr)
  from yieldsD [OF this _ assms] show ?thesis by simp
qed

lemma apply_requests_clear:
  "json_get k (quarantined (fst (apply_requests reqs (s, held)))) =
     (if k \<in> req_unit_key ` set reqs then Null else json_get k (quarantined s))"
  by (induction reqs arbitrary: s held) (auto simp: Let_def clear_quarantined_def json_get_del split_beta)

lemma read_clear_requests_reads:
  assumes "(n, f) \<in> set dir" "is_request_name n" "read_request rp n f = Inr r"
  shows "r \<in> set (fst (read_clear_requests rp dir))"
  using assms by (force simp: read_clear_requests_def Let_def map_filter_def)

lemma request_name: "read_request rp n f = Inr r \<Longrightarrow> req_name r = n"
  by (auto simp: read_request_def split: option.splits json.splits)

lemma moved_names:
  assumes "move_invalid rename_ok bad w = (Inr (), w')"
  shows "fst ` set (lw_requests w') \<subseteq> fst ` set (lw_requests w) \<union> {n. endswith n INVALID_REQUEST_SUFFIX}"
  using assms
proof (induction bad arbitrary: w)
  case (Cons b bad)
  obtain n why_bad where b: "b = (n, why_bad)" by (cases b)
  define w1 where "w1 = (if rename_ok n
         then (case map_of (lw_requests w) n of
                 None \<Rightarrow> w
               | Some f \<Rightarrow> w\<lparr>lw_requests := dict_set (n @ INVALID_REQUEST_SUFFIX) f (dict_del n (lw_requests w))\<rparr>)
         else w)"
  have "fst ` set (lw_requests w1) \<subseteq> fst ` set (lw_requests w) \<union> {n. endswith n INVALID_REQUEST_SUFFIX}"
    by (cases "map_of (lw_requests w) n") (simp_all add: w1_def endswith_def, blast)
  moreover have "move_invalid rename_ok bad (w1\<lparr>lw_log := lw_log w1 @ [Request_invalid n why_bad (rename_ok n)]\<rparr>) = (Inr (), w')"
    using Cons.prems by (simp add: b modify_andthen emit_def w1_def)
  from Cons.IH [OF this] have "fst ` set (lw_requests w') \<subseteq> fst ` set (lw_requests w1) \<union> {n. endswith n INVALID_REQUEST_SUFFIX}"
    by simp
  ultimately show ?case by blast
qed (auto simp: ret_def)

text \<open>A name that is a request's is not one of a request moved aside.\<close>

lemma request_not_moved:
  assumes "is_request_name n"
  shows "\<not> endswith n INVALID_REQUEST_SUFFIX"
proof -
  obtain m where "drop 6 n = m @ lit ''.json''"
    using assms by (auto simp: is_request_name_def endswith_def startswith_iff rev_eq_append_conv)
  then have "n = take 6 n @ m @ lit ''.json''" by (metis append_take_drop_id)
  then have "rev n = rev (lit ''.json'') @ rev (take 6 n @ m)" by (metis rev_append append_assoc)
  moreover have "rev (lit ''.json'') @ xs \<noteq> rev INVALID_REQUEST_SUFFIX @ ys" for xs ys
    by (simp add: INVALID_REQUEST_SUFFIX_def text_simps)
  ultimately show ?thesis by (metis endswith_def startswith_iff)
qed

text \<open>What the end of a tick leaves of the requests.\<close>

lemma finish_tick_requests:
  assumes run: "finish_tick e reqs bad t w = (Inr (), w')"
  obtains (late) bt where "lw_requests w' = lw_requests w" "last (lw_log w') = Beat bt" "\<not> beat_evaluated bt"
  | (saved) bt where "lw_store w' = Store_text (store_text (env_of (tk_store t)))" "last (lw_log w') = Beat bt" "beat_evaluated bt"
      "\<forall>r \<in> set reqs. is_request_name (req_name r) \<longrightarrow> req_name r \<notin> fst ` set (lw_requests w')"
proof (cases "te_tick_max e < te_clock e (clock_reads t) - te_clock e 0")
  case True
  then have "heartbeat_line (te_results e) (te_now e) t False True w = (Inr (), w')" using run by (simp add: finish_tick_def)
  then show thesis
    by (rule_tac heartbeat_line_cases [of "te_results e" "te_now e" t False True w]) (auto intro: late)
next
  case False
  have enc: "encodable (Obj (env_of (tk_store t)))"
    using run False by (auto simp: finish_tick_def save_store_def andthen_def raise_def split: if_splits)
  define w1 where "w1 = w\<lparr>lw_store := Store_text (store_text (env_of (tk_store t))), lw_log := lw_log w @ map Reported (tk_held t),
      lw_requests := filter (\<lambda>(n, _). n \<notin> req_name ` set reqs) (lw_requests w)\<rparr>"
  obtain w2 where w2: "move_invalid (te_rename_ok e) bad w1 = (Inr (), w2)" "lw_store w2 = lw_store w1"
    using move_invalid_run [of "te_rename_ok e" bad w1] by auto
  have "heartbeat_line (te_results e) (te_now e) t True False w2 = (Inr (), w')"
    using run False enc w2(1)
    by (simp add: finish_tick_def save_store_def emit_all_def unlink_requests_def modify_andthen w1_def andthen_run [of "move_invalid _ _"])
  then obtain bt where bt: "w' = w2\<lparr>lw_log := lw_log w2 @ [Beat bt]\<rparr>" "beat_evaluated bt"
    by (rule_tac heartbeat_line_cases [of "te_results e" "te_now e" t True False w2]) auto
  show thesis
  proof (rule saved [of bt])
    show "\<forall>r \<in> set reqs. is_request_name (req_name r) \<longrightarrow> req_name r \<notin> fst ` set (lw_requests w')"
      using moved_names [OF w2(1)] request_not_moved bt(1) by (fastforce simp: w1_def)
  qed (simp_all add: bt w2(2) w1_def)
qed

text \<open>C13. A request of the operator to clear a quarantined key takes effect: in a tick that returns and says it evaluated, the
  store that was written has no quarantine under the key and the request is gone; in one that says it did not, the
  request is still there.\<close>

theorem clear_request_takes_effect:
  assumes "run_tick fromiso rp e w = (Inr (), w')" "\<not> te_locked e"
    and "(n, f) \<in> set (lw_requests w @ te_arrivals e)" "is_request_name n" "read_request rp n f = Inr r"
  shows "\<exists>bt. last (lw_log w') = Beat bt \<and>
    (if beat_evaluated bt
     then n \<notin> fst ` set (lw_requests w') \<and>
       (\<exists>env. lw_store w' = Store_text (store_text env) \<and> json_get (req_unit_key r) (dict_of (json_get F_QUARANTINED env)) = Null)
     else (n, f) \<in> set (lw_requests w'))"
proof (cases rule: locked_tick_cases [of fromiso rp e w])
  case (halted s moved)
  then have "heartbeat_line (te_results e) (te_now e) (tick_start s []) False False (read_world e s moved w) = (Inr (), w')"
    using assms(1,2) by (simp add: run_tick_def)
  then show ?thesis
    by (rule_tac heartbeat_line_cases [of "te_results e" "te_now e" "tick_start s []" False False "read_world e s moved w"])
       (use assms(3) in auto)
next
  case (evaluated s moved t)
  obtain reqs bad where rb: "requests_of rp e w = (reqs, bad)" by fastforce
  have fin: "finish_tick e reqs bad t (read_world e s moved w) = (Inr (), w')"
    using evaluated(4) rb assms(1,2) by (simp add: run_tick_def)
  have r: "r \<in> set reqs" "req_name r = n"
    using read_clear_requests_reads [OF assms(3-5)] rb request_name [OF assms(5)] by (simp_all add: requests_of_def)
  from fin show ?thesis
  proof (cases rule: finish_tick_requests)
    case (late bt)
    then show ?thesis using assms(3) by auto
  next
    case (saved bt)
    have "json_get (req_unit_key r) (quarantined (tk_store t)) = Null"
      using evaluate_keeps_quarantine [OF evaluated(3)] r(1) apply_requests_clear [of "req_unit_key r" reqs s "quarantine_lines s"]
      by (simp add: evaluated_from_def rb tick_start_def split_beta)
    then show ?thesis using saved r assms(4) by (auto simp: quarantined_def)
  qed
qed (use assms(1,2) in \<open>simp_all add: run_tick_def\<close>)

text \<open>A tick without a store, whose source could not list its units, and into which a request comes.\<close>

definition sample_request :: pystr where
  "sample_request = dumps_line (Obj [(lit ''unit_key'', Str (lit ''pr:1''))])"

definition quiet_source :: source_result where
  "quiet_source = sample_source\<lparr>rs_observations := [], rs_complete := False\<rparr>"

definition request_env :: tick_env where
  "request_env = \<lparr>te_now = 0, te_results = [quiet_source], te_arrivals = [(lit ''clear-1.json'', Request_text sample_request)],
     te_clock = \<lambda>_. 0, te_tick_max = T_TICK_MAX, te_fetch_timeout = FETCH_TIMEOUT, te_fetch_margin = FETCH_MARGIN,
     te_rename_ok = \<lambda>_. True, te_locked = False\<rparr>"

definition empty_world :: ledger_world where
  "empty_world = \<lparr>lw_store = No_store, lw_aside = [], lw_requests = [], lw_log = []\<rparr>"

lemma sample_request_reads:
  "read_request (\<lambda>_. []) n (Request_text sample_request) =
     Inr \<lparr>req_name = n, req_unit_key = lit ''pr:1'', requested_by = [], requested_at = []\<rparr>"
proof -
  have "newlines sample_request = sample_request"
    using high_no_cr [OF json_string_high] by (intro newlines_no_cr) (simp add: sample_request_def dumps_line_def)
  moreover have "loads sample_request = Some (Obj [(lit ''unit_key'', Str (lit ''pr:1''))])"
    unfolding sample_request_def by (rule loads_dumps_line) (simp add: scalar_lit)
  moreover have "json_get k [] = Null" for k :: pystr by (simp add: json_get.simps)
  ultimately show ?thesis by (simp add: read_request_def json_get_Cons or_empty_def text_simps)
qed

lemma request_name_ok: "is_request_name (lit ''clear-1.json'')"
  by (simp add: is_request_name_def startswith_def endswith_def text_simps)

lemma sample_tick_returns: "\<exists>w'. run_tick strict_iso (\<lambda>_. []) request_env empty_world = (Inr (), w')"
proof -
  let ?run = "run_tick strict_iso (\<lambda>_. []) request_env empty_world"
  have run: "?run = locked_tick strict_iso (\<lambda>_. []) request_env empty_world" by (simp add: run_tick_def request_env_def)
  have observe: "observe_source strict_iso now quiet_source acc = ret acc" for now acc
    by (simp add: quiet_source_def observe_source_def)
  have still: "evaluate strict_iso b now [quiet_source] t = (Inr (), t)" for b now t
    by (simp add: evaluate_def gets_andthen observe owed_fetches_def List.map_filter_simps) (simp add: ret_def)
  have reqs: "requests_of (\<lambda>_. []) request_env empty_world =
      ([\<lparr>req_name = lit ''clear-1.json'', req_unit_key = lit ''pr:1'', requested_by = [], requested_at = []\<rparr>], [])"
    using request_name_ok sample_request_reads
    by (simp add: requests_of_def read_clear_requests_def request_env_def empty_world_def List.map_filter_simps)
  have enc: "encodable (Obj (env_of (tk_store (evaluated_from (\<lambda>_. []) request_env empty_world
      (empty_store Absent_store (Some fresh_envelope))))))"
    by (simp add: evaluated_from_def reqs Let_def clear_quarantined_def put_quarantined_def tick_start_def env_of_def empty_store_def
        fresh_envelope_def quarantined_def json_get_Cons dict_of_def dict_del_def F_VERSION_def F_RECORDS_def F_QUARANTINED_def scalar_lit)
  have told: "\<exists>w'. heartbeat_line (te_results request_env) now t ev ab w = (Inr (), w')" for now t ev ab w
    by (rule heartbeat_line_cases [of "te_results request_env" now t ev ab w]) (auto simp: request_env_def)
  show ?thesis
  proof (cases rule: locked_tick_cases [of strict_iso "\<lambda>_. []" request_env empty_world])
    case (evaluated s moved t)
    have s: "s = empty_store Absent_store (Some fresh_envelope)" using evaluated(1) by (simp add: empty_world_def load_store_def)
    have t: "t = evaluated_from (\<lambda>_. []) request_env empty_world s"
      using evaluated(3) still by (simp add: request_env_def)
    show ?thesis
      using enc told
      by (cases rule: finish_tick_cases [of request_env "fst (requests_of (\<lambda>_. []) request_env empty_world)" "[]" t
            "read_world request_env s moved empty_world"])
         (simp_all add: run evaluated(4) reqs s t del: encodable.simps)
  next
    case (raised s moved x t)
    then show ?thesis using still by (simp add: request_env_def)
  qed (simp_all add: empty_world_def load_store_def empty_store_def store_writable_def)
qed

lemma clear_request_takes_effect_witness:
  "\<exists>w'. run_tick strict_iso (\<lambda>_. []) request_env empty_world = (Inr (), w') \<and>
    (\<exists>bt. last (lw_log w') = Beat bt \<and>
      (if beat_evaluated bt
       then lit ''clear-1.json'' \<notin> fst ` set (lw_requests w') \<and>
         (\<exists>env. lw_store w' = Store_text (store_text env) \<and> json_get (lit ''pr:1'') (dict_of (json_get F_QUARANTINED env)) = Null)
       else (lit ''clear-1.json'', Request_text sample_request) \<in> set (lw_requests w')))"
proof -
  obtain w' where run: "run_tick strict_iso (\<lambda>_. []) request_env empty_world = (Inr (), w')" using sample_tick_returns by blast
  have "\<not> te_locked request_env" "(lit ''clear-1.json'', Request_text sample_request) \<in> set (lw_requests empty_world @ te_arrivals request_env)"
    by (simp_all add: request_env_def)
  from clear_request_takes_effect [OF run this request_name_ok sample_request_reads] run show ?thesis by fastforce
qed

lemma undecodable_store_silences_ledger_witness:
  "run_tick strict_iso (\<lambda>_. []) request_env (empty_world\<lparr>lw_store := Undecodable_store\<rparr>) =
     (Inl (Load_failed Unicode_decode_error), empty_world\<lparr>lw_store := Undecodable_store\<rparr>)"
  by (rule undecodable_store_silences_ledger) (simp_all add: request_env_def)

end
