(* ===== verification/Spec2Isabelle.thy ===== *)
theory Spec2Isabelle
  imports Watcher Sessions ConductorLoop DecisionLog Stops StallTick
begin

text \<open>
  Spirrow MindWire: a model of the message exchange and of the control decisions of the system,
  with the theorems that make them correct. Paths below are under \<open>src/src/spirrow_mindwire/\<close>.

  The program. Threads are directories holding a meta file, numbered message files and an event
  log. A remote writer opens a thread and sends messages (\<open>mcp_write_server/tools_write.py\<close>); the
  watcher (\<open>watcher/\<close>) sees a new message, runs a session that answers through a reply tool
  (\<open>claude_code/tools/mindwire_server.py\<close>), retries it and keeps the meta file through the
  operations of \<open>lifecycle/transitions.py\<close>. In the multi-role loop a dispatcher (\<open>dispatcher/\<close>)
  delivers an event to a session of a role and posts its reply, and the conductor (\<open>conductor/\<close>)
  reads the handoff line of a reply to decide which role speaks next, under the guards of
  \<open>routing.py\<close> and the bounded self-continuation of \<open>conductor/continuation.py\<close>.

  The theories.
  \<^item> \<open>Prelude\<close>: actions that pass a state and may raise (\<open>('w, 'e, 'a) act\<close>, an error is \<open>Inl\<close>), the
    rule sets \<open>act_simps\<close> and \<open>keeps_intros\<close>, dictionaries in insertion order, stable sorting.
  \<^item> \<open>Machines\<close>: the interfaces as locales: status machines with terminal states, machines with
    final states, the \<open>seen\<close>/\<open>mark\<close> contract of a duplicate filter. Each is interpreted on the model
    of the code that provides it, in the theory of that code.
  \<^item> \<open>UnicodeTables\<close>, \<open>PyText\<close>: texts as lists of code points, the white space, line and digit
    classes of Python's strings and regular expressions, stripping, splitting, decimal numerals.
  \<^item> \<open>Lifecycle\<close>: the schema records, the status table, \<open>transition_state\<close>, \<open>bump_retry_count\<close>,
    \<open>set_awaiting_from\<close>, \<open>toggle_awaiting_from\<close>; consistency of the meta file (\<open>disk_ok\<close>) and the
    all-or-nothing law.
  \<^item> \<open>Messages\<close>: message files (\<open>filesystem/thread_dir.py\<close>, \<open>watcher/loader.py\<close>) and the write tools;
    consistency of a thread (\<open>thread_ok\<close>) and what a writer adds to a conversation.
  \<^item> \<open>Watcher\<close>: \<open>watcher/dedup.py\<close>, \<open>watcher/dispatcher.py\<close>, \<open>watcher/startup_scan.py\<close>; recovery,
    exhaustion, the bound on sessions, what a concurrent writer cannot break.
  \<^item> \<open>Sessions\<close>: \<open>dispatcher/session_fsm.py\<close>, \<open>registry.py\<close>, \<open>dedup.py\<close> and \<open>core.py\<close>; reply keys,
    closing of turns, refused clones.
  \<^item> \<open>Routing\<close>, \<open>Continuation\<close>: \<open>routing.py\<close> and \<open>conductor/continuation.py\<close>.
  \<^item> \<open>Regex\<close>: a backtracking matcher with Python's preference order, for the patterns of the handoff
    grammar; the remaining text bounds the iterations of a star, which suffices because an iteration
    that consumes nothing ends the loop.
  \<^item> \<open>Handoff\<close>: \<open>conductor/handoff.py\<close> up to the prompt texts, and the parsing of pull request
    references of \<open>github/client.py\<close>.
  \<^item> \<open>Gate\<close>: \<open>gate_admission.py\<close>, the table that admits a pull request to the review gate; waiting
    ends, a verdict is not repeated.
  \<^item> \<open>Json\<close>, \<open>Markers\<close>: reading and writing of the JSON values in marker lines
    (\<open>conductor/gate_records.py\<close>), with the round trip of the texts the loop writes itself.
  \<^item> \<open>PyTime\<close>: calendar instants in microseconds, ISO texts and conversion to UTC with its overflow.
  \<^item> \<open>GateRecords\<close>: the records the loop reads back from its own relay bodies and the resume check
    (\<open>conductor/gate_resume.py\<close>); a red head is routed once.
  \<^item> \<open>LoopControl\<close>: \<open>conductor/control.py\<close> and \<open>conductor/summon.py\<close>; the fail-safe reading and the
    order in which summoned threads yield.
  \<^item> \<open>Segments\<close>: \<open>conductor/tier_c_segment.py\<close>, the attestation stamp of \<open>source_marker.py\<close>, the
    identity guards; when a declaration is open.
  \<^item> \<open>HeadSkip\<close>: \<open>conductor/head_skip.py\<close>, the step of \<open>src/scripts/head_skip_decide.py\<close> for one
    candidate, \<open>conductor/stall.py\<close>; the relation \<open>sweep\<close> is the life of one thread under the sweep.
  \<^item> \<open>Conductor\<close>: the route of one head (\<open>Conductor._route\<close> and what it calls); the order of the
    costly observations is kept by thunks over the state of the run.
  \<^item> \<open>ConductorLoop\<close>: the run of \<open>conductor/core.py\<close>. Each stage of a round is a definition, the rounds
    are the recursion \<open>run_rounds\<close>; every call out of the loop is appended to \<open>calls\<close>, and what the
    outside answers may depend on all calls so far. \<open>within k m\<close> bounds what an action appends.
  \<^item> \<open>Stops\<close>: the events and markers of stop notices, the vocabulary of the board, the disposition of a
    settled thread and the lane of a parked one; a posted stand-down lands in its lane.
  \<^item> \<open>JsonLog\<close>: files of JSON rows, one per line, as several modules keep them: universal newlines, the
    repair of a torn last line, the append, and the locale \<open>keyed_log\<close> for rows that have a key.
  \<^item> \<open>Ledgers\<close>: \<open>conductor/continuation_ledger.py\<close>, shown to refine a map that keeps the first row of each
    key, and \<open>clone_retreat_log.py\<close>, whose record is pending until it is delivered; both interpret
    \<open>keyed_log\<close>.
  \<^item> \<open>TierC\<close>: \<open>tier_c_admission_gate.py\<close>, \<open>conductor/tierc_gate.py\<close> and the log of
    \<open>tier_c_decisions_log.py\<close>; a bounce is redeemed once.
  \<^item> \<open>DecisionLog\<close>: the decision lines of posts, \<open>Conductor._record_decision_lines\<close> and
    \<open>decision_log_audit.py\<close>; recorded posts pass the audit.
  \<^item> \<open>IsoText\<close>: the calendar date of an instant and its ISO text, read back by \<open>fromisoformat\<close>.
  \<^item> \<open>StallLedger\<close>: the domain of the stall ledger: units, motion and its origin, the predicates, the class, the
    refire budget, the remedy marker, the health of a heartbeat (\<open>stall_ledger/\<close>, the pure modules).
  \<^item> \<open>StallStore\<close>: \<open>stall_ledger/store.py\<close>. The rows of the file and the records read from them are kept
    side by side as in the code (\<open>synced\<close> says that they agree); a saved store loads back, and the load order
    loses no row.
  \<^item> \<open>StallDriver\<close>: the evaluation of \<open>stall_ledger/driver.py\<close> in its three passes; every stall is recorded, and
    the loop's own motion does not restart its clock.
  \<^item> \<open>StallTick\<close>: \<open>run_tick\<close> around it: the store file, the requests of the operator, the log.

  Bounds and fuel. The attempts of \<open>run_thread\<close> are the \<open>max_retries + 1\<close> elements of the range of the
  loop, and the rounds of \<open>run_loop\<close> are the range of \<open>max_rounds\<close>, so the fuel is the range itself.
  Splitting a text at a separator takes the text as fuel, since every piece is shorter. Integers of the
  program are unbounded. Durations are microseconds.

  Parameters. Code that is not in the repository, or that is I/O, is an argument of the model: the
  session that a runner invokes (a function of the attempt and of the disk, so another writer may
  act during it), the jitter, the clock (a stream read through \<open>ticks\<close>), the ULID check, the encoded
  size of a message, the case folding of Python (\<open>cf\<close>, no law of it is assumed beyond what a theorem
  states), the stamps and fresh identifiers of log rows, the
  reading of ISO texts, \<open>str\<close> of values that are not texts (\<open>rp\<close>), the lower case of Python (\<open>lo\<close>), the
  what the sources of the stall ledger list and what a body fetch answers, the monotonic clock, the
  adapters, the git hook, the clone guard and the post operation of the dispatcher, the
  chatroom, the sessions, GitHub and the Decider of the conductor (each may answer by the trace of
  calls so far).

  Not modelled: parsing of YAML, file-system notification, process launching, HTTP clients, prompt
  texts and SDK wrappers, the wordings of notices (a notice is a value with the data its text is built
  from); the manifest lists every part.
\<close>

end
